(* ===== verification/Prelude.thy ===== *)
theory Prelude
  imports Main "HOL-Library.Word" "HOL-Library.AList"
begin

unbundle bit_operations_syntax

text \<open>
  Shared vocabulary of the development: the machine types of the Rust sources, the parts of
  the Rust standard library they use (saturating arithmetic, big-endian byte conversion, number
  formatting), hash maps as association lists, and the generic lemmas the component theories
  share. Text and UTF-8 are in \<open>Rust_Std\<close>.

  A \<^verbatim>\<open>u8/u16/u32/u64\<close> is a word of that width, so its arithmetic wraps exactly as a release
  build does. A \<^verbatim>\<open>usize\<close> is a \<^typ>\<open>nat\<close>; where the code relies on its 64 bits
  (\<^verbatim>\<open>checked_add\<close>, \<^verbatim>\<open>fetch_sub\<close>) the bound is written out with \<open>usize_max\<close>. A Rust
  \<^verbatim>\<open>String\<close> or \<^verbatim>\<open>&str\<close> is an Isabelle \<^typ>\<open>string\<close> whose characters are the bytes of the
  UTF-8 encoding.
\<close>

named_theorems wt_consts \<open>the protocol constants, unfolded to their values\<close>

section \<open>Machine types\<close>

type_synonym u8 = "8 word"
type_synonym u16 = "16 word"
type_synonym u32 = "32 word"
type_synonym u64 = "64 word"
type_synonym bytes = "u8 list"

definition usize_max :: nat where
  "usize_max = 2 ^ 64 - 1"

definition saturating_add :: "u64 \<Rightarrow> u64 \<Rightarrow> u64" where
  "saturating_add a b = (if unat a + unat b < 2 ^ 64 then a + b else 0xFFFFFFFFFFFFFFFF)"

definition saturating_sub :: "u64 \<Rightarrow> u64 \<Rightarrow> u64" where
  "saturating_sub a b = (if a < b then 0 else a - b)"

lemma unat_lt_u64: "unat (x :: u64) < 2 ^ 64"
  using unsigned_less [where w = x] by simp

lemma unat_saturating_add:
  "unat (saturating_add a b) = min (unat a + unat b) (2 ^ 64 - 1)"
  by (auto simp: saturating_add_def unat_word_ariths)

lemma unat_saturating_sub: "unat (saturating_sub a b) = unat a - unat b"
  by (auto simp: saturating_sub_def word_less_nat_alt unat_sub word_le_nat_alt)

lemma saturating_sub_0 [simp]: "saturating_sub a 0 = a"
  by (simp add: saturating_sub_def)

lemma saturating_sub_self [simp]: "saturating_sub a a = 0"
  by (simp add: saturating_sub_def)

lemma saturating_add_0 [simp]: "saturating_add a 0 = a"
  using unat_lt_u64 [of a] by (simp add: saturating_add_def)

text \<open>A property of bytes that evaluates on all 256 of them holds for every byte.\<close>

lemma u8_exhaust: "list_all P (map of_nat [0..<256]) \<Longrightarrow> P (c :: u8)"
proof -
  have "c \<in> set (map of_nat [0..<256])"
    using unsigned_less [where w = c]
    by (auto simp: image_iff intro!: bexI [of _ "unat c"])
  moreover assume "list_all P (map of_nat [0..<256])"
  ultimately show ?thesis by (simp only: list_all_iff)
qed

section \<open>Strings and bytes\<close>

definition as_bytes :: "string \<Rightarrow> bytes" where
  "as_bytes s = map of_char s"

definition bytes_str :: "bytes \<Rightarrow> string" where
  "bytes_str b = map (\<lambda>x. char_of (unat x)) b"

lemma length_as_bytes [simp]: "length (as_bytes s) = length s"
  by (simp add: as_bytes_def)

lemma char_of_unat_of_char [simp]: "char_of (unat (of_char c :: u8)) = c"
proof -
  have "unat (of_nat (of_char c) :: u8) = (of_char c :: nat)"
    by (simp only: unat_of_nat) simp
  then show ?thesis by (simp add: of_nat_of_char)
qed

lemma bytes_str_as_bytes [simp]: "bytes_str (as_bytes s) = s"
  by (simp add: as_bytes_def bytes_str_def comp_def)

text \<open>Decimal and hexadecimal rendering of unsigned integers, as \<^verbatim>\<open>format!\<close> does it.\<close>

fun digits_base :: "nat \<Rightarrow> nat \<Rightarrow> string" where
  "digits_base b n =
     (if b \<le> 1 \<or> n < b then [''0123456789abcdef'' ! (n mod 16)]
      else digits_base b (n div b) @ [''0123456789abcdef'' ! (n mod b mod 16)])"

declare digits_base.simps [simp del]

definition show_dec :: "nat \<Rightarrow> string" where
  "show_dec n = digits_base 10 n"

definition show_hex :: "nat \<Rightarrow> string" where
  "show_hex n = ''0x'' @ digits_base 16 n"

text \<open>\<^verbatim>\<open>u32::to_be_bytes\<close> and \<^verbatim>\<open>u32::from_be_bytes\<close>, \<^verbatim>\<open>u16::to_be_bytes\<close>.\<close>

definition u32_to_be_bytes :: "u32 \<Rightarrow> bytes" where
  "u32_to_be_bytes w =
     [ucast (drop_bit 24 w), ucast (drop_bit 16 w), ucast (drop_bit 8 w), ucast w]"

definition u32_from_be_bytes :: "u8 \<Rightarrow> u8 \<Rightarrow> u8 \<Rightarrow> u8 \<Rightarrow> u32" where
  "u32_from_be_bytes a b c d =
     push_bit 8 (push_bit 8 (push_bit 8 (ucast a) OR ucast b) OR ucast c) OR ucast d"

definition u16_to_be_bytes :: "u16 \<Rightarrow> bytes" where
  "u16_to_be_bytes w = [ucast (drop_bit 8 w), ucast w]"

text \<open>Shifting the next lower byte of a word in from the right: the step of every big-endian reader.\<close>

lemma byte_shift_in:
  fixes v :: "'a::len word"
  shows "push_bit 8 (drop_bit (n + 8) v) OR ucast (ucast (drop_bit n v) :: u8) = drop_bit n v"
proof (rule bit_word_eqI)
  fix m assume m: "m < LENGTH('a)"
  show "bit (push_bit 8 (drop_bit (n + 8) v) OR ucast (ucast (drop_bit n v) :: u8)) m
      = bit (drop_bit n v) m"
    using m by (cases "m < 8") (simp_all add: bit_simps not_less)
qed

lemma ucast_top_byte: "ucast (ucast (drop_bit 24 w) :: u8) = drop_bit 24 (w :: u32)"
  by (rule bit_word_eqI) (auto simp: bit_simps dest: bit_imp_le_length)

lemma u32_be_roundtrip:
  "u32_from_be_bytes (ucast (drop_bit 24 w)) (ucast (drop_bit 16 w)) (ucast (drop_bit 8 w)) (ucast w) = w"
  using byte_shift_in [of 16 w] byte_shift_in [of 8 w] byte_shift_in [of 0 w]
  by (simp add: u32_from_be_bytes_def ucast_top_byte)

lemma length_u32_to_be_bytes [simp]: "length (u32_to_be_bytes w) = 4"
  by (simp add: u32_to_be_bytes_def)

section \<open>Hash maps\<close>

text \<open>
  A \<^verbatim>\<open>HashMap\<close> is an association list: lookup is \<^const>\<open>map_of\<close>, \<^verbatim>\<open>insert\<close> is
  \<^const>\<open>AList.update\<close>, \<^verbatim>\<open>remove\<close> is \<^const>\<open>AList.delete\<close>, and \<open>hm_modify\<close> is the idiom
  \<^verbatim>\<open>if let Some(v) = map.get_mut(&k) { ... }\<close>. The order of the list is not the iteration order of
  the hash map: an operation whose result depends on that order takes it as a parameter.
\<close>

definition hm_modify :: "'k \<Rightarrow> ('v \<Rightarrow> 'v) \<Rightarrow> ('k \<times> 'v) list \<Rightarrow> ('k \<times> 'v) list" where
  "hm_modify k f m = (case map_of m k of None \<Rightarrow> m | Some v \<Rightarrow> AList.update k (f v) m)"

definition hm_map :: "('v \<Rightarrow> 'w) \<Rightarrow> ('k \<times> 'v) list \<Rightarrow> ('k \<times> 'w) list" where
  "hm_map f m = map (\<lambda>(k, v). (k, f v)) m"

definition hm_total :: "('v \<Rightarrow> nat) \<Rightarrow> ('k \<times> 'v) list \<Rightarrow> nat" where
  "hm_total f m = sum_list (map (f \<circ> snd) m)"

abbreviation hm_keys :: "('k \<times> 'v) list \<Rightarrow> 'k list" where
  "hm_keys m \<equiv> map fst m"

lemma map_of_hm_update [simp]: "map_of (AList.update k v m) k' = (if k' = k then Some v else map_of m k')"
  by (simp add: update_conv')

lemma map_of_hm_delete [simp]: "map_of (AList.delete k m) k' = (if k' = k then None else map_of m k')"
  by (simp add: delete_conv')

lemma map_of_hm_modify [simp]:
  "map_of (hm_modify k f m) k' = (if k' = k then map_option f (map_of m k) else map_of m k')"
  by (auto simp: hm_modify_def split: option.splits)

lemma map_of_hm_map [simp]: "map_of (hm_map f m) k = map_option f (map_of m k)"
  by (induction m) (auto simp: hm_map_def)

lemma hm_keys_hm_map [simp]: "hm_keys (hm_map f m) = hm_keys m"
  by (simp add: hm_map_def case_prod_beta comp_def)

lemma distinct_hm_modify [simp]: "distinct (hm_keys (hm_modify k f m)) = distinct (hm_keys m)"
proof (cases "map_of m k")
  case (Some v)
  then have "k \<in> fst ` set m" by (metis domI dom_map_of_conv_image_fst)
  with Some show ?thesis by (simp add: hm_modify_def update_keys)
qed (simp add: hm_modify_def)

lemma hm_total_simps [simp]:
  "hm_total f [] = 0" "hm_total f (kv # m) = f (snd kv) + hm_total f m"
  by (simp_all add: hm_total_def)

lemma hm_total_update_None:
  "map_of m k = None \<Longrightarrow> hm_total f (AList.update k v m) = hm_total f m + f v"
  by (induction m) (auto split: if_splits)

lemma hm_total_update_Some:
  "map_of m k = Some old \<Longrightarrow> hm_total f (AList.update k v m) + f old = hm_total f m + f v"
  by (induction m) (auto split: if_splits)

lemma hm_total_delete_Some:
  "distinct (hm_keys m) \<Longrightarrow> map_of m k = Some old \<Longrightarrow>
   hm_total f (AList.delete k m) + f old = hm_total f m"
proof (induction m)
  case (Cons kv m)
  show ?case
  proof (cases "fst kv = k")
    case True
    then have "k \<notin> set (hm_keys m)" using Cons.prems by auto
    then have "AList.delete k m = m" by (simp add: delete_idem)
    then show ?thesis using Cons.prems True by (cases kv) auto
  next
    case False
    with Cons show ?thesis by (cases kv) auto
  qed
qed simp

lemma hm_total_member: "map_of m k = Some v \<Longrightarrow> f v \<le> hm_total f m"
  by (induction m) (auto split: if_splits)

lemma hm_total_hm_map [simp]: "hm_total f (hm_map g m) = hm_total (f \<circ> g) m"
  by (simp add: hm_total_def hm_map_def case_prod_beta comp_def)

lemma map_of_filter_snd:
  "distinct (map fst m) \<Longrightarrow> map_of (filter (\<lambda>(_, v). P v) m) k = Option.bind (map_of m k) (\<lambda>v. if P v then Some v else None)"
  by (induction m) (auto simp: map_of_eq_None_iff split: if_splits)

lemma map_of_filter_val:
  "distinct (map fst m) \<Longrightarrow> map_of (filter (\<lambda>(_, v). P v) m) k = Some v \<longleftrightarrow> map_of m k = Some v \<and> P v"
  by (cases "map_of m k") (auto simp: map_of_filter_snd simp del: map_of_eq_Some_iff)

end
