(* ===== verification/Rust_Std.thy ===== *)
theory Rust_Std
  imports Prelude
begin

text \<open>
  The text functions of the Rust standard library that the sources call: UTF-8 validation
  (\<^verbatim>\<open>str::from_utf8\<close>), lossy decoding (\<^verbatim>\<open>String::from_utf8_lossy\<close>), \<^verbatim>\<open>str::trim\<close> and
  \<^verbatim>\<open>str::parse::<u16>\<close>, and the character-boundary lemma the close-reason truncation rests on.
\<close>

section \<open>Results\<close>

text \<open>The question mark operator: an error returns at once.\<close>

definition try_then :: "'e + 'a \<Rightarrow> ('a \<Rightarrow> 'e + 'b) \<Rightarrow> 'e + 'b" where
  "try_then r f = (case r of Inl e \<Rightarrow> Inl e | Inr x \<Rightarrow> f x)"

lemma try_then_simps [simp]: "try_then (Inl e) f = Inl e" "try_then (Inr x) f = f x"
  by (simp_all add: try_then_def)

lemma try_then_Inr: "try_then r f = Inr y \<longleftrightarrow> (\<exists>x. r = Inr x \<and> f x = Inr y)"
  by (cases r) simp_all

text \<open>\<^verbatim>\<open>[String]::join\<close>.\<close>

fun join :: "string \<Rightarrow> string list \<Rightarrow> string" where
  "join sep [] = []"
| "join sep [x] = x"
| "join sep (x # y # ys) = x @ sep @ join sep (y # ys)"

section \<open>UTF-8 sequences\<close>

definition is_cont :: "u8 \<Rightarrow> bool" where
  "is_cont b \<longleftrightarrow> b AND 0xC0 = 0x80"

definition safe_get :: "bytes \<Rightarrow> nat \<Rightarrow> u8" where
  "safe_get xs i = (if i < length xs then xs ! i else 0)"

definition second3_ok :: "u8 \<Rightarrow> u8 \<Rightarrow> bool" where
  "second3_ok b c \<longleftrightarrow>
     (b = 0xE0 \<and> 0xA0 \<le> c \<and> c \<le> 0xBF) \<or>
     (0xE1 \<le> b \<and> b \<le> 0xEC \<and> 0x80 \<le> c \<and> c \<le> 0xBF) \<or>
     (b = 0xED \<and> 0x80 \<le> c \<and> c \<le> 0x9F) \<or>
     (0xEE \<le> b \<and> b \<le> 0xEF \<and> 0x80 \<le> c \<and> c \<le> 0xBF)"

definition second4_ok :: "u8 \<Rightarrow> u8 \<Rightarrow> bool" where
  "second4_ok b c \<longleftrightarrow>
     (b = 0xF0 \<and> 0x90 \<le> c \<and> c \<le> 0xBF) \<or>
     (0xF1 \<le> b \<and> b \<le> 0xF3 \<and> 0x80 \<le> c \<and> c \<le> 0xBF) \<or>
     (b = 0xF4 \<and> 0x80 \<le> c \<and> c \<le> 0x8F)"

text \<open>
  One step of the decoder on a non-empty input: whether a well-formed sequence starts here, and
  how many bytes it (or the maximal ill-formed part) takes.
\<close>

definition utf8_seq :: "bytes \<Rightarrow> bool \<times> nat" where
  "utf8_seq xs =
     (let b = safe_get xs 0 in
      if b < 0x80 then (True, 1)
      else if 0xC2 \<le> b \<and> b \<le> 0xDF then
        (if is_cont (safe_get xs 1) then (True, 2) else (False, 1))
      else if 0xE0 \<le> b \<and> b \<le> 0xEF then
        (if second3_ok b (safe_get xs 1) then
           (if is_cont (safe_get xs 2) then (True, 3) else (False, 2))
         else (False, 1))
      else if 0xF0 \<le> b \<and> b \<le> 0xF4 then
        (if second4_ok b (safe_get xs 1) then
           (if is_cont (safe_get xs 2) then
              (if is_cont (safe_get xs 3) then (True, 4) else (False, 3))
            else (False, 2))
         else (False, 1))
      else (False, 1))"

lemma utf8_seq_pos: "0 < snd (utf8_seq xs)"
  by (simp add: utf8_seq_def Let_def)

function utf8_valid :: "bytes \<Rightarrow> bool" where
  "utf8_valid xs =
     (if xs = [] then True
      else fst (utf8_seq xs) \<and> utf8_valid (drop (snd (utf8_seq xs)) xs))"
  by pat_completeness auto
termination
  by (relation "measure length") (auto simp: utf8_seq_pos)

function utf8_lossy :: "bytes \<Rightarrow> bytes" where
  "utf8_lossy xs =
     (if xs = [] then []
      else if fst (utf8_seq xs)
      then take (snd (utf8_seq xs)) xs @ utf8_lossy (drop (snd (utf8_seq xs)) xs)
      else [0xEF, 0xBF, 0xBD] @ utf8_lossy (drop (snd (utf8_seq xs)) xs))"
  by pat_completeness auto
termination
  by (relation "measure length") (auto simp: utf8_seq_pos)

function utf8_chars :: "bytes \<Rightarrow> bytes list" where
  "utf8_chars xs =
     (if xs = [] then []
      else take (snd (utf8_seq xs)) xs # utf8_chars (drop (snd (utf8_seq xs)) xs))"
  by pat_completeness auto
termination
  by (relation "measure length") (auto simp: utf8_seq_pos)

declare utf8_valid.simps [simp del] utf8_lossy.simps [simp del] utf8_chars.simps [simp del]

definition from_utf8 :: "bytes \<Rightarrow> string option" where
  "from_utf8 b = (if utf8_valid b then Some (bytes_str b) else None)"

definition from_utf8_lossy :: "bytes \<Rightarrow> string" where
  "from_utf8_lossy b = bytes_str (utf8_lossy b)"

text \<open>The \<^verbatim>\<open>White_Space\<close> characters \<^verbatim>\<open>str::trim\<close> removes, in UTF-8.\<close>

definition white_space :: "bytes list" where
  "white_space =
     [[0x09], [0x0A], [0x0B], [0x0C], [0x0D], [0x20], [0xC2, 0x85], [0xC2, 0xA0],
      [0xE1, 0x9A, 0x80]]
     @ map (\<lambda>c. [0xE2, 0x80, c])
         [0x80, 0x81, 0x82, 0x83, 0x84, 0x85, 0x86, 0x87, 0x88, 0x89, 0x8A, 0xA8, 0xA9, 0xAF]
     @ [[0xE2, 0x81, 0x9F], [0xE3, 0x80, 0x80]]"

definition str_trim :: "string \<Rightarrow> string" where
  "str_trim s =
     (let ws = (\<lambda>c. c \<in> set white_space);
          cs = utf8_chars (as_bytes s)
      in bytes_str (concat (rev (dropWhile ws (rev (dropWhile ws cs))))))"

definition is_digit :: "char \<Rightarrow> bool" where
  "is_digit c \<longleftrightarrow> c \<in> set ''0123456789''"

definition digit_val :: "char \<Rightarrow> nat" where
  "digit_val c = of_char c - 48"

text \<open>
  \<^verbatim>\<open>str::parse\<close> for an unsigned integer of \<open>w\<close> bits: an optional plus sign, at least one digit, and no
  overflow.
\<close>

definition parse_uint :: "nat \<Rightarrow> string \<Rightarrow> nat option" where
  "parse_uint w s =
     (let ds = (case s of [] \<Rightarrow> [] | c # cs \<Rightarrow> if c = CHR ''+'' then cs else s);
          v = foldl (\<lambda>v c. 10 * v + digit_val c) 0 ds
      in if ds \<noteq> [] \<and> list_all is_digit ds \<and> v < 2 ^ w then Some v else None)"

definition parse_u16 :: "string \<Rightarrow> u16 option" where
  "parse_u16 s = map_option of_nat (parse_uint 16 s)"

definition parse_u32 :: "string \<Rightarrow> u32 option" where
  "parse_u32 s = map_option of_nat (parse_uint 32 s)"

section \<open>Character boundaries\<close>

lemma is_cont_range: "is_cont c \<longleftrightarrow> 0x80 \<le> c \<and> c \<le> 0xBF"
  by (rule u8_exhaust [of "\<lambda>c. is_cont c \<longleftrightarrow> 0x80 \<le> c \<and> c \<le> 0xBF"]) code_simp

lemma not_is_cont_0 [simp]: "\<not> is_cont 0"
  by (simp add: is_cont_def)

lemma second3_ok_cont: "second3_ok b c \<Longrightarrow> is_cont c"
  by (auto simp: second3_ok_def is_cont_range word_le_nat_alt)

lemma second4_ok_cont: "second4_ok b c \<Longrightarrow> is_cont c"
  by (auto simp: second4_ok_def is_cont_range word_le_nat_alt)

lemma safe_get_append: "i < length xs \<Longrightarrow> safe_get (xs @ ys) i = safe_get xs i"
  by (simp add: safe_get_def nth_append)

lemma safe_get_take: "safe_get (take k xs) i = (if i < k then safe_get xs i else 0)"
  by (simp add: safe_get_def)

lemma safe_get_cont_length: "is_cont (safe_get xs i) \<Longrightarrow> i < length xs"
  by (auto simp: safe_get_def split: if_splits)

text \<open>
  A well-formed sequence lies inside the input, starts with a byte that is no continuation byte
  and goes on with continuation bytes only; cutting the input inside the sequence makes it
  ill-formed, cutting it later does not matter.
\<close>

lemma utf8_seq_True:
  assumes "utf8_seq xs = (True, n)" and "xs \<noteq> []"
  shows utf8_seq_length: "n \<le> length xs"
    and utf8_seq_head: "\<not> is_cont (safe_get xs 0)"
    and utf8_seq_tail: "\<And>i. 0 < i \<Longrightarrow> i < n \<Longrightarrow> is_cont (safe_get xs i)"
proof -
  have c: "is_cont (safe_get xs (Suc 0))" if "second3_ok b (safe_get xs (Suc 0)) \<or> second4_ok b (safe_get xs (Suc 0))" for b
    using that second3_ok_cont second4_ok_cont by blast
  show tail: "is_cont (safe_get xs i)" if "0 < i" "i < n" for i
  proof -
    have "n \<le> 4"
      using assms(1) by (auto simp: utf8_seq_def Let_def split: if_splits)
    with that consider "i = Suc 0" | "i = 2" | "i = 3" by linarith
    then show ?thesis
      using assms(1) that c by cases (auto simp: utf8_seq_def Let_def split: if_splits)
  qed
  show "n \<le> length xs"
  proof (cases "n \<le> 1")
    case True
    then show ?thesis using assms(2) by (cases xs) auto
  next
    case False
    then have "is_cont (safe_get xs (n - 1))" by (intro tail) auto
    then show ?thesis using safe_get_cont_length by fastforce
  qed
  show "\<not> is_cont (safe_get xs 0)"
    using assms(1)
    by (auto simp: utf8_seq_def Let_def is_cont_range word_le_nat_alt word_less_nat_alt split: if_splits)
qed

lemma second_ok_0 [simp]: "\<not> second3_ok b 0" "\<not> second4_ok b 0"
  using second3_ok_cont second4_ok_cont by fastforce+

lemma utf8_seq_take_short:
  "utf8_seq xs = (True, n) \<Longrightarrow> 0 < k \<Longrightarrow> k < n \<Longrightarrow> \<not> fst (utf8_seq (take k xs))"
  by (auto simp: utf8_seq_def Let_def safe_get_take split: if_splits)

lemma utf8_seq_take_long:
  "utf8_seq xs = (True, n) \<Longrightarrow> n \<le> k \<Longrightarrow> utf8_seq (take k xs) = (True, n)"
  by (auto simp: utf8_seq_def Let_def safe_get_take split: if_splits)

lemma utf8_valid_Nil [simp]: "utf8_valid []"
  by (simp add: utf8_valid.simps)

lemma utf8_valid_step:
  "utf8_seq xs = (True, n) \<Longrightarrow> xs \<noteq> [] \<Longrightarrow> utf8_valid xs = utf8_valid (drop n xs)"
  by (subst utf8_valid.simps) simp

text \<open>In a valid string the valid prefixes end exactly at the bytes that are no continuation bytes.\<close>

theorem utf8_valid_take_iff:
  "utf8_valid xs \<Longrightarrow> k \<le> length xs \<Longrightarrow>
   utf8_valid (take k xs) \<longleftrightarrow> k = length xs \<or> \<not> is_cont (xs ! k)"
proof (induction xs arbitrary: k rule: utf8_valid.induct)
  case (1 xs)
  show ?case
  proof (cases "xs = []")
    case True
    with "1.prems" show ?thesis by simp
  next
    case ne: False
    then obtain n where n: "utf8_seq xs = (True, n)" and v: "utf8_valid (drop n xs)"
      using "1.prems"(1) by (subst (asm) utf8_valid.simps) (cases "utf8_seq xs", auto)
    have pos: "0 < n" and len: "n \<le> length xs"
      using utf8_seq_pos [of xs] n utf8_seq_length [OF n ne] by auto
    consider "k = 0" | "0 < k" "k < n" | "n \<le> k" by linarith
    then show ?thesis
    proof cases
      case 1
      then show ?thesis
        using utf8_seq_head [OF n ne] ne by (auto simp: safe_get_def)
    next
      case 2
      then have "\<not> utf8_valid (take k xs)"
        using utf8_seq_take_short [OF n] ne by (subst utf8_valid.simps) auto
      moreover have "is_cont (xs ! k)"
        using utf8_seq_tail [OF n ne, of k] 2 len by (simp add: safe_get_def)
      ultimately show ?thesis using 2 len by auto
    next
      case 3
      have "utf8_valid (take k xs) = utf8_valid (drop n (take k xs))"
        using utf8_valid_step [OF utf8_seq_take_long [OF n 3]] ne pos 3 by simp
      also have "drop n (take k xs) = take (k - n) (drop n xs)"
        by (simp add: drop_take)
      also have "utf8_valid \<dots> \<longleftrightarrow> k - n = length (drop n xs) \<or> \<not> is_cont (drop n xs ! (k - n))"
        using "1.IH" [OF ne, of "k - n"] n v "1.prems"(2) by simp
      finally show ?thesis
        using 3 len "1.prems"(2) by auto
    qed
  qed
qed

end
