(* ===== verification/Varint.thy ===== *)
theory Varint
  imports Rust_Std
begin

text \<open>
  The byte-level primitives of \<^verbatim>\<open>crates/wtcore/src/h3.rs\<close>: QUIC variable-length integers, the
  mapping between WebTransport application codes and HTTP/3 codes, and the truncation of close
  reasons. The locale \<open>tlv_codec\<close> states what the frame and capsule parsers rely on
  (a self-delimiting integer code) and derives the round trip of type-length-value records;
  it is interpreted on \<open>put_varint\<close> and \<open>read_varint\<close>.
\<close>

section \<open>Error codes\<close>

definition WT_APP_ERROR_FIRST :: u64 where [wt_consts]: "WT_APP_ERROR_FIRST = 0x52e4a40fa8db"
definition WT_APP_ERROR_LAST :: u64 where [wt_consts]: "WT_APP_ERROR_LAST = 0x52e5ac983162"

definition webtransport_code_to_http_code :: "u64 \<Rightarrow> u64" where
  "webtransport_code_to_http_code n = WT_APP_ERROR_FIRST + n + n div 0x1e"

definition http_code_to_webtransport_code :: "u64 \<Rightarrow> u64 option" where
  "http_code_to_webtransport_code h =
     (if \<not> (WT_APP_ERROR_FIRST \<le> h \<and> h \<le> WT_APP_ERROR_LAST) then None
      else if (h - 0x21) mod 0x1f = 0 then None
      else let shifted = h - WT_APP_ERROR_FIRST in Some (shifted - shifted div 0x1f))"

lemma unat_to_http:
  assumes "unat n < 2 ^ 62"
  shows "unat (webtransport_code_to_http_code n) = 0x52e4a40fa8db + unat n + unat n div 30"
  using assms
  by (simp add: webtransport_code_to_http_code_def wt_consts unat_word_ariths unat_div)

lemma unat_http_parts:
  assumes "WT_APP_ERROR_FIRST \<le> h"
  shows "unat (h - WT_APP_ERROR_FIRST) = unat h - 0x52e4a40fa8db"
    and "unat ((h - 0x21) mod 0x1f) = (unat h - 0x21) mod 31"
    and "unat (h - WT_APP_ERROR_FIRST - (h - WT_APP_ERROR_FIRST) div 0x1f)
       = (unat h - 0x52e4a40fa8db) - (unat h - 0x52e4a40fa8db) div 31"
proof -
  show s: "unat (h - WT_APP_ERROR_FIRST) = unat h - 0x52e4a40fa8db"
    using assms by (simp add: unat_sub wt_consts)
  have "0x21 \<le> h" using assms by (simp add: wt_consts word_le_nat_alt)
  then show "unat ((h - 0x21) mod 0x1f) = (unat h - 0x21) mod 31"
    by (simp add: unat_mod unat_sub)
  have "(h - WT_APP_ERROR_FIRST) div 0x1f \<le> h - WT_APP_ERROR_FIRST"
    by (simp add: word_le_nat_alt unat_div)
  then show "unat (h - WT_APP_ERROR_FIRST - (h - WT_APP_ERROR_FIRST) div 0x1f)
       = (unat h - 0x52e4a40fa8db) - (unat h - 0x52e4a40fa8db) div 31"
    by (simp add: unat_sub unat_div s)
qed

lemma grease_arith: "(0x52e4a40fa8db + k - 0x21) mod 31 = 0 \<longleftrightarrow> k mod 31 = (30 :: nat)"
proof -
  have "(0x52e4a40fa8db + k - 0x21) mod 31 = (k + 1 + 2940063177767 * 31) mod 31" by simp
  also have "\<dots> = (k + 1) mod 31" by (rule mod_mult_self1)
  finally have e: "(0x52e4a40fa8db + k - 0x21) mod 31 = (k + 1) mod 31" .
  show ?thesis unfolding e by presburger
qed

lemma skip_arith: "S mod 31 \<noteq> 30 \<and> N = S - S div 31 \<longleftrightarrow> S = N + N div (30 :: nat)"
  (is "?l \<longleftrightarrow> ?r")
proof
  assume l: ?l
  obtain q r where S: "S = r + q * 31" "r < 31"
    using that [of "S mod 31" "S div 31"] by simp
  then have "S div 31 = q" "S mod 31 = r" by simp_all
  with l S have N: "N = r + q * 30" "r < 30" by simp_all
  then have "N div 30 = q" by simp
  then show ?r using S N by simp
next
  assume r: ?r
  obtain q m where N: "N = m + q * 30" "m < 30"
    using that [of "N mod 30" "N div 30"] by simp
  then have "N div 30 = q" by simp
  with r N have S: "S = m + q * 31" by simp
  then have "S div 31 = q" "S mod 31 = m" using N by simp_all
  then show ?l using N S by simp
qed

lemma skip_bound: "N + N div 30 \<le> 0x108888887 \<longleftrightarrow> N < (2 ^ 32 :: nat)"
  using div_le_mono [of N "2 ^ 32 - 1" 30] div_le_mono [of "2 ^ 32" N 30] by auto

lemma http_code_iff:
  "http_code_to_webtransport_code h = Some n \<longleftrightarrow>
     n < 2 ^ 32 \<and> unat h = 0x52e4a40fa8db + unat n + unat n div 30"
  (is "?l \<longleftrightarrow> ?r")
proof (cases "WT_APP_ERROR_FIRST \<le> h \<and> h \<le> WT_APP_ERROR_LAST")
  case True
  define S where "S = unat h - 0x52e4a40fa8db"
  have h: "unat h = 0x52e4a40fa8db + S" and S: "S \<le> 0x108888887"
    using True by (auto simp: S_def wt_consts word_le_nat_alt)
  note parts = unat_http_parts [OF True [THEN conjunct1]]
  have g: "(h - 0x21) mod 0x1f = 0 \<longleftrightarrow> S mod 31 = 30"
    using parts(2) grease_arith [of S] by (simp add: h unat_eq_zero [symmetric])
  have d: "h - WT_APP_ERROR_FIRST - (h - WT_APP_ERROR_FIRST) div 0x1f = n \<longleftrightarrow> unat n = S - S div 31"
    using parts(3) by (auto simp: word_unat_eq_iff S_def)
  have "?l \<longleftrightarrow> S mod 31 \<noteq> 30 \<and> unat n = S - S div 31"
    using True by (simp add: http_code_to_webtransport_code_def Let_def g d)
  also have "\<dots> \<longleftrightarrow> unat n < 2 ^ 32 \<and> S = unat n + unat n div 30"
    using S skip_bound [of "unat n"] by (auto simp: skip_arith)
  finally show ?thesis by (simp add: h word_less_nat_alt)
next
  case False
  have "\<not> ?r"
  proof
    assume r: ?r
    then have "unat n + unat n div 30 \<le> 0x108888887"
      by (simp add: word_less_nat_alt skip_bound)
    with r have "WT_APP_ERROR_FIRST \<le> h \<and> h \<le> WT_APP_ERROR_LAST"
      by (simp add: wt_consts word_le_nat_alt)
    with False show False by blast
  qed
  moreover from False have "\<not> ?l" by (simp add: http_code_to_webtransport_code_def)
  ultimately show ?thesis by blast
qed

section \<open>Close reasons\<close>

definition WT_MAX_CLOSE_REASON :: nat where [wt_consts]: "WT_MAX_CLOSE_REASON = 1024"

fun truncate_end :: "bytes \<Rightarrow> nat \<Rightarrow> nat" where
  "truncate_end reason 0 = 0"
| "truncate_end reason (Suc e) =
     (if reason ! Suc e AND 0xc0 = 0x80 then truncate_end reason e else Suc e)"

definition truncate_close_reason :: "bytes \<Rightarrow> bytes" where
  "truncate_close_reason reason =
     (if length reason \<le> WT_MAX_CLOSE_REASON then reason
      else take (truncate_end reason WT_MAX_CLOSE_REASON) reason)"

lemma truncate_end_le: "truncate_end r e \<le> e"
  by (induction e) (auto intro: le_SucI)

lemma truncate_end_stop: "truncate_end r e = 0 \<or> \<not> is_cont (r ! truncate_end r e)"
  by (induction e) (auto simp: is_cont_def)

lemma truncate_end_max: "k \<le> e \<Longrightarrow> truncate_end r e < k \<Longrightarrow> is_cont (r ! k)"
  by (induction e) (auto simp: is_cont_def le_Suc_eq split: if_splits)

lemma truncate_end_cases:
  assumes "utf8_valid r" and "WT_MAX_CLOSE_REASON < length r"
  shows "utf8_valid (take (truncate_end r WT_MAX_CLOSE_REASON) r)"
proof (cases "truncate_end r WT_MAX_CLOSE_REASON = 0")
  case False
  then have "\<not> is_cont (r ! truncate_end r WT_MAX_CLOSE_REASON)"
    using truncate_end_stop [of r WT_MAX_CLOSE_REASON] by simp
  moreover have "truncate_end r WT_MAX_CLOSE_REASON \<le> length r"
    using truncate_end_le [of r WT_MAX_CLOSE_REASON] assms(2) by simp
  ultimately show ?thesis
    using utf8_valid_take_iff [OF assms(1)] by blast
qed simp

section \<open>Variable-length integers\<close>

definition read_varint :: "bytes \<Rightarrow> (u64 \<times> nat) option" where
  "read_varint buf =
     (case buf of [] \<Rightarrow> None
      | first # _ \<Rightarrow>
         (let len = 2 ^ unat (drop_bit 6 first) in
          if length buf < len then None
          else Some (foldl (\<lambda>v b. push_bit 8 v OR ucast b) (ucast (first AND 0x3f))
                       (take (len - 1) (drop 1 buf)), len)))"

definition put_varint :: "u64 \<Rightarrow> bytes \<Rightarrow> bytes" where
  "put_varint v out =
     (if v < push_bit 6 1 then out @ [ucast v]
      else if v < push_bit 14 1 then
        out @ [0x40 OR ucast (drop_bit 8 v)] @ [ucast v]
      else if v < push_bit 30 1 then
        out @ [0x80 OR ucast (drop_bit 24 v)] @ [ucast (drop_bit 16 v)]
            @ [ucast (drop_bit 8 v)] @ [ucast v]
      else
        out @ [0xc0 OR ucast (drop_bit 56 v)]
            @ map (\<lambda>shift. ucast (drop_bit shift v)) [48, 40, 32, 24, 16, 8, 0])"

definition varint_len :: "u64 \<Rightarrow> nat" where
  "varint_len v =
     (if v < push_bit 6 1 then 1
      else if v < push_bit 14 1 then 2
      else if v < push_bit 30 1 then 4
      else 8)"

lemma put_varint_append: "put_varint v out = out @ put_varint v []"
  by (simp add: put_varint_def)

lemma length_put_varint [simp]: "length (put_varint v []) = varint_len v"
  by (simp add: put_varint_def varint_len_def)

lemma varint_len_pos [simp]: "0 < varint_len v" "varint_len v \<noteq> 0"
  by (simp_all add: varint_len_def)

lemma put_varint_ne [simp]: "put_varint v [] \<noteq> []"
  by (simp add: put_varint_def)

subsection \<open>Reading back what was written\<close>

lemma varint_tag0: "x < 64 \<longrightarrow> drop_bit 6 x = 0 \<and> x AND 0x3f = (x::u8)"
  by (rule u8_exhaust [of "\<lambda>x. x < 64 \<longrightarrow> drop_bit 6 x = 0 \<and> x AND 0x3f = x"]) code_simp

lemma varint_tag3: "drop_bit 6 (0xc0 OR x) = 3 \<and> (0xc0 OR x) AND 0x3f = x AND (0x3f::u8)"
  by (rule u8_exhaust [of "\<lambda>x. drop_bit 6 (0xc0 OR x) = 3 \<and> (0xc0 OR x) AND 0x3f = x AND (0x3f::u8)"]) code_simp

lemma varint_tag1: "x < 64 \<longrightarrow> drop_bit 6 (0x40 OR x) = 1 \<and> (0x40 OR x) AND 0x3f = (x::u8)"
  by (rule u8_exhaust [of "\<lambda>x. x < 64 \<longrightarrow> drop_bit 6 (0x40 OR x) = 1 \<and> (0x40 OR x) AND 0x3f = x"]) code_simp

lemma varint_tag2: "x < 64 \<longrightarrow> drop_bit 6 (0x80 OR x) = 2 \<and> (0x80 OR x) AND 0x3f = (x::u8)"
  by (rule u8_exhaust [of "\<lambda>x. x < 64 \<longrightarrow> drop_bit 6 (0x80 OR x) = 2 \<and> (0x80 OR x) AND 0x3f = x"]) code_simp

lemmas varint_tags = varint_tag0 [rule_format] varint_tag1 [rule_format] varint_tag2 [rule_format] varint_tag3


lemma ucast_mask_drop_56:
  "ucast (ucast (drop_bit 56 v) AND (0x3f :: u8)) = drop_bit 56 (take_bit 62 (v :: u64))"
proof -
  have "(0x3f :: u8) = mask 6" by (simp add: mask_eq_exp_minus_1)
  then show ?thesis
    by (simp only: take_bit_eq_mask [symmetric]) (rule bit_word_eqI, auto simp: bit_simps)
qed

lemma ucast_small:
  assumes "unat v < 2 ^ (n + 6)"
  shows "ucast (ucast (drop_bit n v) :: u8) = drop_bit n (v :: u64)"
    and "(ucast (drop_bit n v) :: u8) < 64"
proof -
  have "unat (drop_bit n v) = unat v div 2 ^ n"
    by (simp only: unat_drop_bit_eq) (simp add: drop_bit_eq_div)
  then have d: "unat (drop_bit n v) < 64"
    using assms by (simp add: power_add less_mult_imp_div_less mult.commute)
  then have u: "unat (ucast (drop_bit n v) :: u8) = unat (drop_bit n v)"
    by (simp add: unsigned_ucast_eq take_bit_nat_eq_self)
  with d show "(ucast (drop_bit n v) :: u8) < 64" by (simp add: word_less_nat_alt)
  have "unat (ucast (ucast (drop_bit n v) :: u8) :: u64) = unat (drop_bit n v)"
    using d by (simp add: unsigned_ucast_eq unsigned_take_bit_eq take_bit_nat_eq_self)
  then show "ucast (ucast (drop_bit n v) :: u8) = drop_bit n v"
    by (rule unsigned_word_eqI)
qed

text \<open>The low bytes of a 62-bit value do not depend on the two top bits.\<close>

lemma ucast_drop_take_62:
  "n \<le> 54 \<Longrightarrow> ucast (drop_bit n (take_bit 62 v)) = (ucast (drop_bit n (v :: u64)) :: u8)"
  by (rule bit_word_eqI) (auto simp: bit_simps)

lemma read_put_1: "unat v < 2 ^ 6 \<Longrightarrow> read_varint ((ucast v) # rest) = Some (v, 1)"
  using ucast_small [of v 0] varint_tags(1) [of "ucast v"]
  by (simp add: read_varint_def)

lemma read_put_2: "unat v < 2 ^ 14 \<Longrightarrow> read_varint ((0x40 OR ucast (drop_bit 8 v)) # ucast v # rest) = Some (v, 2)"
  using ucast_small [of v 8] varint_tags(2) [of "ucast (drop_bit 8 v)"] byte_shift_in [of 0 v]
  by (simp add: read_varint_def)

lemma read_put_4: "unat v < 2 ^ 30 \<Longrightarrow>
  read_varint ((0x80 OR ucast (drop_bit 24 v)) # ucast (drop_bit 16 v) # ucast (drop_bit 8 v) # ucast v # rest) = Some (v, 4)"
  using ucast_small [of v 24] varint_tags(3) [of "ucast (drop_bit 24 v)"]
    byte_shift_in [of 16 v] byte_shift_in [of 8 v] byte_shift_in [of 0 v]
  by (simp add: read_varint_def)

lemma read_put_8: 
  "read_varint ((0xc0 OR ucast (drop_bit 56 v)) # map (\<lambda>shift. ucast (drop_bit shift v)) [48, 40, 32, 24, 16, 8, 0] @ rest) = Some (take_bit 62 v, 8)"
  using varint_tags(4) [of "ucast (drop_bit 56 v)"] ucast_mask_drop_56 [of v]
    byte_shift_in [of 48 "take_bit 62 v"] byte_shift_in [of 40 "take_bit 62 v"] byte_shift_in [of 32 "take_bit 62 v"] 
    byte_shift_in [of 24 "take_bit 62 v"] byte_shift_in [of 16 "take_bit 62 v"] byte_shift_in [of 8 "take_bit 62 v"] byte_shift_in [of 0 "take_bit 62 v"]
     ucast_drop_take_62 [of 0 v]
  by (simp add: read_varint_def ucast_drop_take_62)

lemma take_bit_62_id:
  assumes "unat v < 2 ^ 62"
  shows "take_bit 62 v = (v :: u64)"
proof -
  have "unat (take_bit 62 v) = unat v"
    using assms by (simp add: unsigned_take_bit_eq take_bit_nat_eq_self)
  then show ?thesis by (rule unsigned_word_eqI)
qed

lemma read_put_any:
  "read_varint (put_varint v [] @ rest) = Some (take_bit 62 v, varint_len v)"
proof -
  consider "unat v < 2 ^ 6" | "\<not> unat v < 2 ^ 6" "unat v < 2 ^ 14"
    | "\<not> unat v < 2 ^ 14" "unat v < 2 ^ 30" | "\<not> unat v < 2 ^ 30"
    by linarith
  then show ?thesis
    using read_put_1 [of v rest] read_put_2 [of v rest] read_put_4 [of v rest] read_put_8 [of v rest]
      take_bit_62_id [of v]
    by cases (simp_all add: put_varint_def varint_len_def word_less_nat_alt)
qed

lemma read_put [simp]:
  "v < 2 ^ 62 \<Longrightarrow> read_varint (put_varint v [] @ rest) = Some (v, varint_len v)"
  by (simp add: read_put_any take_bit_62_id word_less_nat_alt)

lemma read_put_Nil [simp]: "v < 2 ^ 62 \<Longrightarrow> read_varint (put_varint v []) = Some (v, varint_len v)"
  using read_put [of v "[]"] by simp

subsection \<open>The reader on arbitrary input\<close>

lemma read_varint_Nil [simp]: "read_varint [] = None"
  by (simp add: read_varint_def)

lemma read_varint_len:
  assumes "read_varint buf = Some (v, n)"
  shows "0 < n" and "n \<le> length buf"
  using assms by (auto simp: read_varint_def Let_def split: list.splits if_splits)

lemma read_varint_append:
  "read_varint buf = Some (v, n) \<Longrightarrow> read_varint (buf @ more) = Some (v, n)"
  by (auto simp: read_varint_def Let_def split: list.splits if_splits)

lemma read_varint_take:
  assumes "read_varint buf = Some (v, n)" and "n \<le> k"
  shows "read_varint (take k buf) = Some (v, n)"
  using assms
  by (cases buf; cases k) (auto simp: read_varint_def Let_def min_def split: if_splits)

lemma read_varint_short:
  assumes "read_varint buf = Some (v, n)" and "k < n"
  shows "read_varint (take k buf) = None"
  using assms
  by (cases buf; cases k) (auto simp: read_varint_def Let_def split: if_splits)

lemma foldl_bytes_bound:
  fixes bs :: bytes
  assumes "unat v < 2 ^ m" and "m + 8 * length bs \<le> 64"
  shows "unat (foldl (\<lambda>v b. push_bit 8 v OR ucast b) (v :: u64) bs) < 2 ^ (m + 8 * length bs)"
  using assms
proof (induction bs arbitrary: v m)
  case (Cons b bs)
  have "push_bit 8 v OR ucast b = take_bit (m + 8) (push_bit 8 v OR ucast b)"
  proof (rule bit_word_eqI)
    fix k
    have v: "bit v j \<Longrightarrow> j < m" for j
      using Cons.prems(1) by (metis bit_take_bit_iff take_bit_nat_eq_self unsigned_take_bit_eq unsigned_word_eqI)
    show "bit (push_bit 8 v OR ucast b) k = bit (take_bit (m + 8) (push_bit 8 v OR ucast b)) k"
      using v [of "k - 8"] bit_imp_le_length [of b k] by (auto simp: bit_simps)
  qed
  then have "unat (push_bit 8 v OR ucast b) < 2 ^ (m + 8)"
    by (metis take_bit_nat_less_exp unsigned_take_bit_eq)
  from Cons.IH [OF this] Cons.prems(2) show ?case by (simp add: algebra_simps)
qed simp

lemma read_varint_bound:
  assumes "read_varint buf = Some (v, n)"
  shows "unat v < 2 ^ 62"
proof -
  obtain first rest where buf: "buf = first # rest"
    using assms by (cases buf) auto
  let ?len = "2 ^ unat (drop_bit 6 first) :: nat"
  have v: "v = foldl (\<lambda>v b. push_bit 8 v OR ucast b) (ucast (first AND 0x3f)) (take (?len - 1) rest)"
    using assms by (auto simp: buf read_varint_def Let_def split: if_splits)
  have c: "first AND 0x3f < 0x40 \<and> drop_bit 6 first < 4"
    by (rule u8_exhaust [of "\<lambda>x. x AND 0x3f < 0x40 \<and> drop_bit 6 x < 4"]) code_simp
  then have "unat (drop_bit 6 first) \<le> 3" by (simp add: word_less_nat_alt)
  then have "?len \<le> 2 ^ 3" by (rule power_increasing) simp
  then have l: "6 + 8 * length (take (?len - 1) rest) \<le> 62" by auto
  have "unat (ucast (first AND 0x3f) :: u64) < 2 ^ 6"
    using c by (simp add: word_less_nat_alt unsigned_ucast_eq take_bit_nat_eq_self)
  then have "unat v < 2 ^ (6 + 8 * length (take (?len - 1) rest))"
    unfolding v using l by (intro foldl_bytes_bound) auto
  also have "\<dots> \<le> 2 ^ 62" using l by (intro power_increasing) auto
  finally show ?thesis .
qed

section \<open>Type-length-value records\<close>

text \<open>
  What a parser of type-length-value records relies on: an integer code that is self-delimiting
  on the values it supports, total on longer input and silent on a truncated code word.
\<close>

locale tlv_codec =
  fixes put :: "u64 \<Rightarrow> bytes"
    and get :: "bytes \<Rightarrow> (u64 \<times> nat) option"
    and limit :: u64
  assumes get_put: "v < limit \<Longrightarrow> get (put v @ rest) = Some (v, length (put v))"
    and get_bounds: "get buf = Some (v, n) \<Longrightarrow> 0 < n \<and> n \<le> length buf"
    and get_append: "get buf = Some (v, n) \<Longrightarrow> get (buf @ more) = Some (v, n)"
    and get_truncated: "get buf = Some (v, n) \<Longrightarrow> k < n \<Longrightarrow> get (take k buf) = None"
begin

definition tlv :: "u64 \<Rightarrow> bytes \<Rightarrow> bytes" where
  "tlv ty payload = put ty @ put (of_nat (length payload)) @ payload"

definition split :: "bytes \<Rightarrow> (u64 \<times> bytes \<times> bytes) option" where
  "split buf =
     (case get buf of None \<Rightarrow> None
      | Some (ty, n1) \<Rightarrow>
         (case get (drop n1 buf) of None \<Rightarrow> None
          | Some (len, n2) \<Rightarrow>
             (if length buf < n1 + n2 + unat len then None
              else Some (ty, take (unat len) (drop (n1 + n2) buf), drop (n1 + n2 + unat len) buf))))"

lemma put_nonempty: "v < limit \<Longrightarrow> put v \<noteq> []"
  using get_put [of v "[]"] get_bounds by fastforce

lemma split_tlv:
  assumes "ty < limit" and "of_nat (length p) < limit" and "length p < 2 ^ 64"
  shows "split (tlv ty p @ rest) = Some (ty, p, rest)"
proof -
  have "unat (of_nat (length p) :: u64) = length p"
    using assms(3) by (simp add: unat_of_nat take_bit_nat_eq_self)
  then show ?thesis
    using get_put [OF assms(1), of "put (of_nat (length p)) @ p @ rest"] get_put [OF assms(2), of "p @ rest"]
    by (simp add: tlv_def split_def)
qed

lemma split_shorter: "split buf = Some (ty, p, rest) \<Longrightarrow> length rest < length buf"
  using get_bounds by (fastforce simp: split_def split: option.splits prod.splits if_splits)

lemma split_partition:
  assumes "split buf = Some (ty, p, rest)"
  obtains h where "buf = h @ p @ rest"
proof -
  from assms have "\<exists>n len. p = take len (drop n buf) \<and> rest = drop (n + len) buf"
    by (auto simp: split_def split: option.splits prod.splits if_splits)
  then obtain n len where eqs: "p = take len (drop n buf)" "rest = drop (n + len) buf" by blast
  have "buf = take n buf @ p @ rest"
    unfolding eqs by (metis append_take_drop_id drop_drop add.commute)
  then show ?thesis by (rule that)
qed

lemma split_append: "split buf = Some (ty, p, rest) \<Longrightarrow> split (buf @ more) = Some (ty, p, rest @ more)"
proof -
  assume s: "split buf = Some (ty, p, rest)"
  then obtain n1 len n2 where g: "get buf = Some (ty, n1)" "get (drop n1 buf) = Some (len, n2)"
    and le: "n1 + n2 + unat len \<le> length buf"
    and pr: "p = take (unat len) (drop (n1 + n2) buf)" "rest = drop (n1 + n2 + unat len) buf"
    by (auto simp: split_def split: option.splits prod.splits if_splits)
  have "n1 \<le> length buf" using get_bounds [OF g(1)] by simp
  then have "get (drop n1 (buf @ more)) = Some (len, n2)"
    using get_append [OF g(2)] by simp
  then show ?thesis
    using get_append [OF g(1)] le pr by (simp add: split_def)
qed

lemma split_truncated:
  assumes "ty < limit" and "of_nat (length p) < limit" and "length p < 2 ^ 64"
    and "k < length (tlv ty p)"
  shows "split (take k (tlv ty p)) = None"
proof (rule ccontr)
  assume "split (take k (tlv ty p)) \<noteq> None"
  then obtain t q r where "split (take k (tlv ty p)) = Some (t, q, r)" by auto
  from split_append [OF this, of "drop k (tlv ty p)"]
  have "split (tlv ty p) = Some (t, q, r @ drop k (tlv ty p))" by simp
  moreover have "split (tlv ty p) = Some (ty, p, [])"
    using split_tlv [OF assms(1-3), of "[]"] by simp
  ultimately show False using assms(4) by simp
qed

end

interpretation vi: tlv_codec "\<lambda>v. put_varint v []" read_varint "2 ^ 62"
proof
  show "read_varint (put_varint v [] @ rest) = Some (v, length (put_varint v []))" if "v < 2 ^ 62" for v rest
    using that by simp
  show "0 < n \<and> n \<le> length buf" if "read_varint buf = Some (v, n)" for buf v n
    using read_varint_len [OF that] by simp
  show "read_varint (buf @ more) = Some (v, n)" if "read_varint buf = Some (v, n)" for buf v n more
    using that by (rule read_varint_append)
  show "read_varint (take k buf) = None" if "read_varint buf = Some (v, n)" "k < n" for buf v n k
    using that by (rule read_varint_short)
qed

section \<open>Properties\<close>

text \<open>
  Claim C38. A variable-length integer reads back as written, whatever bytes follow it: the
  reader returns the value and exactly the number of bytes the writer emitted. A value of 62 bits
  or more loses its two top bits, which the length tag overwrites.
\<close>

theorem read_put_varint:
  "read_varint (put_varint v [] @ rest) = Some (take_bit 62 v, varint_len v)
   \<and> length (put_varint v []) = varint_len v"
  by (simp add: read_put_any)

text \<open>
  The reader is safe and incremental on arbitrary bytes: a result lies inside the
  buffer, is a 62-bit value, does not change when more bytes arrive, and no strict prefix of the
  bytes it consumed is accepted.
\<close>

theorem read_varint_incremental:
  assumes "read_varint buf = Some (v, n)"
  shows "0 < n \<and> n \<le> length buf \<and> unat v < 2 ^ 62
     \<and> read_varint (buf @ more) = Some (v, n)
     \<and> (k < n \<longrightarrow> read_varint (take k buf) = None)"
  using assms read_varint_len [OF assms] read_varint_bound [OF assms] read_varint_append [OF assms]
    read_varint_short [OF assms]
  by blast

theorem read_varint_incremental_witness:
  "read_varint [0x40, 0x54] = Some (0x54, 2) \<and> read_varint [0x40] = None"
proof -
  have "read_varint [0x40, 0x54] = Some (0x54, 2)" by code_simp
  from read_varint_incremental [OF this, where k = 1 and more = "[]"] this show ?thesis by simp
qed

text \<open>
  Every 32-bit WebTransport application code survives the trip through the HTTP/3
  error space: the mapped code lies in the reserved range, is no GREASE code point, and maps back
  to the code it came from.
\<close>

theorem wt_code_roundtrip:
  assumes "n < 2 ^ 32"
  shows "WT_APP_ERROR_FIRST \<le> webtransport_code_to_http_code n
    \<and> webtransport_code_to_http_code n \<le> WT_APP_ERROR_LAST
    \<and> (webtransport_code_to_http_code n - 0x21) mod 0x1f \<noteq> 0
    \<and> http_code_to_webtransport_code (webtransport_code_to_http_code n) = Some n"
proof -
  have "unat n < 2 ^ 62" using assms by (simp add: word_less_nat_alt)
  then have some: "http_code_to_webtransport_code (webtransport_code_to_http_code n) = Some n"
    using assms by (simp add: http_code_iff unat_to_http)
  then show ?thesis
    by (auto simp: http_code_to_webtransport_code_def split: if_splits)
qed

theorem wt_code_roundtrip_witness:
  "http_code_to_webtransport_code (webtransport_code_to_http_code 30) = Some 30"
  using wt_code_roundtrip [of 30] by simp

text \<open>
  Conversely the inverse mapping accepts exactly the mapped codes: whatever it returns
  is a 32-bit code whose image is the HTTP/3 code given, so it is injective and rejects every
  other code point.
\<close>

theorem http_code_inverse:
  assumes "http_code_to_webtransport_code h = Some n"
  shows "n < 2 ^ 32 \<and> webtransport_code_to_http_code n = h"
proof -
  from assms have n: "n < 2 ^ 32" and h: "unat h = 0x52e4a40fa8db + unat n + unat n div 30"
    by (simp_all add: http_code_iff)
  have "unat (webtransport_code_to_http_code n) = unat h"
    using n h by (simp add: unat_to_http word_less_nat_alt)
  then have "webtransport_code_to_http_code n = h" by (rule unsigned_word_eqI)
  with n show ?thesis by blast
qed

theorem http_code_inverse_witness:
  "http_code_to_webtransport_code 0x52e4a40fa8db = Some 0 \<and> webtransport_code_to_http_code 0 = 0x52e4a40fa8db"
proof -
  have "http_code_to_webtransport_code 0x52e4a40fa8db = Some 0" by code_simp
  from http_code_inverse [OF this] this show ?thesis by simp
qed

text \<open>
  A close reason is cut to the longest valid UTF-8 prefix of at most 1024 bytes: for a
  valid reason the result is a valid prefix within the limit, and no longer valid prefix within the
  limit exists.
\<close>

theorem truncate_close_reason_longest:
  assumes "utf8_valid r"
  shows "utf8_valid (truncate_close_reason r)
    \<and> length (truncate_close_reason r) \<le> WT_MAX_CLOSE_REASON
    \<and> truncate_close_reason r = take (length (truncate_close_reason r)) r
    \<and> (k \<le> WT_MAX_CLOSE_REASON \<and> k \<le> length r \<and> utf8_valid (take k r)
         \<longrightarrow> k \<le> length (truncate_close_reason r))"
proof (cases "length r \<le> WT_MAX_CLOSE_REASON")
  case True
  with assms show ?thesis by (simp add: truncate_close_reason_def)
next
  case False
  let ?e = "truncate_end r WT_MAX_CLOSE_REASON"
  have e: "?e \<le> WT_MAX_CLOSE_REASON" "?e \<le> length r"
    using truncate_end_le [of r WT_MAX_CLOSE_REASON] False by auto
  have "k \<le> ?e" if k: "k \<le> WT_MAX_CLOSE_REASON" "utf8_valid (take k r)"
  proof (rule ccontr)
    assume "\<not> k \<le> ?e"
    then have "is_cont (r ! k)" using truncate_end_max [of k WT_MAX_CLOSE_REASON r] k(1) by simp
    then show False using utf8_valid_take_iff [OF assms, of k] k False by auto
  qed
  with False e truncate_end_cases [OF assms] show ?thesis
    by (simp add: truncate_close_reason_def)
qed

theorem truncate_close_reason_longest_witness:
  "utf8_valid [0xE2, 0x82, 0xAC] \<and> truncate_close_reason [0xE2, 0x82, 0xAC] = [0xE2, 0x82, 0xAC]
   \<and> utf8_valid (truncate_close_reason [0xE2, 0x82, 0xAC])"
proof -
  have v: "utf8_valid [0xE2, 0x82, 0xAC]" by code_simp
  from truncate_close_reason_longest [OF v, of 0] v show ?thesis
    by (simp add: truncate_close_reason_def wt_consts)
qed

end
