(* ===== verification/H3.thy ===== *)
theory H3
  imports Varint
begin

text \<open>
  The HTTP/3 layer of \<^verbatim>\<open>crates/wtcore/src/h3.rs\<close>: protocol constants, frames, the SETTINGS
  codec, and the header lists of the Extended CONNECT exchange. Header compression
  (\<^verbatim>\<open>quiche::h3::qpack\<close>) and the structured-field parser (the \<^verbatim>\<open>sfv\<close> crate) are not part of the
  sources modelled here: they are the fields of the record \<open>env\<close>, an argument of the operations
  that call them.
\<close>

section \<open>Constants\<close>

definition H3_CONTROL_STREAM_TYPE :: u64 where [wt_consts]: "H3_CONTROL_STREAM_TYPE = 0x00"
definition QPACK_ENCODER_STREAM_TYPE :: u64 where [wt_consts]: "QPACK_ENCODER_STREAM_TYPE = 0x02"
definition QPACK_DECODER_STREAM_TYPE :: u64 where [wt_consts]: "QPACK_DECODER_STREAM_TYPE = 0x03"
definition FRAME_DATA :: u64 where [wt_consts]: "FRAME_DATA = 0x00"
definition FRAME_HEADERS :: u64 where [wt_consts]: "FRAME_HEADERS = 0x01"
definition FRAME_SETTINGS :: u64 where [wt_consts]: "FRAME_SETTINGS = 0x04"
definition FRAME_GOAWAY :: u64 where [wt_consts]: "FRAME_GOAWAY = 0x07"
definition H3_NO_ERROR :: u64 where [wt_consts]: "H3_NO_ERROR = 0x100"
definition SETTINGS_QPACK_MAX_TABLE_CAPACITY :: u64 where [wt_consts]: "SETTINGS_QPACK_MAX_TABLE_CAPACITY = 0x01"
definition SETTINGS_MAX_FIELD_SECTION_SIZE :: u64 where [wt_consts]: "SETTINGS_MAX_FIELD_SECTION_SIZE = 0x06"
definition SETTINGS_QPACK_BLOCKED_STREAMS :: u64 where [wt_consts]: "SETTINGS_QPACK_BLOCKED_STREAMS = 0x07"
definition SETTINGS_ENABLE_CONNECT_PROTOCOL :: u64 where [wt_consts]: "SETTINGS_ENABLE_CONNECT_PROTOCOL = 0x08"
definition SETTINGS_H3_DATAGRAM :: u64 where [wt_consts]: "SETTINGS_H3_DATAGRAM = 0x33"
definition SETTINGS_WT_MAX_SESSIONS :: u64 where [wt_consts]: "SETTINGS_WT_MAX_SESSIONS = 0x14e9cd29"
definition SETTINGS_ENABLE_WEBTRANSPORT :: u64 where [wt_consts]: "SETTINGS_ENABLE_WEBTRANSPORT = 0x2b603742"
definition SETTINGS_WT_INITIAL_MAX_DATA :: u64 where [wt_consts]: "SETTINGS_WT_INITIAL_MAX_DATA = 0x2b61"
definition SETTINGS_WT_INITIAL_MAX_STREAMS_UNI :: u64 where [wt_consts]: "SETTINGS_WT_INITIAL_MAX_STREAMS_UNI = 0x2b64"
definition SETTINGS_WT_INITIAL_MAX_STREAMS_BIDI :: u64 where [wt_consts]: "SETTINGS_WT_INITIAL_MAX_STREAMS_BIDI = 0x2b65"
definition WT_MAX_DATA_CAPSULE :: u64 where [wt_consts]: "WT_MAX_DATA_CAPSULE = 0x190b4d3d"
definition WT_MAX_STREAMS_BIDI_CAPSULE :: u64 where [wt_consts]: "WT_MAX_STREAMS_BIDI_CAPSULE = 0x190b4d3f"
definition WT_MAX_STREAMS_UNI_CAPSULE :: u64 where [wt_consts]: "WT_MAX_STREAMS_UNI_CAPSULE = 0x190b4d40"
definition WT_DATA_BLOCKED_CAPSULE :: u64 where [wt_consts]: "WT_DATA_BLOCKED_CAPSULE = 0x190b4d41"
definition WT_STREAMS_BLOCKED_BIDI_CAPSULE :: u64 where [wt_consts]: "WT_STREAMS_BLOCKED_BIDI_CAPSULE = 0x190b4d43"
definition WT_STREAMS_BLOCKED_UNI_CAPSULE :: u64 where [wt_consts]: "WT_STREAMS_BLOCKED_UNI_CAPSULE = 0x190b4d44"
definition WT_INITIAL_MAX_DATA :: u64 where [wt_consts]: "WT_INITIAL_MAX_DATA = 10 * 1024 * 1024"
definition WT_INITIAL_MAX_STREAMS :: u64 where [wt_consts]: "WT_INITIAL_MAX_STREAMS = 256"
definition WT_UNI_STREAM_TYPE :: u64 where [wt_consts]: "WT_UNI_STREAM_TYPE = 0x54"
definition WT_BIDI_FRAME_TYPE :: u64 where [wt_consts]: "WT_BIDI_FRAME_TYPE = 0x41"
definition WT_CLOSE_SESSION_CAPSULE :: u64 where [wt_consts]: "WT_CLOSE_SESSION_CAPSULE = 0x2843"
definition WT_DRAIN_SESSION_CAPSULE :: u64 where [wt_consts]: "WT_DRAIN_SESSION_CAPSULE = 0x78ae"
definition MAX_HEADER_BLOCK :: u64 where [wt_consts]: "MAX_HEADER_BLOCK = 64 * 1024"

section \<open>The environment\<close>

text \<open>An HTTP header: name and value bytes (\<^verbatim>\<open>quiche::h3::Header\<close>).\<close>

record header =
  hname :: bytes
  hvalue :: bytes

definition Header_new :: "bytes \<Rightarrow> bytes \<Rightarrow> header" where
  "Header_new n v = \<lparr>hname = n, hvalue = v\<rparr>"

text \<open>What the structured-field parser returns: the shape the code distinguishes.\<close>

datatype sf_bare = SfString string | SfOther
datatype sf_entry = SfItem sf_bare | SfInnerList

text \<open>
  The operations the sources call but do not define. \<open>e_alloc n\<close> is the capacity
  \<^verbatim>\<open>Vec::try_reserve_exact(n)\<close> obtains, or \<^const>\<open>None\<close> when the allocator refuses;
  \<open>e_qpack_encode\<close> and \<open>e_qpack_decode\<close> are the QPACK codec, an error being its rendering
  by \<^verbatim>\<open>{:?}\<close>; \<open>e_sf_item\<close> and \<open>e_sf_list\<close> are \<^verbatim>\<open>sfv::Parser\<close>; \<open>e_order\<close> is the order in
  which a hash map yields its keys.
\<close>

record env =
  e_alloc :: "nat \<Rightarrow> nat option"
  e_qpack_encode :: "header list \<Rightarrow> nat \<Rightarrow> string + bytes"
  e_qpack_decode :: "bytes \<Rightarrow> u64 \<Rightarrow> string + header list"
  e_sf_item :: "string \<Rightarrow> sf_bare option"
  e_sf_list :: "string \<Rightarrow> sf_entry list option"
  e_order :: "u64 list \<Rightarrow> u64 list"

section \<open>Frames\<close>

definition frame :: "u64 \<Rightarrow> bytes \<Rightarrow> bytes" where
  "frame ty payload =
     (let out = put_varint ty [];
          out = put_varint (of_nat (length payload)) out
      in out @ payload)"

lemma frame_tlv: "frame ty p = vi.tlv ty p"
  by (simp add: frame_def vi.tlv_def put_varint_append [of _ "put_varint ty []"])

section \<open>SETTINGS\<close>

definition settings_pairs :: "(u64 \<times> u64) list" where
  "settings_pairs =
     [(SETTINGS_QPACK_MAX_TABLE_CAPACITY, 0),
      (SETTINGS_QPACK_BLOCKED_STREAMS, 0),
      (SETTINGS_ENABLE_CONNECT_PROTOCOL, 1),
      (SETTINGS_H3_DATAGRAM, 1),
      (SETTINGS_ENABLE_WEBTRANSPORT, 1),
      (SETTINGS_WT_MAX_SESSIONS, 256),
      (SETTINGS_WT_INITIAL_MAX_DATA, WT_INITIAL_MAX_DATA),
      (SETTINGS_WT_INITIAL_MAX_STREAMS_BIDI, WT_INITIAL_MAX_STREAMS),
      (SETTINGS_WT_INITIAL_MAX_STREAMS_UNI, WT_INITIAL_MAX_STREAMS)]"

definition put_pairs :: "(u64 \<times> u64) list \<Rightarrow> bytes \<Rightarrow> bytes" where
  "put_pairs pairs p = foldl (\<lambda>p (ident, val). put_varint val (put_varint ident p)) p pairs"

definition settings_payload :: bytes where
  "settings_payload = put_pairs settings_pairs []"

definition control_stream_prefix :: bytes where
  "control_stream_prefix =
     (let out = put_varint H3_CONTROL_STREAM_TYPE [] in
      out @ frame FRAME_SETTINGS settings_payload)"

record peer_settings =
  enable_connect_protocol :: bool
  h3_datagram :: bool
  enable_webtransport :: bool
  wt_max_sessions :: u64
  wt_initial_max_data :: u64
  wt_initial_max_streams_bidi :: u64
  wt_initial_max_streams_uni :: u64

definition PeerSettings_default :: peer_settings where
  "PeerSettings_default =
     \<lparr>enable_connect_protocol = False, h3_datagram = False, enable_webtransport = False,
      wt_max_sessions = 0, wt_initial_max_data = 0,
      wt_initial_max_streams_bidi = 0, wt_initial_max_streams_uni = 0\<rparr>"

definition webtransport_ok :: "peer_settings \<Rightarrow> bool" where
  "webtransport_ok s \<longleftrightarrow>
     enable_connect_protocol s \<and> h3_datagram s \<and> (enable_webtransport s \<or> wt_max_sessions s > 0)"

definition apply_setting :: "u64 \<Rightarrow> u64 \<Rightarrow> peer_settings \<Rightarrow> peer_settings" where
  "apply_setting ident val s =
     (if ident = SETTINGS_ENABLE_CONNECT_PROTOCOL then s\<lparr>enable_connect_protocol := val \<noteq> 0\<rparr>
      else if ident = SETTINGS_H3_DATAGRAM then s\<lparr>h3_datagram := val \<noteq> 0\<rparr>
      else if ident = SETTINGS_ENABLE_WEBTRANSPORT then s\<lparr>enable_webtransport := val \<noteq> 0\<rparr>
      else if ident = SETTINGS_WT_MAX_SESSIONS then s\<lparr>wt_max_sessions := val\<rparr>
      else if ident = SETTINGS_WT_INITIAL_MAX_DATA then s\<lparr>wt_initial_max_data := val\<rparr>
      else if ident = SETTINGS_WT_INITIAL_MAX_STREAMS_BIDI then s\<lparr>wt_initial_max_streams_bidi := val\<rparr>
      else if ident = SETTINGS_WT_INITIAL_MAX_STREAMS_UNI then s\<lparr>wt_initial_max_streams_uni := val\<rparr>
      else s)"

function parse_settings_loop ::
  "u64 list \<Rightarrow> peer_settings \<Rightarrow> bytes \<Rightarrow> string + peer_settings" where
  "parse_settings_loop seen s payload =
     (if payload = [] then Inr s
      else case read_varint payload of
        None \<Rightarrow> Inl ''truncated SETTINGS identifier''
      | Some (ident, n1) \<Rightarrow>
         (case read_varint (drop n1 payload) of
            None \<Rightarrow> Inl ''truncated SETTINGS value''
          | Some (val, n2) \<Rightarrow>
             (if ident \<in> set seen \<or> (2 \<le> ident \<and> ident \<le> 5) then
                Inl ''duplicate or reserved SETTINGS identifier''
              else if ident \<in> {SETTINGS_ENABLE_CONNECT_PROTOCOL, SETTINGS_H3_DATAGRAM,
                           SETTINGS_ENABLE_WEBTRANSPORT} \<and> val > 1 then
                Inl ''invalid boolean SETTINGS value''
              else if ident \<in> {SETTINGS_WT_INITIAL_MAX_STREAMS_BIDI, SETTINGS_WT_INITIAL_MAX_STREAMS_UNI}
                     \<and> val > push_bit 60 1 then
                Inl ''invalid WebTransport stream limit''
              else parse_settings_loop (ident # seen) (apply_setting ident val s) (drop (n1 + n2) payload))))"
  by pat_completeness auto
termination
  by (relation "measure (\<lambda>(_, _, payload). length payload)") (auto dest!: read_varint_len(1))

declare parse_settings_loop.simps [simp del]

definition parse_settings :: "bytes \<Rightarrow> string + peer_settings" where
  "parse_settings payload = parse_settings_loop [] PeerSettings_default payload"

section \<open>Header lists\<close>

definition WT_AVAILABLE_PROTOCOLS :: bytes where
  "WT_AVAILABLE_PROTOCOLS = as_bytes ''wt-available-protocols''"

definition WT_PROTOCOL :: bytes where
  "WT_PROTOCOL = as_bytes ''wt-protocol''"

definition serialize_sf_string :: "string \<Rightarrow> string" where
  "serialize_sf_string s =
     [CHR 0x22]
     @ concat (map (\<lambda>c. if c = CHR 0x22 \<or> c = CHR 0x5C then [CHR 0x5C, c] else [c]) s)
     @ [CHR 0x22]"

definition serialize_sf_string_list :: "string list \<Rightarrow> string" where
  "serialize_sf_string_list items = join '', '' (map serialize_sf_string items)"

definition connect_headers ::
  "string \<Rightarrow> string \<Rightarrow> string option \<Rightarrow> (string \<times> string) list \<Rightarrow> string list \<Rightarrow> header list" where
  "connect_headers authority path origin extra protocols =
     [Header_new (as_bytes '':method'') (as_bytes ''CONNECT''),
      Header_new (as_bytes '':protocol'') (as_bytes ''webtransport''),
      Header_new (as_bytes '':scheme'') (as_bytes ''https''),
      Header_new (as_bytes '':authority'') (as_bytes authority),
      Header_new (as_bytes '':path'') (as_bytes path)]
     @ (case origin of None \<Rightarrow> [] | Some o' \<Rightarrow> [Header_new (as_bytes ''origin'') (as_bytes o')])
     @ (if protocols \<noteq> [] then
          [Header_new WT_AVAILABLE_PROTOCOLS (as_bytes (serialize_sf_string_list protocols))]
        else [])
     @ map (\<lambda>(k, v). Header_new (as_bytes k) (as_bytes v)) extra"

definition parse_sf_string_item :: "env \<Rightarrow> string \<Rightarrow> string option" where
  "parse_sf_string_item E value =
     (case e_sf_item E value of
        None \<Rightarrow> None
      | Some (SfString v) \<Rightarrow> Some v
      | Some SfOther \<Rightarrow> None)"

fun sf_entry_string :: "sf_entry \<Rightarrow> string option" where
  "sf_entry_string (SfItem (SfString v)) = Some v"
| "sf_entry_string (SfItem SfOther) = None"
| "sf_entry_string SfInnerList = None"

definition parse_sf_string_list :: "env \<Rightarrow> string \<Rightarrow> string list" where
  "parse_sf_string_list E value =
     (case e_sf_list E value of
        None \<Rightarrow> []
      | Some list \<Rightarrow>
         (let entries = map sf_entry_string list in
          if None \<in> set entries then [] else map the entries))"

definition header_value :: "header list \<Rightarrow> bytes \<Rightarrow> bytes option" where
  "header_value headers name = map_option hvalue (find (\<lambda>h. hname h = name) headers)"

definition wt_protocol_of :: "env \<Rightarrow> header list \<Rightarrow> string option" where
  "wt_protocol_of E headers =
     (case filter (\<lambda>h. hname h = WT_PROTOCOL) headers of
        [h] \<Rightarrow>
          (case from_utf8 (hvalue h) of
             None \<Rightarrow> None
           | Some v \<Rightarrow> parse_sf_string_item E (str_trim v))
      | _ \<Rightarrow> None)"

definition starts_with :: "bytes \<Rightarrow> bytes \<Rightarrow> bool" where
  "starts_with xs p \<longleftrightarrow> take (length p) xs = p"

definition response_headers :: "header list \<Rightarrow> (string \<times> string) list" where
  "response_headers headers =
     List.map_filter
       (\<lambda>h. case from_utf8 (hname h) of None \<Rightarrow> None
            | Some n \<Rightarrow> (case from_utf8 (hvalue h) of None \<Rightarrow> None | Some v \<Rightarrow> Some (n, v)))
       (filter (\<lambda>h. \<not> starts_with (hname h) (as_bytes '':'')) headers)"

definition encode_headers_frame :: "env \<Rightarrow> header list \<Rightarrow> string + bytes" where
  "encode_headers_frame E headers =
     (let cap = sum_list (map (\<lambda>h. length (hname h) + length (hvalue h) + 8) headers) + 16 in
      case e_qpack_encode E headers cap of
        Inl e \<Rightarrow> Inl (''qpack encode: '' @ e)
      | Inr block \<Rightarrow> Inr (frame FRAME_HEADERS block))"

definition decode_header_block :: "env \<Rightarrow> bytes \<Rightarrow> string + header list" where
  "decode_header_block E block =
     (case e_qpack_decode E block MAX_HEADER_BLOCK of
        Inl e \<Rightarrow> Inl (''qpack decode: '' @ e)
      | Inr headers \<Rightarrow> Inr headers)"

fun status_of :: "header list \<Rightarrow> u16 option" where
  "status_of [] = None"
| "status_of (h # hs) =
     (if hname h = as_bytes '':status'' then
        (case from_utf8 (hvalue h) of None \<Rightarrow> None | Some v \<Rightarrow> parse_u16 (str_trim v))
      else status_of hs)"

section \<open>What SETTINGS parsing accepts\<close>

text \<open>The specification: a payload is a sequence of identifier and value pairs, each admissible.\<close>

function settings_decode :: "bytes \<Rightarrow> (u64 \<times> u64) list option" where
  "settings_decode payload =
     (if payload = [] then Some []
      else case read_varint payload of
        None \<Rightarrow> None
      | Some (ident, n1) \<Rightarrow>
         (case read_varint (drop n1 payload) of
            None \<Rightarrow> None
          | Some (val, n2) \<Rightarrow> map_option ((#) (ident, val)) (settings_decode (drop (n1 + n2) payload))))"
  by pat_completeness auto
termination
  by (relation "measure length") (auto dest!: read_varint_len(1))

declare settings_decode.simps [simp del]

definition setting_ok :: "u64 \<times> u64 \<Rightarrow> bool" where
  "setting_ok p \<longleftrightarrow>
     \<not> (2 \<le> fst p \<and> fst p \<le> 5) \<and>
     (fst p \<in> {SETTINGS_ENABLE_CONNECT_PROTOCOL, SETTINGS_H3_DATAGRAM, SETTINGS_ENABLE_WEBTRANSPORT}
        \<longrightarrow> snd p \<le> 1) \<and>
     (fst p \<in> {SETTINGS_WT_INITIAL_MAX_STREAMS_BIDI, SETTINGS_WT_INITIAL_MAX_STREAMS_UNI}
        \<longrightarrow> snd p \<le> push_bit 60 1)"

definition apply_settings :: "(u64 \<times> u64) list \<Rightarrow> peer_settings \<Rightarrow> peer_settings" where
  "apply_settings ps s = fold (\<lambda>(ident, val). apply_setting ident val) ps s"

lemma apply_settings_Cons [simp]:
  "apply_settings (p # ps) s = apply_settings ps (apply_setting (fst p) (snd p) s)"
  by (simp add: apply_settings_def case_prod_beta)

lemma apply_settings_Nil [simp]: "apply_settings [] s = s"
  by (simp add: apply_settings_def)

lemma parse_settings_loop_iff:
  "parse_settings_loop seen s payload = Inr r \<longleftrightarrow>
     (\<exists>ps. settings_decode payload = Some ps \<and> distinct (map fst ps) \<and> set (map fst ps) \<inter> set seen = {}
        \<and> list_all setting_ok ps \<and> r = apply_settings ps s)"
proof (induction seen s payload rule: parse_settings_loop.induct)
  case (1 seen s payload)
  show ?case
  proof (cases "payload = []")
    case True
    then show ?thesis
      by (auto simp: parse_settings_loop.simps [of seen s] settings_decode.simps [of "[]"])
  next
    case ne: False
    show ?thesis
    proof (cases "read_varint payload")
      case None
      with ne show ?thesis
        by (simp add: parse_settings_loop.simps [of seen s payload] settings_decode.simps [of payload])
    next
      case (Some in1)
      then obtain ident n1 where r1: "read_varint payload = Some (ident, n1)" by (cases in1) auto
      show ?thesis
      proof (cases "read_varint (drop n1 payload)")
        case None
        with ne r1 show ?thesis
          by (simp add: parse_settings_loop.simps [of seen s payload] settings_decode.simps [of payload])
      next
        case (Some vn2)
        then obtain val n2 where r2: "read_varint (drop n1 payload) = Some (val, n2)" by (cases vn2) auto
        have dec: "settings_decode payload
            = map_option ((#) (ident, val)) (settings_decode (drop (n1 + n2) payload))"
          using ne r1 r2 by (simp add: settings_decode.simps [of payload])
        show ?thesis
        proof (cases "ident \<in> set seen \<or> \<not> setting_ok (ident, val)")
          case True
          then have "\<exists>m. parse_settings_loop seen s payload = Inl m"
            using ne r1 r2
            by (simp add: parse_settings_loop.simps [of seen s payload] setting_ok_def not_le) blast
          with True show ?thesis by (auto simp: dec)
        next
          case False
          then have loop: "parse_settings_loop seen s payload
              = parse_settings_loop (ident # seen) (apply_setting ident val s) (drop (n1 + n2) payload)"
            using ne r1 r2
            by (auto simp: parse_settings_loop.simps [of seen s payload] setting_ok_def not_le)
          from False have acc: "\<not> (ident \<in> set seen \<or> 2 \<le> ident \<and> ident \<le> 5)"
              "\<not> (ident \<in> {SETTINGS_ENABLE_CONNECT_PROTOCOL, SETTINGS_H3_DATAGRAM,
                 SETTINGS_ENABLE_WEBTRANSPORT} \<and> val > 1)"
              "\<not> (ident \<in> {SETTINGS_WT_INITIAL_MAX_STREAMS_BIDI, SETTINGS_WT_INITIAL_MAX_STREAMS_UNI}
                 \<and> val > push_bit 60 1)"
            by (auto simp: setting_ok_def not_le)
          note IH = "1.IH" [OF ne r1 refl r2 refl acc]
          show ?thesis
            unfolding loop IH using False by (auto simp: dec)
        qed
      qed
    qed
  qed
qed

lemma put_pairs_Cons:
  "put_pairs ((i, v) # ps) [] = put_varint i [] @ put_varint v [] @ put_pairs ps []"
proof -
  have "put_pairs ps p = p @ put_pairs ps []" for ps p
  proof (induction ps arbitrary: p)
    case (Cons q ps)
    obtain i v where q: "q = (i, v)" by (cases q)
    have "put_pairs (q # ps) p' = put_pairs ps (p' @ put_varint i [] @ put_varint v [])" for p'
      using put_varint_append [of i p'] put_varint_append [of v "put_varint i p'"]
      by (simp add: put_pairs_def q)
    then have "put_pairs (q # ps) p' = p' @ (put_varint i [] @ put_varint v []) @ put_pairs ps []" for p'
      using Cons.IH [of "p' @ put_varint i [] @ put_varint v []"] by simp
    then show ?case by simp
  qed (simp add: put_pairs_def)
  from this [of ps "put_varint v (put_varint i [])"] show ?thesis
    using put_varint_append [of v "put_varint i []"] by (simp add: put_pairs_def)
qed

lemma settings_decode_put_pairs:
  "list_all (\<lambda>(i, v). i < 2 ^ 62 \<and> v < 2 ^ 62) ps \<Longrightarrow> settings_decode (put_pairs ps []) = Some ps"
proof (induction ps)
  case Nil
  then show ?case by (simp add: put_pairs_def settings_decode.simps)
next
  case (Cons p ps)
  obtain i v where p: "p = (i, v)" by (cases p)
  with Cons show ?case
    by (subst settings_decode.simps) (simp add: put_pairs_Cons)
qed

section \<open>Structured-field strings\<close>

text \<open>
  The string production of RFC 9651 (section 4.2.5), the format the peer's parser reads: after
  the opening quote, printable ASCII characters, with a backslash before a quote or a backslash.
\<close>

fun sf_string_body :: "string \<Rightarrow> (string \<times> string) option" where
  "sf_string_body [] = None"
| "sf_string_body (c # cs) =
     (if c = CHR 0x5C then
        (case cs of [] \<Rightarrow> None
         | d # ds \<Rightarrow> if d = CHR 0x22 \<or> d = CHR 0x5C
                    then map_option (apfst ((#) d)) (sf_string_body ds) else None)
      else if c = CHR 0x22 then Some ([], cs)
      else if 0x20 \<le> (of_char c :: nat) \<and> (of_char c :: nat) \<le> 0x7E
      then map_option (apfst ((#) c)) (sf_string_body cs) else None)"

definition sf_string :: "string \<Rightarrow> (string \<times> string) option" where
  "sf_string s = (case s of [] \<Rightarrow> None | c # cs \<Rightarrow> if c = CHR 0x22 then sf_string_body cs else None)"

definition sf_printable :: "string \<Rightarrow> bool" where
  "sf_printable s = list_all (\<lambda>c. 0x20 \<le> (of_char c :: nat) \<and> (of_char c :: nat) \<le> 0x7E) s"

section \<open>Properties\<close>

text \<open>
  Claim C36. SETTINGS parsing is exact: a payload is accepted if and only if it is a sequence of
  complete identifier and value pairs with no identifier repeated or reserved (0x2 to 0x5), the
  boolean settings at most 1 and the stream limits at most \<open>2^60\<close>; the result is then the
  settings applied in order. Every truncated, duplicate, reserved or out-of-range payload is an
  error, and unknown identifiers are ignored.
\<close>

theorem parse_settings_exact:
  "parse_settings payload = Inr r \<longleftrightarrow>
     (\<exists>ps. settings_decode payload = Some ps \<and> distinct (map fst ps) \<and> list_all setting_ok ps
        \<and> r = apply_settings ps PeerSettings_default)"
  by (simp add: parse_settings_def parse_settings_loop_iff)

text \<open>
  Encoding then parsing a list of settings gives their effect, for any list of
  admissible pairs with distinct identifiers that fit a variable-length integer.
\<close>

theorem settings_roundtrip:
  assumes "list_all (\<lambda>(i, v). i < 2 ^ 62 \<and> v < 2 ^ 62) ps" and "distinct (map fst ps)"
    and "list_all setting_ok ps"
  shows "parse_settings (put_pairs ps []) = Inr (apply_settings ps PeerSettings_default)"
  using assms by (simp add: parse_settings_def parse_settings_loop_iff settings_decode_put_pairs)

theorem settings_roundtrip_witness:
  "parse_settings settings_payload
     = Inr \<lparr>enable_connect_protocol = True, h3_datagram = True, enable_webtransport = True,
            wt_max_sessions = 256, wt_initial_max_data = WT_INITIAL_MAX_DATA,
            wt_initial_max_streams_bidi = 256, wt_initial_max_streams_uni = 256\<rparr>"
proof -
  have "list_all (\<lambda>(i, v). i < 2 ^ 62 \<and> v < 2 ^ 62) settings_pairs" by code_simp
  moreover have "distinct (map fst settings_pairs)" by code_simp
  moreover have "list_all setting_ok settings_pairs" by code_simp
  ultimately have "parse_settings settings_payload = Inr (apply_settings settings_pairs PeerSettings_default)"
    unfolding settings_payload_def by (rule settings_roundtrip)
  then show ?thesis
    by (simp add: settings_pairs_def apply_setting_def PeerSettings_default_def wt_consts)
qed

text \<open>
  Claim C37. A subprotocol token of printable ASCII serializes to a structured-field string that
  RFC 9651's grammar reads back as the token, stopping exactly at the closing quote.
\<close>

theorem serialize_sf_string_roundtrip:
  assumes "sf_printable s"
  shows "sf_string (serialize_sf_string s @ rest) = Some (s, rest)"
proof -
  have "sf_string_body
      (concat (map (\<lambda>c. if c = CHR 0x22 \<or> c = CHR 0x5C then [CHR 0x5C, c] else [c]) s) @ CHR 0x22 # rest)
      = Some (s, rest)"
    using assms by (induction s) (auto simp: sf_printable_def)
  then show ?thesis by (simp add: serialize_sf_string_def sf_string_def)
qed

theorem serialize_sf_string_roundtrip_witness:
  "sf_printable [CHR ''a'', CHR 0x22, CHR 0x5C]
   \<and> sf_string (serialize_sf_string [CHR ''a'', CHR 0x22, CHR 0x5C]) = Some ([CHR ''a'', CHR 0x22, CHR 0x5C], [])"
proof -
  have p: "sf_printable [CHR ''a'', CHR 0x22, CHR 0x5C]" by code_simp
  from serialize_sf_string_roundtrip [OF p, of "[]"] p show ?thesis by simp
qed

end
