(* ===== verification/Parser_Memory.thy ===== *)
theory Parser_Memory
  imports H3
begin

text \<open>
  \<^verbatim>\<open>crates/native/src/parser_memory.rs\<close>: the byte budget shared by the receive parsers of a
  connection and, through the parent budget, of a whole server. A budget is a chain of counters,
  each with its limit. The Rust counters are atomics behind an \<^verbatim>\<open>Arc\<close>, but only the driver
  thread touches them, so the model passes the chain along as a value.

  The locale \<open>memory_budget\<close> is the contract the buffers rely on: a reservation is refused without
  a trace or recorded exactly, at every level of the chain. It is interpreted on \<open>reserve\<close> and
  \<open>release\<close>.
\<close>

section \<open>The budget\<close>

datatype parser_memory =
  ParserMemory (pm_limit: nat) (pm_used: nat) (pm_parent: "parser_memory option")

definition ParserMemory_new :: "nat \<Rightarrow> parser_memory" where
  "ParserMemory_new limit = ParserMemory limit 0 None"

definition ParserMemory_child :: "parser_memory \<Rightarrow> nat \<Rightarrow> parser_memory" where
  "ParserMemory_child parent limit = ParserMemory limit 0 (Some parent)"

text \<open>\<^verbatim>\<open>AtomicUsize::fetch_sub\<close> wraps around.\<close>

definition fetch_sub :: "nat \<Rightarrow> nat \<Rightarrow> nat" where
  "fetch_sub used n = (if n \<le> used then used - n else used + (usize_max + 1) - n)"

fun reserve :: "parser_memory \<Rightarrow> nat \<Rightarrow> bool \<times> parser_memory" where
  "reserve (ParserMemory limit used None) n =
     (if used + n \<le> usize_max \<and> used + n \<le> limit
      then (True, ParserMemory limit (used + n) None)
      else (False, ParserMemory limit used None))"
| "reserve (ParserMemory limit used (Some parent)) n =
     (if used + n \<le> usize_max \<and> used + n \<le> limit
      then (case reserve parent n of
              (True, parent') \<Rightarrow> (True, ParserMemory limit (used + n) (Some parent'))
            | (False, parent') \<Rightarrow>
                (False, ParserMemory limit (fetch_sub (used + n) n) (Some parent')))
      else (False, ParserMemory limit used (Some parent)))"

fun release :: "parser_memory \<Rightarrow> nat \<Rightarrow> parser_memory" where
  "release (ParserMemory limit used None) n = ParserMemory limit (fetch_sub used n) None"
| "release (ParserMemory limit used (Some parent)) n =
     ParserMemory limit (fetch_sub used n) (Some (release parent n))"

text \<open>
  Well-formedness: every counter is within its limit, and a parent counts at least what its child
  does. \<open>pm_frame\<close> is what an operation of one buffer leaves alone: the limits, and what the other
  children of each parent hold.
\<close>

fun pm_ok :: "parser_memory \<Rightarrow> bool" where
  "pm_ok (ParserMemory limit used None) \<longleftrightarrow> used \<le> limit \<and> limit \<le> usize_max"
| "pm_ok (ParserMemory limit used (Some parent)) \<longleftrightarrow>
     used \<le> limit \<and> limit \<le> usize_max \<and> used \<le> pm_used parent \<and> pm_ok parent"

fun pm_frame :: "parser_memory \<Rightarrow> (nat \<times> nat) list" where
  "pm_frame (ParserMemory limit used None) = [(limit, 0)]"
| "pm_frame (ParserMemory limit used (Some parent)) = (limit, pm_used parent - used) # pm_frame parent"

section \<open>The contract of a budget\<close>

locale memory_budget =
  fixes reserve :: "'m \<Rightarrow> nat \<Rightarrow> bool \<times> 'm"
    and release :: "'m \<Rightarrow> nat \<Rightarrow> 'm"
    and used :: "'m \<Rightarrow> nat"
    and frame_of :: "'m \<Rightarrow> 'f"
    and ok :: "'m \<Rightarrow> bool"
  assumes reserve_taken: "ok m \<Longrightarrow> reserve m n = (True, m') \<Longrightarrow>
      ok m' \<and> used m' = used m + n \<and> frame_of m' = frame_of m"
    and reserve_refused: "ok m \<Longrightarrow> reserve m n = (False, m') \<Longrightarrow> m' = m"
    and release_given: "ok m \<Longrightarrow> n \<le> used m \<Longrightarrow>
      ok (release m n) \<and> used (release m n) = used m - n \<and> frame_of (release m n) = frame_of m"
    and release_reserve: "ok m \<Longrightarrow> reserve m n = (True, m') \<Longrightarrow> release m' n = m"
begin

text \<open>
  Growing an allocation of \<open>old\<close> bytes to at least \<open>c\<close>: reserve the replacement before
  allocating it, account for the excess the allocator hands out, then give the old one back.
\<close>

definition grow :: "(nat \<Rightarrow> nat option) \<Rightarrow> 'm \<Rightarrow> nat \<Rightarrow> nat \<Rightarrow> nat option \<times> 'm" where
  "grow alloc m old c =
     (case reserve m c of
        (False, m1) \<Rightarrow> (None, m1)
      | (True, m1) \<Rightarrow>
         (case alloc c of
            None \<Rightarrow> (None, release m1 c)
          | Some cap \<Rightarrow>
             (if cap - c \<noteq> 0 then
                (case reserve m1 (cap - c) of
                   (False, m2) \<Rightarrow> (None, release m2 c)
                 | (True, m2) \<Rightarrow> (Some cap, release m2 old))
              else (Some cap, release m1 old))))"

lemma grow_refused:
  assumes "ok m" and "grow alloc m old c = (None, m')"
  shows "m' = m"
proof -
  obtain b m1 where r: "reserve m c = (b, m1)" by (cases "reserve m c")
  show ?thesis
  proof (cases b)
    case False
    with r assms reserve_refused [OF assms(1)] show ?thesis by (simp add: grow_def)
  next
    case True
    with r have m1: "ok m1" "release m1 c = m"
      using reserve_taken [OF assms(1)] release_reserve [OF assms(1)] by auto
    show ?thesis
    proof (cases "alloc c")
      case None
      with r True m1 assms(2) show ?thesis by (simp add: grow_def)
    next
      case (Some cap)
      obtain b2 m2 where r2: "reserve m1 (cap - c) = (b2, m2)" by (cases "reserve m1 (cap - c)")
      with r True Some m1 assms(2) reserve_refused [OF m1(1)] show ?thesis
        by (cases b2) (auto simp: grow_def split: if_splits)
    qed
  qed
qed

lemma grow_taken:
  assumes "ok m" and "old \<le> used m" and "alloc c = Some cap \<Longrightarrow> c \<le> cap"
    and "grow alloc m old c = (Some cap, m')"
  shows "ok m' \<and> used m' + old = used m + cap \<and> frame_of m' = frame_of m \<and> c \<le> cap
    \<and> alloc c = Some cap"
proof -
  obtain m1 where r: "reserve m c = (True, m1)" and al: "alloc c = Some cap"
    using assms(4) by (auto simp: grow_def split: prod.splits bool.splits option.splits if_splits)
  note t1 = reserve_taken [OF assms(1) r]
  have le: "c \<le> cap" using assms(3) al by simp
  show ?thesis
  proof (cases "cap - c = 0")
    case True
    then have "m' = release m1 old" using r al assms(4) by (simp add: grow_def)
    moreover have "old \<le> used m1" using assms(2) t1 by simp
    ultimately show ?thesis
      using release_given [of m1 old] t1 True le assms(2,4) r al by (simp add: grow_def)
  next
    case False
    then obtain m2 where r2: "reserve m1 (cap - c) = (True, m2)" and m': "m' = release m2 old"
      using r al assms(4) by (auto simp: grow_def split: prod.splits bool.splits if_splits)
    note t2 = reserve_taken [OF _ r2]
    have "old \<le> used m2" using assms(2) t1 t2 by simp
    then show ?thesis
      using release_given [of m2 old] t1 t2 m' le assms(2,4) r al r2 False by (simp add: grow_def)
  qed
qed

end

lemma fetch_sub_le [simp]: "n \<le> u \<Longrightarrow> fetch_sub u n = u - n"
  by (simp add: fetch_sub_def)

lemma reserve_used: "reserve m n = (True, m') \<Longrightarrow> pm_used m' = pm_used m + n"
  by (induction m n rule: reserve.induct) (auto split: if_splits prod.splits bool.splits)

lemma release_used: "n \<le> pm_used m \<Longrightarrow> pm_used (release m n) = pm_used m - n"
  by (cases "(m, n)" rule: release.cases) auto

lemma reserve_taken:
  "pm_ok m \<Longrightarrow> reserve m n = (True, m') \<Longrightarrow> pm_ok m' \<and> pm_frame m' = pm_frame m"
  by (induction m n arbitrary: m' rule: reserve.induct)
    (auto split: if_splits prod.splits bool.splits dest: reserve_used)

lemma reserve_refused: "reserve m n = (False, m') \<Longrightarrow> m' = m"
  by (induction m n arbitrary: m' rule: reserve.induct) (auto split: if_splits prod.splits bool.splits)

lemma release_given:
  "pm_ok m \<Longrightarrow> n \<le> pm_used m \<Longrightarrow> pm_ok (release m n) \<and> pm_frame (release m n) = pm_frame m"
  by (induction m n rule: release.induct) (auto simp: release_used)

lemma release_reserve: "reserve m n = (True, m') \<Longrightarrow> release m' n = m"
  by (induction m n arbitrary: m' rule: reserve.induct) (auto split: if_splits prod.splits bool.splits)

interpretation pmb: memory_budget reserve release pm_used pm_frame pm_ok
proof
  show "pm_ok m' \<and> pm_used m' = pm_used m + n \<and> pm_frame m' = pm_frame m"
    if "pm_ok m" "reserve m n = (True, m')" for m n m'
    using reserve_taken [OF that] reserve_used [OF that(2)] by simp
  show "m' = m" if "pm_ok m" "reserve m n = (False, m')" for m n m'
    using reserve_refused [OF that(2)] .
  show "pm_ok (release m n) \<and> pm_used (release m n) = pm_used m - n \<and> pm_frame (release m n) = pm_frame m"
    if "pm_ok m" "n \<le> pm_used m" for m n
    using release_given [OF that] release_used [OF that(2)] by simp
  show "release m' n = m" if "pm_ok m" "reserve m n = (True, m')" for m n m'
    using release_reserve [OF that(2)] .
qed

section \<open>Buffers\<close>

text \<open>
  A \<^verbatim>\<open>ParserBuffer\<close> is its bytes and the capacity of its allocation; the budget it shares is
  passed beside it. \<^verbatim>\<open>usize::checked_next_power_of_two\<close> fails above \<open>2^63\<close>.
\<close>

record parser_buffer =
  pb_data :: bytes
  pb_cap :: nat

definition ParserBuffer_new :: parser_buffer where
  "ParserBuffer_new = \<lparr>pb_data = [], pb_cap = 0\<rparr>"

function pow2_from :: "nat \<Rightarrow> nat \<Rightarrow> nat" where
  "pow2_from p n = (if p = 0 \<or> n \<le> p then p else pow2_from (2 * p) n)"
  by pat_completeness auto
termination
  by (relation "measure (\<lambda>(p, n). n - p)") auto

declare pow2_from.simps [simp del]

definition checked_next_power_of_two :: "nat \<Rightarrow> nat option" where
  "checked_next_power_of_two n = (if n \<le> 2 ^ 63 then Some (pow2_from 1 n) else None)"

definition buffer_clear :: "parser_memory \<Rightarrow> parser_buffer \<Rightarrow> parser_memory \<times> parser_buffer" where
  "buffer_clear m b = (release m (pb_cap b), ParserBuffer_new)"

text \<open>\<^verbatim>\<open>Drop for ParserBuffer\<close> clears the buffer, and nothing of it is left.\<close>

definition buffer_drop :: "parser_memory \<Rightarrow> parser_buffer \<Rightarrow> parser_memory" where
  "buffer_drop m b = fst (buffer_clear m b)"

definition extend_from_slice ::
  "(nat \<Rightarrow> nat option) \<Rightarrow> parser_memory \<Rightarrow> parser_buffer \<Rightarrow> bytes
    \<Rightarrow> bool \<times> parser_memory \<times> parser_buffer" where
  "extend_from_slice alloc m b bs =
     (let needed = length (pb_data b) + length bs in
      if usize_max < needed then (False, m, b)
      else if pb_cap b < needed then
        (case checked_next_power_of_two needed of
           None \<Rightarrow> (False, m, b)
         | Some capacity \<Rightarrow>
            (case reserve m capacity of
               (False, m1) \<Rightarrow> (False, m1, b)
             | (True, m1) \<Rightarrow>
                (case alloc capacity of
                   None \<Rightarrow> (False, release m1 capacity, b)
                 | Some cap \<Rightarrow>
                    (let extra = cap - capacity in
                     if extra \<noteq> 0 then
                       (case reserve m1 extra of
                          (False, m2) \<Rightarrow> (False, release m2 capacity, b)
                        | (True, m2) \<Rightarrow>
                            (True, release m2 (pb_cap b), \<lparr>pb_data = pb_data b @ bs, pb_cap = cap\<rparr>))
                     else (True, release m1 (pb_cap b), \<lparr>pb_data = pb_data b @ bs, pb_cap = cap\<rparr>)))))
      else (True, m, b\<lparr>pb_data := pb_data b @ bs\<rparr>))"

definition buffer_consume ::
  "parser_memory \<Rightarrow> parser_buffer \<Rightarrow> nat \<Rightarrow> parser_memory \<times> parser_buffer" where
  "buffer_consume m b n =
     (if n = length (pb_data b) then buffer_clear m b
      else (m, b\<lparr>pb_data := drop n (pb_data b)\<rparr>))"

definition copy_range ::
  "(nat \<Rightarrow> nat option) \<Rightarrow> parser_memory \<Rightarrow> parser_buffer \<Rightarrow> nat \<Rightarrow> nat
    \<Rightarrow> parser_buffer option \<times> parser_memory" where
  "copy_range alloc m b lo hi =
     (case extend_from_slice alloc m ParserBuffer_new (drop lo (take hi (pb_data b))) of
        (True, m1, copy) \<Rightarrow> (Some copy, m1)
      | (False, m1, copy) \<Rightarrow> (None, buffer_drop m1 copy))"

text \<open>What \<^verbatim>\<open>try_reserve_exact\<close> guarantees: at least the requested capacity.\<close>

definition alloc_ok :: "(nat \<Rightarrow> nat option) \<Rightarrow> bool" where
  "alloc_ok alloc \<longleftrightarrow> (\<forall>n c. alloc n = Some c \<longrightarrow> n \<le> c)"

text \<open>A buffer's bytes lie within its allocation, as in every \<^verbatim>\<open>Vec\<close>.\<close>

definition pb_ok :: "parser_buffer \<Rightarrow> bool" where
  "pb_ok b \<longleftrightarrow> length (pb_data b) \<le> pb_cap b"

lemma pb_ok_new [simp]: "pb_ok ParserBuffer_new"
  by (simp add: pb_ok_def ParserBuffer_new_def)

lemma pow2_from_ge: "0 < p \<Longrightarrow> n \<le> pow2_from p n"
  by (induction p n rule: pow2_from.induct) (auto simp: pow2_from.simps)

lemma checked_next_power_of_two_ge: "checked_next_power_of_two n = Some c \<Longrightarrow> n \<le> c"
  by (auto simp: checked_next_power_of_two_def pow2_from_ge split: if_splits)

lemma extend_from_slice_grow:
  "extend_from_slice alloc m b bs =
     (let needed = length (pb_data b) + length bs in
      if usize_max < needed then (False, m, b)
      else if pb_cap b < needed then
        (case checked_next_power_of_two needed of
           None \<Rightarrow> (False, m, b)
         | Some c \<Rightarrow>
            (case pmb.grow alloc m (pb_cap b) c of
               (None, m') \<Rightarrow> (False, m', b)
             | (Some cap, m') \<Rightarrow> (True, m', \<lparr>pb_data = pb_data b @ bs, pb_cap = cap\<rparr>)))
      else (True, m, b\<lparr>pb_data := pb_data b @ bs\<rparr>))"
  by (simp add: extend_from_slice_def pmb.grow_def Let_def split: option.split prod.split bool.split)

lemma extend_from_slice_fails:
  "pm_ok m \<Longrightarrow> extend_from_slice alloc m b bs = (False, m', b') \<Longrightarrow> m' = m \<and> b' = b"
  by (auto simp: extend_from_slice_grow Let_def dest: pmb.grow_refused split: if_splits option.splits prod.splits)

lemma extend_from_slice_works:
  assumes "pm_ok m" and "alloc_ok alloc" and "pb_cap b \<le> pm_used m" and "pb_ok b"
    and "extend_from_slice alloc m b bs = (True, m', b')"
  shows "pm_ok m' \<and> pm_used m' + pb_cap b = pm_used m + pb_cap b' \<and> pm_frame m' = pm_frame m
    \<and> pb_data b' = pb_data b @ bs \<and> pb_ok b'"
proof (cases "pb_cap b < length (pb_data b) + length bs")
  case False
  with assms(1,5) show ?thesis by (auto simp: extend_from_slice_grow pb_ok_def Let_def split: if_splits)
next
  case True
  with assms(5) obtain c cap where c: "checked_next_power_of_two (length (pb_data b) + length bs) = Some c"
    and g: "pmb.grow alloc m (pb_cap b) c = (Some cap, m')"
    and b': "b' = \<lparr>pb_data = pb_data b @ bs, pb_cap = cap\<rparr>"
    by (auto simp: extend_from_slice_grow Let_def split: if_splits option.splits prod.splits)
  from pmb.grow_taken [OF assms(1,3) _ g] assms(2) checked_next_power_of_two_ge [OF c] b'
  show ?thesis by (auto simp: alloc_ok_def pb_ok_def)
qed

lemma buffer_drop_release [simp]: "buffer_drop m b = release m (pb_cap b)"
  by (simp add: buffer_drop_def buffer_clear_def)

lemma release_0 [simp]: "release m 0 = m"
  by (induction m "0 :: nat" rule: release.induct) auto

lemma copy_range_fails:
  "pm_ok m \<Longrightarrow> copy_range alloc m b lo hi = (None, m') \<Longrightarrow> m' = m"
  by (auto simp: copy_range_def ParserBuffer_new_def split: prod.splits bool.splits
      dest!: extend_from_slice_fails)

lemma copy_range_works:
  assumes "pm_ok m" and "alloc_ok alloc" and "copy_range alloc m b lo hi = (Some c, m')"
  shows "pm_ok m' \<and> pm_used m' = pm_used m + pb_cap c \<and> pm_frame m' = pm_frame m
    \<and> pb_data c = drop lo (take hi (pb_data b)) \<and> pb_ok c"
proof -
  have "extend_from_slice alloc m ParserBuffer_new (drop lo (take hi (pb_data b))) = (True, m', c)"
    using assms(3) by (auto simp: copy_range_def split: prod.splits bool.splits)
  from extend_from_slice_works [OF assms(1,2) _ _ this] show ?thesis
    by (simp add: ParserBuffer_new_def pb_ok_new [unfolded ParserBuffer_new_def])
qed

section \<open>Properties\<close>

fun pm_fits :: "parser_memory \<Rightarrow> nat \<Rightarrow> bool" where
  "pm_fits (ParserMemory limit used None) n \<longleftrightarrow> used + n \<le> limit"
| "pm_fits (ParserMemory limit used (Some parent)) n \<longleftrightarrow> used + n \<le> limit \<and> pm_fits parent n"

lemma reserve_iff_fits: "pm_ok m \<Longrightarrow> fst (reserve m n) \<longleftrightarrow> pm_fits m n"
  by (induction m n rule: reserve.induct) (auto split: prod.splits bool.splits)

text \<open>
  A reservation is all or nothing along the whole chain of budgets: it succeeds exactly
  when the bytes fit under the limit of every level, it then adds them to every counter and keeps
  each counter within its limit; when it is refused (at any level) every counter is as before. So
  neither a session nor the server ever exceeds its parser-memory limit.
\<close>

theorem reserve_all_or_nothing:
  assumes "pm_ok m"
  shows "(fst (reserve m n) \<longleftrightarrow> pm_fits m n)
    \<and> (fst (reserve m n) \<longrightarrow> pm_ok (snd (reserve m n)) \<and> pm_used (snd (reserve m n)) = pm_used m + n
         \<and> pm_frame (snd (reserve m n)) = pm_frame m)
    \<and> (\<not> fst (reserve m n) \<longrightarrow> snd (reserve m n) = m)"
  using assms reserve_iff_fits [OF assms, of n] pmb.reserve_taken [OF assms, of n "snd (reserve m n)"]
    reserve_refused [of m n "snd (reserve m n)"]
  by (cases "reserve m n") auto

theorem reserve_all_or_nothing_witness:
  "reserve (ParserMemory 64 10 (Some (ParserMemory 128 100 None))) 40
     = (False, ParserMemory 64 10 (Some (ParserMemory 128 100 None)))
   \<and> fst (reserve (ParserMemory 64 10 (Some (ParserMemory 128 100 None))) 28)"
proof -
  let ?m = "ParserMemory 64 10 (Some (ParserMemory 128 100 None))"
  have ok: "pm_ok ?m" by (simp add: usize_max_def)
  show ?thesis
    using reserve_all_or_nothing [OF ok, of 40] reserve_all_or_nothing [OF ok, of 28]
    by (simp add: prod_eq_iff)
qed

text \<open>
  Claim C35. Appending to a parser buffer either appends exactly the bytes and charges exactly the
  change of the allocation's capacity to every budget of the chain, or refuses and leaves both the
  buffer and the budgets as they were, whichever of the checks, reservations or allocations failed.
\<close>

theorem extend_from_slice_exact:
  assumes "pm_ok m" and "alloc_ok alloc" and "pb_cap b \<le> pm_used m" and "pb_ok b"
    and "extend_from_slice alloc m b bs = (done, m', b')"
  shows "if done
     then pb_data b' = pb_data b @ bs \<and> pb_ok b' \<and> pm_ok m'
        \<and> pm_used m' + pb_cap b = pm_used m + pb_cap b' \<and> pm_frame m' = pm_frame m
     else m' = m \<and> b' = b"
  using extend_from_slice_works [OF assms(1-4)] extend_from_slice_fails [OF assms(1)] assms(5)
  by (cases "done") auto

theorem extend_from_slice_exact_witness:
  "extend_from_slice Some (ParserMemory_new 100) ParserBuffer_new [1, 2, 3]
     = (True, ParserMemory 100 4 None, \<lparr>pb_data = [1, 2, 3], pb_cap = 4\<rparr>)
   \<and> pm_ok (ParserMemory 100 4 None)"
proof -
  have e: "extend_from_slice Some (ParserMemory_new 100) ParserBuffer_new [1, 2, 3]
     = (True, ParserMemory 100 4 None, \<lparr>pb_data = [1, 2, 3], pb_cap = 4\<rparr>)"
    by (simp add: extend_from_slice_def ParserMemory_new_def ParserBuffer_new_def
        checked_next_power_of_two_def pow2_from.simps usize_max_def)
  have ok: "pm_ok (ParserMemory_new 100)" by (simp add: ParserMemory_new_def usize_max_def)
  have al: "alloc_ok Some" by (simp add: alloc_ok_def)
  have "pm_ok (ParserMemory 100 4 None)"
    using extend_from_slice_exact [OF ok al _ pb_ok_new e] by (simp add: ParserBuffer_new_def)
  with e show ?thesis by simp
qed

end
