(* ===== verification/Session_Types.thy ===== *)
theory Session_Types
  imports Parser_Memory
begin

text \<open>
  The data of \<^verbatim>\<open>crates/native/src/session.rs\<close>: the events a session reports, streams with their
  roles and queues, the HTTP/3 frame parser, and the session itself with its two constructors.
  The QUIC connection (the \<^verbatim>\<open>quiche\<close> crate) is a parameter: a state of type \<open>'c\<close> and the record
  \<open>quic\<close> of the operations the sources call on it.
\<close>

section \<open>Constants\<close>

definition CONNECT_ID :: u64 where [wt_consts]: "CONNECT_ID = 0"
definition CLIENT_CONTROL_ID :: u64 where [wt_consts]: "CLIENT_CONTROL_ID = 2"
definition CLIENT_QPACK_ENC_ID :: u64 where [wt_consts]: "CLIENT_QPACK_ENC_ID = 6"
definition CLIENT_QPACK_DEC_ID :: u64 where [wt_consts]: "CLIENT_QPACK_DEC_ID = 10"
definition CLIENT_FIRST_WT_BIDI_ID :: u64 where [wt_consts]: "CLIENT_FIRST_WT_BIDI_ID = 4"
definition CLIENT_FIRST_WT_UNI_ID :: u64 where [wt_consts]: "CLIENT_FIRST_WT_UNI_ID = 14"
definition SERVER_CONTROL_ID :: u64 where [wt_consts]: "SERVER_CONTROL_ID = 3"
definition SERVER_QPACK_ENC_ID :: u64 where [wt_consts]: "SERVER_QPACK_ENC_ID = 7"
definition SERVER_QPACK_DEC_ID :: u64 where [wt_consts]: "SERVER_QPACK_DEC_ID = 11"
definition SERVER_FIRST_WT_BIDI_ID :: u64 where [wt_consts]: "SERVER_FIRST_WT_BIDI_ID = 1"
definition SERVER_FIRST_WT_UNI_ID :: u64 where [wt_consts]: "SERVER_FIRST_WT_UNI_ID = 15"
definition MAX_CONTROL_FRAME :: nat where [wt_consts]: "MAX_CONTROL_FRAME = 1048576"
definition MAX_SESSION_PARSER_MEMORY :: nat where [wt_consts]: "MAX_SESSION_PARSER_MEMORY = 8 * 1024 * 1024"
definition WT_GRANT_MAX_DATA :: u64 where [wt_consts]: "WT_GRANT_MAX_DATA = push_bit 34 1"
definition WT_GRANT_MAX_STREAMS :: u64 where [wt_consts]: "WT_GRANT_MAX_STREAMS = push_bit 20 1"

section \<open>Events\<close>

text \<open>
  What \<^verbatim>\<open>Connection::stats\<close> and \<^verbatim>\<open>Connection::path_stats\<close> report; a path is its round-trip time, its
  minimum if there is one, and its variation, in nanoseconds. \<open>EvStats\<close> carries the durations as they
  are: their conversion to floating-point milliseconds is left out.
\<close>

record conn_stats =
  cs_sent_bytes :: u64
  cs_recv_bytes :: u64
  cs_sent :: u64
  cs_recv :: u64
  cs_lost :: u64
  cs_paths :: "(nat \<times> nat option \<times> nat) list"

datatype ev =
    EvReady "string option" "(string \<times> string) list"
  | EvDraining
  | EvServerReady string string "string option" "(string \<times> string) list" "string list" "string option"
      string u16
  | EvClosed u32 bytes bool
  | EvError string
  | EvDatagram bytes
  | EvIncomingStream u64 bool
  | EvStreamData u64 bytes
  | EvStreamFinished u64
  | EvStreamReset u64 u64
  | EvStreamStopSending u64 u64
  | EvStreamOpened u64 u64
  | EvWriteAck u64
  | EvDatagramAck u64 bool
  | EvStats u64 u64 u64 u64 u64 u64 nat nat nat
  | EvKeyingMaterial u64 "bytes option"

section \<open>The QUIC connection\<close>

datatype qerr = QDone | QStreamLimit | QStreamReset u64 | QStreamStopped u64 | QOther
datatype shutdown = ShutRead | ShutWrite

text \<open>
  \<open>q_stream_recv c id n\<close> is \<^verbatim>\<open>Connection::stream_recv\<close> with a buffer of \<open>n\<close> bytes: the bytes
  written to it and the end-of-stream flag. The other fields have the names of the methods they
  stand for; a method whose result the sources discard returns only the new connection.
\<close>

record 'c quic =
  q_stream_recv :: "'c \<Rightarrow> u64 \<Rightarrow> nat \<Rightarrow> (qerr + bytes \<times> bool) \<times> 'c"
  q_stream_recv_final_size :: "'c \<Rightarrow> u64 \<Rightarrow> u64 option"
  q_stream_send :: "'c \<Rightarrow> u64 \<Rightarrow> bytes \<Rightarrow> bool \<Rightarrow> (qerr + nat) \<times> 'c"
  q_stream_send_final_size :: "'c \<Rightarrow> u64 \<Rightarrow> u64 option"
  q_stream_shutdown :: "'c \<Rightarrow> u64 \<Rightarrow> shutdown \<Rightarrow> u64 \<Rightarrow> 'c"
  q_close :: "'c \<Rightarrow> bool \<Rightarrow> u64 \<Rightarrow> bytes \<Rightarrow> 'c"
  q_dgram_recv :: "'c \<Rightarrow> nat \<Rightarrow> (qerr + bytes) \<times> 'c"
  q_dgram_send :: "'c \<Rightarrow> bytes \<Rightarrow> (qerr + unit) \<times> 'c"
  q_dgram_max_writable_len :: "'c \<Rightarrow> nat option"
  q_export_keying_material :: "'c \<Rightarrow> nat \<Rightarrow> bytes \<Rightarrow> bytes \<Rightarrow> bytes option \<times> 'c"
  q_stats :: "'c \<Rightarrow> conn_stats"
  q_is_established :: "'c \<Rightarrow> bool"
  q_is_closed :: "'c \<Rightarrow> bool"
  q_is_timed_out :: "'c \<Rightarrow> bool"
  q_readable :: "'c \<Rightarrow> u64 list"
  q_on_timeout :: "'c \<Rightarrow> 'c"
  q_peer_error :: "'c \<Rightarrow> (bool \<times> u64 \<times> bytes) option"
  q_local_error :: "'c \<Rightarrow> (bool \<times> u64 \<times> bytes) option"

definition build_stats :: "'c quic \<Rightarrow> 'c \<Rightarrow> u64 \<Rightarrow> ev" where
  "build_stats Q c request_id =
     (let s = q_stats Q c;
          (rtt, min_rtt, rttvar) =
            (case cs_paths s of
               (rtt, min_rtt, rttvar) # _ \<Rightarrow> (rtt, (case min_rtt of Some m \<Rightarrow> m | None \<Rightarrow> rtt), rttvar)
             | [] \<Rightarrow> (0, 0, 0))
      in EvStats request_id (cs_sent_bytes s) (cs_recv_bytes s) (cs_sent s) (cs_recv s) (cs_lost s)
           rtt rttvar min_rtt)"

definition build_keying_material ::
  "'c quic \<Rightarrow> 'c \<Rightarrow> u64 \<Rightarrow> bytes \<Rightarrow> bytes \<Rightarrow> u32 \<Rightarrow> ev \<times> 'c" where
  "build_keying_material Q c request_id label context' len =
     (if \<not> (1 \<le> len \<and> len \<le> 4096) then (EvKeyingMaterial request_id None, c)
      else case q_export_keying_material Q c (unat len) label context' of
        (Some out, c') \<Rightarrow> (EvKeyingMaterial request_id (Some out), c')
      | (None, c') \<Rightarrow> (EvKeyingMaterial request_id None, c'))"

section \<open>Streams\<close>

record out_chunk =
  oc_data :: bytes
  oc_off :: nat
  oc_request_id :: "u64 option"

datatype role =
    LocalControlPlane
  | Connect
  | PeerControl
  | Ignored
  | PeerQpack bool
  | WtData bool
  | PendingUni
  | PendingBidi

fun is_wt_data :: "role \<Rightarrow> bool" where
  "is_wt_data (WtData bidi) = True"
| "is_wt_data _ = False"

text \<open>The incremental HTTP/3 frame reassembler. The budget is passed beside it.\<close>

record frame_parser =
  fp_buf :: parser_buffer
  fp_error :: bool

definition FrameParser_new :: frame_parser where
  "FrameParser_new = \<lparr>fp_buf = ParserBuffer_new, fp_error = False\<rparr>"

definition push_bytes ::
  "(nat \<Rightarrow> nat option) \<Rightarrow> parser_memory \<Rightarrow> frame_parser \<Rightarrow> bytes \<Rightarrow> parser_memory \<times> frame_parser" where
  "push_bytes alloc m fp data =
     (if fp_error fp then (m, fp)
      else case extend_from_slice alloc m (fp_buf fp) data of
        (True, m', b') \<Rightarrow> (m', fp\<lparr>fp_buf := b'\<rparr>)
      | (False, m', b') \<Rightarrow> (m', fp\<lparr>fp_buf := b', fp_error := True\<rparr>))"

definition next_frame ::
  "(nat \<Rightarrow> nat option) \<Rightarrow> parser_memory \<Rightarrow> frame_parser
    \<Rightarrow> (u64 \<times> parser_buffer) option \<times> parser_memory \<times> frame_parser" where
  "next_frame alloc m fp =
     (if fp_error fp then (None, m, fp)
      else case read_varint (pb_data (fp_buf fp)) of
        None \<Rightarrow> (None, m, fp)
      | Some (ty, n1) \<Rightarrow>
         (case read_varint (drop n1 (pb_data (fp_buf fp))) of
            None \<Rightarrow> (None, m, fp)
          | Some (len, n2) \<Rightarrow>
             (if len > of_nat MAX_CONTROL_FRAME then (None, m, fp\<lparr>fp_error := True\<rparr>)
              else
                (let header = n1 + n2; total = header + unat len in
                 if length (pb_data (fp_buf fp)) < total then (None, m, fp)
                 else case copy_range alloc m (fp_buf fp) header total of
                   (None, m1) \<Rightarrow> (None, m1, fp\<lparr>fp_error := True\<rparr>)
                 | (Some payload, m1) \<Rightarrow>
                    (case buffer_consume m1 (fp_buf fp) total of
                       (m2, b2) \<Rightarrow> (Some (ty, payload), m2, fp\<lparr>fp_buf := b2\<rparr>))))))"

record stream =
  st_role :: role
  st_class_buf :: parser_buffer
  st_frames :: frame_parser
  st_headers_done :: bool
  st_paused :: bool
  st_out :: "out_chunk list"
  st_fin_queued :: bool
  st_fin_sent :: bool
  st_recv_dead :: bool
  st_recv_payload :: u64
  st_recv_prefix :: u64
  st_send_payload :: u64
  st_send_prefix :: u64

definition Stream_new :: "role \<Rightarrow> stream" where
  "Stream_new r =
     \<lparr>st_role = r, st_class_buf = ParserBuffer_new, st_frames = FrameParser_new,
      st_headers_done = False, st_paused = False, st_out = [], st_fin_queued = False,
      st_fin_sent = False, st_recv_dead = False, st_recv_payload = 0, st_recv_prefix = 0,
      st_send_payload = 0, st_send_prefix = 0\<rparr>"

definition push_chunk :: "bytes \<Rightarrow> u64 option \<Rightarrow> stream \<Rightarrow> stream" where
  "push_chunk data rid st =
     st\<lparr>st_out := st_out st @ [\<lparr>oc_data = data, oc_off = 0, oc_request_id = rid\<rparr>]\<rparr>"

definition with_prefix :: "role \<Rightarrow> bytes \<Rightarrow> stream" where
  "with_prefix r prefix =
     (let s = Stream_new r;
          s = (if is_wt_data r then s\<lparr>st_send_prefix := of_nat (length prefix)\<rparr> else s)
      in if prefix \<noteq> [] then push_chunk prefix None s else s)"

text \<open>Dropping a stream drops its two buffers, in the order of the fields.\<close>

definition drop_stream :: "parser_memory \<Rightarrow> stream \<Rightarrow> parser_memory" where
  "drop_stream m st = buffer_drop (buffer_drop m (st_class_buf st)) (fp_buf (st_frames st))"

section \<open>The session\<close>

record close_req =
  cr_code :: u32
  cr_reason :: bytes
  cr_capsule_queued :: bool

text \<open>
  The two-element arrays indexed by \<^verbatim>\<open>usize::from(bidi)\<close> are functions of \<open>bidi\<close>. A socket
  address is its rendered IP address and its port.
\<close>

record wt_session =
  s_is_server :: bool
  s_authority :: string
  s_path :: string
  s_origin :: "string option"
  s_extra_headers :: "(string \<times> string) list"
  s_protocols :: "string list"
  s_supported_protocols :: "string list"
  s_allowed_origins :: "string list option"
  s_response_headers :: "(string \<times> string) list"
  s_next_bidi :: u64
  s_next_uni :: u64
  s_pending_opens :: "(bool \<times> u64) list"
  s_setup_sent :: bool
  s_ready :: bool
  s_closed :: bool
  s_connect_pending :: bool
  s_drain_emitted :: bool
  s_drain_sent :: bool
  s_fc_credit_granted :: bool
  s_fc_max_data_remote :: u64
  s_fc_max_streams_bidi_remote :: u64
  s_fc_max_streams_uni_remote :: u64
  s_fc_data_sent :: u64
  s_fc_data_received :: u64
  s_fc_max_data_local :: u64
  s_fc_max_streams_local :: "bool \<Rightarrow> u64"
  s_fc_streams_received :: "bool \<Rightarrow> u64"
  s_terminal_error :: "(u64 \<times> bytes) option"
  s_data_blocked_at :: "u64 option"
  s_streams_bidi_blocked_at :: "u64 option"
  s_streams_uni_blocked_at :: "u64 option"
  s_capsule_buf :: parser_buffer
  s_parser_memory :: parser_memory
  s_peer_settings :: "peer_settings option"
  s_streams :: "(u64 \<times> stream) list"
  s_close_req :: "close_req option"
  s_want_quic_close :: "(u32 \<times> bytes) option"
  s_close_deferred_once :: bool
  s_quic_close_issued :: bool
  s_remote_addr :: "(string \<times> u16) option"

definition new_client ::
  "string \<Rightarrow> string \<Rightarrow> string option \<Rightarrow> (string \<times> string) list \<Rightarrow> string list \<Rightarrow> wt_session" where
  "new_client authority path origin extra_headers protocols =
     \<lparr>s_is_server = False, s_authority = authority, s_path = path, s_origin = origin,
      s_extra_headers = extra_headers, s_protocols = protocols, s_supported_protocols = [],
      s_allowed_origins = None, s_response_headers = [],
      s_next_bidi = CLIENT_FIRST_WT_BIDI_ID, s_next_uni = CLIENT_FIRST_WT_UNI_ID,
      s_pending_opens = [], s_setup_sent = False, s_ready = False, s_closed = False,
      s_connect_pending = False, s_drain_emitted = False, s_drain_sent = False,
      s_fc_credit_granted = False, s_fc_max_data_remote = 0, s_fc_max_streams_bidi_remote = 0,
      s_fc_max_streams_uni_remote = 0, s_fc_data_sent = 0, s_fc_data_received = 0,
      s_fc_max_data_local = WT_INITIAL_MAX_DATA,
      s_fc_max_streams_local = (\<lambda>_. WT_INITIAL_MAX_STREAMS), s_fc_streams_received = (\<lambda>_. 0),
      s_terminal_error = None, s_data_blocked_at = None, s_streams_bidi_blocked_at = None,
      s_streams_uni_blocked_at = None, s_capsule_buf = ParserBuffer_new,
      s_parser_memory = ParserMemory_new MAX_SESSION_PARSER_MEMORY,
      s_peer_settings = None, s_streams = [], s_close_req = None, s_want_quic_close = None,
      s_close_deferred_once = False, s_quic_close_issued = False, s_remote_addr = None\<rparr>"

definition new_server ::
  "string \<times> u16 \<Rightarrow> string list \<Rightarrow> string list option \<Rightarrow> (string \<times> string) list \<Rightarrow> parser_memory
    \<Rightarrow> wt_session" where
  "new_server remote supported_protocols allowed_origins resp_headers parser_memory =
     \<lparr>s_is_server = True, s_authority = [], s_path = [], s_origin = None,
      s_extra_headers = [], s_protocols = [], s_supported_protocols = supported_protocols,
      s_allowed_origins = allowed_origins, s_response_headers = resp_headers,
      s_next_bidi = SERVER_FIRST_WT_BIDI_ID, s_next_uni = SERVER_FIRST_WT_UNI_ID,
      s_pending_opens = [], s_setup_sent = False, s_ready = False, s_closed = False,
      s_connect_pending = False, s_drain_emitted = False, s_drain_sent = False,
      s_fc_credit_granted = False, s_fc_max_data_remote = 0, s_fc_max_streams_bidi_remote = 0,
      s_fc_max_streams_uni_remote = 0, s_fc_data_sent = 0, s_fc_data_received = 0,
      s_fc_max_data_local = WT_INITIAL_MAX_DATA,
      s_fc_max_streams_local = (\<lambda>_. WT_INITIAL_MAX_STREAMS), s_fc_streams_received = (\<lambda>_. 0),
      s_terminal_error = None, s_data_blocked_at = None, s_streams_bidi_blocked_at = None,
      s_streams_uni_blocked_at = None, s_capsule_buf = ParserBuffer_new,
      s_parser_memory = ParserMemory_child parser_memory MAX_SESSION_PARSER_MEMORY,
      s_peer_settings = None, s_streams = [], s_close_req = None, s_want_quic_close = None,
      s_close_deferred_once = False, s_quic_close_issued = False, s_remote_addr = Some remote\<rparr>"

text \<open>
  A method of the session takes \<^verbatim>\<open>&mut self\<close>, the connection and the event list: one state.
\<close>

record 'c sys =
  sess :: wt_session
  conn :: 'c
  evs :: "ev list"

abbreviation closed :: "'c sys \<Rightarrow> bool" where
  "closed s \<equiv> s_closed (sess s)"

end
