(* ===== verification/Session_Core.thy ===== *)
theory Session_Core
  imports Session_Types
begin

text \<open>
  The operations of \<^verbatim>\<open>session.rs\<close> that do not parse received bytes: set-up, closing and error
  handling, flow-control accounting, opening and writing streams, datagrams and capsules.
  Tracing output (\<^verbatim>\<open>RWT_DEBUG\<close>) is left out.
\<close>

section \<open>State access\<close>

definition upd :: "(wt_session \<Rightarrow> wt_session) \<Rightarrow> 'c sys \<Rightarrow> 'c sys" where
  "upd f s = s\<lparr>sess := f (sess s)\<rparr>"

definition push_ev :: "ev \<Rightarrow> 'c sys \<Rightarrow> 'c sys" where
  "push_ev e s = s\<lparr>evs := evs s @ [e]\<rparr>"

definition get_stream :: "'c sys \<Rightarrow> u64 \<Rightarrow> stream option" where
  "get_stream s i = map_of (s_streams (sess s)) i"

definition modify_stream :: "u64 \<Rightarrow> (stream \<Rightarrow> stream) \<Rightarrow> 'c sys \<Rightarrow> 'c sys" where
  "modify_stream i f s = upd (\<lambda>w. w\<lparr>s_streams := hm_modify i f (s_streams w)\<rparr>) s"

definition set_memory :: "parser_memory \<Rightarrow> 'c sys \<Rightarrow> 'c sys" where
  "set_memory m s = upd (\<lambda>w. w\<lparr>s_parser_memory := m\<rparr>) s"

abbreviation memory :: "'c sys \<Rightarrow> parser_memory" where
  "memory s \<equiv> s_parser_memory (sess s)"

text \<open>\<^verbatim>\<open>HashMap::insert\<close> and \<^verbatim>\<open>HashMap::remove\<close> drop the stream they replace or remove.\<close>

definition insert_stream :: "u64 \<Rightarrow> stream \<Rightarrow> 'c sys \<Rightarrow> 'c sys" where
  "insert_stream i st s =
     upd (\<lambda>w. w\<lparr>s_streams := AList.update i st (s_streams w),
               s_parser_memory :=
                 (case map_of (s_streams w) i of
                    None \<Rightarrow> s_parser_memory w
                  | Some old \<Rightarrow> drop_stream (s_parser_memory w) old)\<rparr>) s"

definition remove_stream :: "u64 \<Rightarrow> 'c sys \<Rightarrow> 'c sys" where
  "remove_stream i s =
     upd (\<lambda>w. w\<lparr>s_streams := AList.delete i (s_streams w),
               s_parser_memory :=
                 (case map_of (s_streams w) i of
                    None \<Rightarrow> s_parser_memory w
                  | Some old \<Rightarrow> drop_stream (s_parser_memory w) old)\<rparr>) s"

definition drop_buffer :: "parser_buffer \<Rightarrow> 'c sys \<Rightarrow> 'c sys" where
  "drop_buffer b s = set_memory (buffer_drop (memory s) b) s"

definition clear_class_buf :: "u64 \<Rightarrow> 'c sys \<Rightarrow> 'c sys" where
  "clear_class_buf i s =
     (case get_stream s i of
        None \<Rightarrow> s
      | Some st \<Rightarrow>
         (case buffer_clear (memory s) (st_class_buf st) of
            (m, b) \<Rightarrow> set_memory m (modify_stream i (\<lambda>st. st\<lparr>st_class_buf := b\<rparr>) s)))"

definition clear_frames_buf :: "u64 \<Rightarrow> 'c sys \<Rightarrow> 'c sys" where
  "clear_frames_buf i s =
     (case get_stream s i of
        None \<Rightarrow> s
      | Some st \<Rightarrow>
         (case buffer_clear (memory s) (fp_buf (st_frames st)) of
            (m, b) \<Rightarrow> set_memory m
              (modify_stream i (\<lambda>st. st\<lparr>st_frames := (st_frames st)\<lparr>fp_buf := b\<rparr>\<rparr>) s)))"

section \<open>Set-up\<close>

definition is_ready :: "'c sys \<Rightarrow> bool" where
  "is_ready s = s_ready (sess s)"

definition is_closed :: "'c sys \<Rightarrow> bool" where
  "is_closed s = s_closed (sess s)"

definition on_established :: "'c sys \<Rightarrow> 'c sys" where
  "on_established s =
     (if s_setup_sent (sess s) then s
      else
        (let s = upd (\<lambda>w. w\<lparr>s_setup_sent := True\<rparr>) s;
             (control_id, qpack_enc_id, qpack_dec_id) =
               (if s_is_server (sess s) then (SERVER_CONTROL_ID, SERVER_QPACK_ENC_ID, SERVER_QPACK_DEC_ID)
                else (CLIENT_CONTROL_ID, CLIENT_QPACK_ENC_ID, CLIENT_QPACK_DEC_ID));
             s = insert_stream control_id (with_prefix LocalControlPlane control_stream_prefix) s;
             s = insert_stream qpack_enc_id
                   (with_prefix LocalControlPlane (put_varint QPACK_ENCODER_STREAM_TYPE [])) s;
             s = insert_stream qpack_dec_id
                   (with_prefix LocalControlPlane (put_varint QPACK_DECODER_STREAM_TYPE [])) s
         in if \<not> s_is_server (sess s) then upd (\<lambda>w. w\<lparr>s_connect_pending := True\<rparr>) s else s))"

definition classify_new :: "u64 \<Rightarrow> bool \<Rightarrow> role" where
  "classify_new i is_server =
     (if is_server then
        (if i AND 3 = 0 then (if i = CONNECT_ID then Connect else PendingBidi)
         else if i AND 3 = 2 then PendingUni
         else Ignored)
      else
        (if i AND 3 = 3 then PendingUni
         else if i AND 3 = 1 then PendingBidi
         else Ignored))"

fun role_name :: "role \<Rightarrow> string" where
  "role_name LocalControlPlane = ''LocalControlPlane''"
| "role_name Connect = ''Connect''"
| "role_name PeerControl = ''PeerControl''"
| "role_name Ignored = ''Ignored''"
| "role_name (PeerQpack _) = ''PeerQpack''"
| "role_name (WtData _) = ''WtData''"
| "role_name PendingUni = ''PendingUni''"
| "role_name PendingBidi = ''PendingBidi''"

section \<open>Closing and errors\<close>

fun clear_streams ::
  "parser_memory \<Rightarrow> (u64 \<times> stream) list \<Rightarrow> parser_memory \<times> (u64 \<times> stream) list" where
  "clear_streams m [] = (m, [])"
| "clear_streams m ((i, st) # rest) =
     (case buffer_clear m (fp_buf (st_frames st)) of
        (m1, fb) \<Rightarrow>
         (case buffer_clear m1 (st_class_buf st) of
            (m2, cb) \<Rightarrow>
             (case clear_streams m2 rest of
                (m3, rest') \<Rightarrow>
                  (m3, (i, st\<lparr>st_frames := (st_frames st)\<lparr>fp_buf := fb\<rparr>, st_class_buf := cb,
                              st_recv_dead := True\<rparr>) # rest'))))"

definition mark_closed :: "u32 \<Rightarrow> bytes \<Rightarrow> bool \<Rightarrow> 'c sys \<Rightarrow> 'c sys" where
  "mark_closed code reason remote s =
     (if closed s then s
      else
        (case buffer_clear (memory s) (s_capsule_buf (sess s)) of
           (m1, cb) \<Rightarrow>
            (case clear_streams m1 (s_streams (sess s)) of
               (m2, streams) \<Rightarrow>
                 push_ev (EvClosed code reason remote)
                   (upd (\<lambda>w. w\<lparr>s_closed := True, s_capsule_buf := cb, s_parser_memory := m2,
                               s_streams := streams\<rparr>) s))))"

definition parser_limit_exceeded :: "'c sys \<Rightarrow> 'c sys" where
  "parser_limit_exceeded s =
     (if \<not> closed s
      then mark_closed 0 [] True (push_ev (EvError ''parser memory limit exceeded'') s)
      else s)"

definition frame_error :: "'c sys \<Rightarrow> u64 \<Rightarrow> bool" where
  "frame_error s i = (case get_stream s i of None \<Rightarrow> False | Some st \<Rightarrow> fp_error (st_frames st))"

definition flow_error :: "string \<Rightarrow> 'c sys \<Rightarrow> 'c sys" where
  "flow_error message s =
     (if closed s then s
      else
        (let s = upd (\<lambda>w. w\<lparr>s_terminal_error := Some (0x045d4487, as_bytes message)\<rparr>) s
         in mark_closed 0 [] True (push_ev (EvError message) s)))"

definition protocol_error :: "'c quic \<Rightarrow> u64 \<Rightarrow> string \<Rightarrow> 'c sys \<Rightarrow> 'c sys" where
  "protocol_error Q code message s =
     (if closed s then s
      else
        (let s = mark_closed 0 [] True (push_ev (EvError message) s)
         in s\<lparr>conn := q_close Q (conn s) True code (as_bytes message)\<rparr>))"

definition kill_recv :: "'c quic \<Rightarrow> u64 \<Rightarrow> 'c sys \<Rightarrow> 'c sys" where
  "kill_recv Q i s =
     (let s = modify_stream i (\<lambda>st. st\<lparr>st_recv_dead := True\<rparr>) s;
          s = clear_frames_buf i s;
          s = clear_class_buf i s
      in s\<lparr>conn := q_stream_shutdown Q (conn s) i ShutRead 0\<rparr>)"

section \<open>Flow-control accounting\<close>

definition uses_session_flow_control :: "wt_session \<Rightarrow> bool" where
  "uses_session_flow_control w =
     (case s_peer_settings w of None \<Rightarrow> False | Some ps \<Rightarrow> wt_max_sessions ps > 0)"

definition account_incoming :: "bool \<Rightarrow> 'c sys \<Rightarrow> bool \<times> 'c sys" where
  "account_incoming bidi s =
     (let s = upd (\<lambda>w. w\<lparr>s_fc_streams_received :=
                         (s_fc_streams_received w)(bidi := s_fc_streams_received w bidi + 1)\<rparr>) s;
          limit = s_fc_max_streams_local (sess s) bidi
      in if uses_session_flow_control (sess s) \<and> s_fc_streams_received (sess s) bidi > limit
         then (False, flow_error ''peer exceeded the session stream limit'' s)
         else (True, s))"

definition account_receive :: "u64 \<Rightarrow> u64 \<Rightarrow> 'c sys \<Rightarrow> bool \<times> 'c sys" where
  "account_receive i amount s =
     (let s = upd (\<lambda>w. w\<lparr>s_fc_data_received := saturating_add (s_fc_data_received w) amount\<rparr>) s;
          s = modify_stream i (\<lambda>st. st\<lparr>st_recv_payload := saturating_add (st_recv_payload st) amount\<rparr>) s;
          limit = s_fc_max_data_local (sess s)
      in if uses_session_flow_control (sess s) \<and> s_fc_data_received (sess s) > limit
         then (False, flow_error ''peer exceeded the session data limit'' s)
         else (True, s))"

definition reconcile_send_final_size :: "'c quic \<Rightarrow> u64 \<Rightarrow> 'c sys \<Rightarrow> 'c sys" where
  "reconcile_send_final_size Q i s =
     (case q_stream_send_final_size Q (conn s) i of
        None \<Rightarrow> s
      | Some final_size \<Rightarrow>
         (case get_stream s i of
            None \<Rightarrow> s
          | Some st \<Rightarrow>
             (if \<not> is_wt_data (st_role st) then s
              else
                (let final_payload = saturating_sub final_size (st_send_prefix st) in
                 if final_payload < st_send_payload st then
                   modify_stream i (\<lambda>st. st\<lparr>st_send_payload := final_payload\<rparr>)
                     (upd (\<lambda>w. w\<lparr>s_fc_data_sent :=
                        saturating_sub (s_fc_data_sent w) (st_send_payload st - final_payload)\<rparr>) s)
                 else s))))"

section \<open>Datagrams\<close>

text \<open>
  The receive loop runs until the connection reports an error, \<^verbatim>\<open>Done\<close> included; the model gives
  it a number of rounds, and \<^const>\<open>None\<close> means they did not suffice.
\<close>

fun on_datagrams :: "nat \<Rightarrow> 'c quic \<Rightarrow> 'c sys \<Rightarrow> 'c sys option" where
  "on_datagrams 0 Q s = None"
| "on_datagrams (Suc n) Q s =
     (case q_dgram_recv Q (conn s) 65536 of
        (Inl _, c) \<Rightarrow> Some (s\<lparr>conn := c\<rparr>)
      | (Inr data, c) \<Rightarrow>
          (let s = s\<lparr>conn := c\<rparr> in
           on_datagrams n Q
             (case read_varint data of
                None \<Rightarrow> s
              | Some (qsi, off) \<Rightarrow>
                  if qsi = CONNECT_ID div 4 then push_ev (EvDatagram (drop off data)) s else s)))"

definition send_datagram :: "'c quic \<Rightarrow> bytes \<Rightarrow> u64 \<Rightarrow> 'c sys \<Rightarrow> 'c sys" where
  "send_datagram Q data request_id s =
     (case q_dgram_send Q (conn s) (put_varint (CONNECT_ID div 4) [] @ data) of
        (r, c) \<Rightarrow> push_ev (EvDatagramAck request_id (case r of Inr _ \<Rightarrow> True | Inl _ \<Rightarrow> False))
                    (s\<lparr>conn := c\<rparr>))"

definition max_datagram_size :: "'c quic \<Rightarrow> 'c \<Rightarrow> nat" where
  "max_datagram_size Q c = (case q_dgram_max_writable_len Q c of None \<Rightarrow> 0 | Some n \<Rightarrow> n) - 1"

section \<open>Opening and writing streams\<close>

definition allocate_stream :: "bool \<Rightarrow> u64 \<Rightarrow> 'c sys \<Rightarrow> 'c sys" where
  "allocate_stream bidi request_id s =
     (let i = (if bidi then s_next_bidi (sess s) else s_next_uni (sess s));
          s = (if bidi then upd (\<lambda>w. w\<lparr>s_next_bidi := s_next_bidi w + 4\<rparr>) s
               else upd (\<lambda>w. w\<lparr>s_next_uni := s_next_uni w + 4\<rparr>) s);
          prefix = (if bidi then put_varint WT_BIDI_FRAME_TYPE [] else put_varint WT_UNI_STREAM_TYPE []);
          prefix = put_varint CONNECT_ID prefix;
          s = insert_stream i (with_prefix (WtData bidi) prefix) s
      in push_ev (EvStreamOpened request_id i) s)"

definition first_wt_id :: "bool \<Rightarrow> bool \<Rightarrow> u64" where
  "first_wt_id is_server bidi =
     (if is_server then (if bidi then SERVER_FIRST_WT_BIDI_ID else SERVER_FIRST_WT_UNI_ID)
      else if bidi then CLIENT_FIRST_WT_BIDI_ID else CLIENT_FIRST_WT_UNI_ID)"

fun release_opens :: "(bool \<times> u64) list \<Rightarrow> 'c sys \<Rightarrow> 'c sys" where
  "release_opens [] s = s"
| "release_opens ((bidi, request_id) # pending) s =
     (let first = first_wt_id (s_is_server (sess s)) bidi;
          next' = (if bidi then s_next_bidi (sess s) else s_next_uni (sess s));
          limit = (if bidi then s_fc_max_streams_bidi_remote (sess s)
                   else s_fc_max_streams_uni_remote (sess s))
      in if uses_session_flow_control (sess s) \<and> (next' - first) div 4 \<ge> limit
         then release_opens pending
                (upd (\<lambda>w. w\<lparr>s_pending_opens := s_pending_opens w @ [(bidi, request_id)]\<rparr>) s)
         else release_opens pending (allocate_stream bidi request_id s))"

definition release_pending_opens :: "'c sys \<Rightarrow> 'c sys" where
  "release_pending_opens s =
     (if \<not> s_ready (sess s) \<or> closed s then s
      else release_opens (s_pending_opens (sess s)) (upd (\<lambda>w. w\<lparr>s_pending_opens := []\<rparr>) s))"

definition open_stream :: "bool \<Rightarrow> u64 \<Rightarrow> 'c sys \<Rightarrow> 'c sys" where
  "open_stream bidi request_id s =
     release_pending_opens
       (upd (\<lambda>w. w\<lparr>s_pending_opens := s_pending_opens w @ [(bidi, request_id)]\<rparr>) s)"

definition stream_write :: "u64 \<Rightarrow> bytes \<Rightarrow> u64 \<Rightarrow> 'c sys \<Rightarrow> 'c sys" where
  "stream_write i data request_id s =
     (case get_stream s i of
        Some _ \<Rightarrow> modify_stream i (push_chunk data (Some request_id)) s
      | None \<Rightarrow> push_ev (EvWriteAck request_id) s)"

definition stream_fin :: "u64 \<Rightarrow> 'c sys \<Rightarrow> 'c sys" where
  "stream_fin i s = modify_stream i (\<lambda>st. st\<lparr>st_fin_queued := True\<rparr>) s"

definition stream_reset :: "'c quic \<Rightarrow> u64 \<Rightarrow> u64 \<Rightarrow> 'c sys \<Rightarrow> 'c sys" where
  "stream_reset Q i code s =
     (case get_stream s i of
        None \<Rightarrow> s
      | Some _ \<Rightarrow>
         (let h = webtransport_code_to_http_code code;
              s = s\<lparr>conn := q_stream_shutdown Q (conn s) i ShutWrite h\<rparr>;
              s = reconcile_send_final_size Q i s
          in modify_stream i (\<lambda>st. st\<lparr>st_out := [], st_fin_sent := True\<rparr>) s))"

definition stream_stop_sending :: "'c quic \<Rightarrow> u64 \<Rightarrow> u64 \<Rightarrow> 'c sys \<Rightarrow> 'c sys" where
  "stream_stop_sending Q i code s =
     (case get_stream s i of
        None \<Rightarrow> s
      | Some _ \<Rightarrow>
         (let h = webtransport_code_to_http_code code;
              s = s\<lparr>conn := q_stream_shutdown Q (conn s) i ShutRead h\<rparr>
          in modify_stream i (\<lambda>st. st\<lparr>st_recv_dead := True\<rparr>) s))"

definition set_paused :: "u64 \<Rightarrow> bool \<Rightarrow> 'c sys \<Rightarrow> 'c sys" where
  "set_paused i p s = modify_stream i (\<lambda>st. st\<lparr>st_paused := p\<rparr>) s"

section \<open>Closing, draining and capsules\<close>

definition close :: "u32 \<Rightarrow> bytes \<Rightarrow> 'c sys \<Rightarrow> 'c sys" where
  "close code reason s =
     (case s_close_req (sess s) of
        None \<Rightarrow> upd (\<lambda>w. w\<lparr>s_close_req := Some
                   \<lparr>cr_code = code, cr_reason = truncate_close_reason reason, cr_capsule_queued = False\<rparr>\<rparr>) s
      | Some _ \<Rightarrow> s)"

definition send_drain :: "'c sys \<Rightarrow> 'c sys" where
  "send_drain s =
     (if closed s \<or> s_drain_sent (sess s) then s
      else
        (let capsule = put_varint 0 (put_varint WT_DRAIN_SESSION_CAPSULE []);
             body = frame FRAME_DATA capsule
         in case get_stream s CONNECT_ID of
              None \<Rightarrow> s
            | Some _ \<Rightarrow>
                upd (\<lambda>w. w\<lparr>s_drain_sent := True\<rparr>)
                  (modify_stream CONNECT_ID (push_chunk body None) s)))"

definition session_capsule :: "u64 \<Rightarrow> u64 \<Rightarrow> bytes" where
  "session_capsule ty value' =
     (let val = put_varint value' [];
          capsule = put_varint (of_nat (length val)) (put_varint ty [])
      in frame FRAME_DATA (capsule @ val))"

definition queue_session_capsule :: "u64 \<Rightarrow> u64 \<Rightarrow> 'c sys \<Rightarrow> 'c sys" where
  "queue_session_capsule ty value' s =
     modify_stream CONNECT_ID (push_chunk (session_capsule ty value') None) s"

definition local_close_info :: "'c sys \<Rightarrow> (u32 \<times> bytes) option" where
  "local_close_info s = map_option (\<lambda>r. (cr_code r, cr_reason r)) (s_close_req (sess s))"

end
