(* ===== verification/Session_Recv.thy ===== *)
theory Session_Recv
  imports Session_Core
begin

text \<open>
  The receive side of \<^verbatim>\<open>session.rs\<close>: capsules, the frames of the control and CONNECT streams, the
  classification of streams the peer opens, and the loop that drains a readable stream.

  Each \<^verbatim>\<open>while !self.closed\<close> loop is a recursive function over a definition of its body. The locale
  \<open>frame_loop\<close> is what such a loop promises: it ends, and it does what its body does, repeatedly.
  The payload of a frame and the value of a capsule live in budgeted buffers of their own, dropped
  at the end of the loop body.
\<close>

section \<open>Loops over a receive buffer\<close>

locale frame_loop =
  fixes loop :: "'s \<Rightarrow> 's"
    and body :: "'s \<Rightarrow> bool \<times> 's"
    and stop :: "'s \<Rightarrow> bool"
    and size_of :: "'s \<Rightarrow> nat"
  assumes unfold: "loop s = (if stop s then s else case body s of (go, s') \<Rightarrow> if go then loop s' else s')"
    and shrinks: "body s = (True, s') \<Longrightarrow> \<not> stop s \<Longrightarrow> size_of s' < size_of s"
begin

lemma loop_induct [case_names step]:
  assumes "\<And>s. (\<And>s'. \<not> stop s \<Longrightarrow> body s = (True, s') \<Longrightarrow> P s') \<Longrightarrow> P s"
  shows "P s"
proof (induction "size_of s" arbitrary: s rule: less_induct)
  case less
  show ?case
    by (rule assms) (use less shrinks in blast)
qed

text \<open>A preorder that the body respects is respected by the loop.\<close>

lemma loop_rel:
  assumes refl: "\<And>s. R s s" and trans: "\<And>a b c. R a b \<Longrightarrow> R b c \<Longrightarrow> R a c"
    and body: "\<And>s. \<not> stop s \<Longrightarrow> R s (snd (body s))"
  shows "R s (loop s)"
proof (induction s rule: loop_induct)
  case (step s)
  show ?case
  proof (cases "stop s")
    case True
    then show ?thesis by (subst unfold) (simp add: refl)
  next
    case False
    obtain go s' where b: "body s = (go, s')" by (cases "body s")
    have "R s s'" using body [OF False] b by simp
    with False b step [of s'] show ?thesis
      by (subst unfold) (auto intro: trans)
  qed
qed

text \<open>An invariant of the body is an invariant of the loop.\<close>

lemma loop_inv:
  assumes "I s" and body: "\<And>s. \<not> stop s \<Longrightarrow> I s \<Longrightarrow> I (snd (body s))"
  shows "I (loop s)"
proof -
  have "I s \<longrightarrow> I (loop s)"
    by (rule loop_rel [where R = "\<lambda>a b. I a \<longrightarrow> I b"]) (use body in auto)
  with assms(1) show ?thesis by simp
qed

text \<open>When the loop ends it was stopped, or its body asked it to end.\<close>

lemma loop_ends: "stop (loop s) \<or> (\<exists>a. \<not> stop a \<and> body a = (False, loop s))"
proof (induction s rule: loop_induct)
  case (step s)
  show ?case
  proof (cases "stop s")
    case True
    then show ?thesis by (subst unfold) simp
  next
    case False
    then show ?thesis
      using step by (cases "body s"; cases "fst (body s)") (subst (1 2) unfold; force)+
  qed
qed

end

section \<open>Capsules\<close>

definition capsule_len :: "'c sys \<Rightarrow> nat" where
  "capsule_len s = length (pb_data (s_capsule_buf (sess s)))"

definition set_capsule_buf :: "parser_memory \<Rightarrow> parser_buffer \<Rightarrow> 'c sys \<Rightarrow> 'c sys" where
  "set_capsule_buf m b s = upd (\<lambda>w. w\<lparr>s_parser_memory := m, s_capsule_buf := b\<rparr>) s"

definition is_fc_capsule :: "u64 \<Rightarrow> bool" where
  "is_fc_capsule ty \<longleftrightarrow>
     ty = WT_MAX_DATA_CAPSULE \<or> ty = WT_MAX_STREAMS_BIDI_CAPSULE \<or> ty = WT_MAX_STREAMS_UNI_CAPSULE
     \<or> ty = WT_DATA_BLOCKED_CAPSULE \<or> ty = WT_STREAMS_BLOCKED_BIDI_CAPSULE
     \<or> ty = WT_STREAMS_BLOCKED_UNI_CAPSULE"

definition apply_credit :: "u64 \<Rightarrow> u64 \<Rightarrow> 'c sys \<Rightarrow> bool \<times> 'c sys" where
  "apply_credit ty v s =
     (if ty = WT_MAX_DATA_CAPSULE then
        (if v \<le> s_fc_max_data_remote (sess s)
         then (False, flow_error ''flow-control credit must increase'' s)
         else (True, upd (\<lambda>w. w\<lparr>s_fc_max_data_remote := v\<rparr>) s))
      else if ty = WT_MAX_STREAMS_BIDI_CAPSULE then
        (if v \<le> s_fc_max_streams_bidi_remote (sess s)
         then (False, flow_error ''flow-control credit must increase'' s)
         else (True, upd (\<lambda>w. w\<lparr>s_fc_max_streams_bidi_remote := v\<rparr>) s))
      else if ty = WT_MAX_STREAMS_UNI_CAPSULE then
        (if v \<le> s_fc_max_streams_uni_remote (sess s)
         then (False, flow_error ''flow-control credit must increase'' s)
         else (True, upd (\<lambda>w. w\<lparr>s_fc_max_streams_uni_remote := v\<rparr>) s))
      else (True, s))"

definition apply_capsule :: "u64 \<Rightarrow> bytes \<Rightarrow> 'c sys \<Rightarrow> bool \<times> 'c sys" where
  "apply_capsule ty value' s =
     (if ty = WT_CLOSE_SESSION_CAPSULE \<and> \<not> closed s then
        (let (code, reason) =
               (if length value' \<ge> 4
                then (u32_from_be_bytes (value' ! 0) (value' ! 1) (value' ! 2) (value' ! 3),
                      truncate_close_reason (drop 4 value'))
                else (0, []))
         in (True, mark_closed code reason True s))
      else if ty = WT_DRAIN_SESSION_CAPSULE \<and> \<not> s_drain_emitted (sess s) \<and> \<not> closed s then
        (True, push_ev EvDraining (upd (\<lambda>w. w\<lparr>s_drain_emitted := True\<rparr>) s))
      else if is_fc_capsule ty then
        (case read_varint value' of
           None \<Rightarrow> (False, flow_error ''truncated flow-control capsule'' s)
         | Some (v, n) \<Rightarrow>
            (let stream_limit = (ty \<noteq> WT_MAX_DATA_CAPSULE \<and> ty \<noteq> WT_DATA_BLOCKED_CAPSULE) in
             if n \<noteq> length value' \<or> (stream_limit \<and> v > push_bit 60 1)
             then (False, flow_error ''invalid flow-control capsule'' s)
             else apply_credit ty v s))
      else (True, s))"

definition capsule_step :: "env \<Rightarrow> 'c sys \<Rightarrow> bool \<times> 'c sys" where
  "capsule_step E s =
     (let buf = pb_data (s_capsule_buf (sess s)) in
      case read_varint buf of
        None \<Rightarrow> (False, s)
      | Some (ty, n1) \<Rightarrow>
         (case read_varint (drop n1 buf) of
            None \<Rightarrow> (False, s)
          | Some (len, n2) \<Rightarrow>
             (let start = n1 + n2 in
              if len > of_nat MAX_CONTROL_FRAME then
                (False, mark_closed 0 [] True (push_ev (EvError ''oversized WebTransport capsule'') s))
              else if length buf < start + unat len then (False, s)
              else case copy_range (e_alloc E) (memory s) (s_capsule_buf (sess s)) start (start + unat len) of
                (None, m1) \<Rightarrow> (False, parser_limit_exceeded (set_memory m1 s))
              | (Some value', m1) \<Rightarrow>
                 (case buffer_consume m1 (s_capsule_buf (sess s)) (start + unat len) of
                    (m2, b2) \<Rightarrow>
                      (case apply_capsule ty (pb_data value') (set_capsule_buf m2 b2 s) of
                         (go, s') \<Rightarrow> (go, drop_buffer value' s'))))))"

lemma capsule_len_simps [simp]:
  "capsule_len (push_ev e s) = capsule_len s"
  "capsule_len (set_memory m s) = capsule_len s"
  "capsule_len (drop_buffer b s) = capsule_len s"
  "capsule_len (set_capsule_buf m b s) = length (pb_data b)"
  by (simp_all add: capsule_len_def push_ev_def set_memory_def drop_buffer_def set_capsule_buf_def upd_def)

lemma capsule_len_mark_closed: "capsule_len (mark_closed c r b s) \<le> capsule_len s"
  by (simp add: mark_closed_def buffer_clear_def ParserBuffer_new_def capsule_len_def push_ev_def upd_def
      split: prod.split)

lemma capsule_len_flow_error: "capsule_len (flow_error m s) \<le> capsule_len s"
  using capsule_len_mark_closed [of 0 "[]" True "push_ev (EvError m)
      (upd (\<lambda>w. w\<lparr>s_terminal_error := Some (0x045d4487, as_bytes m)\<rparr>) s)"]
  by (simp add: flow_error_def Let_def) (simp add: capsule_len_def upd_def)

lemma capsule_len_apply_capsule: "capsule_len (snd (apply_capsule ty v s)) \<le> capsule_len s"
proof -
  have [simp]: "capsule_len (upd f s) = capsule_len s"
    if "\<And>w. s_capsule_buf (f w) = s_capsule_buf w" for f using that by (simp add: capsule_len_def upd_def)
  show ?thesis
    by (simp add: apply_capsule_def apply_credit_def Let_def capsule_len_mark_closed
        capsule_len_flow_error split: option.split prod.split)
qed

lemma length_buffer_consume:
  "n \<le> length (pb_data b) \<Longrightarrow> length (pb_data (snd (buffer_consume m b n))) = length (pb_data b) - n"
  by (simp add: buffer_consume_def buffer_clear_def ParserBuffer_new_def)

lemma capsule_step_shrinks:
  assumes "capsule_step E s = (True, s')"
  shows "capsule_len s' < capsule_len s"
proof -
  let ?buf = "pb_data (s_capsule_buf (sess s))"
  obtain ty n1 len n2 m1 value' m2 b2 s1 where
    r: "read_varint ?buf = Some (ty, n1)" "read_varint (drop n1 ?buf) = Some (len, n2)"
    and le: "n1 + n2 + unat len \<le> length ?buf"
    and c: "buffer_consume m1 (s_capsule_buf (sess s)) (n1 + n2 + unat len) = (m2, b2)"
    and a: "apply_capsule ty (pb_data value') (set_capsule_buf m2 b2 s) = (True, s1)"
    and s': "s' = drop_buffer value' s1"
    using assms
    by (auto simp: capsule_step_def Let_def not_less split: option.splits prod.splits if_splits)
  have "length (pb_data b2) = length ?buf - (n1 + n2 + unat len)"
    using length_buffer_consume [OF le, of m1] c by simp
  moreover have "capsule_len s1 \<le> length (pb_data b2)"
    using capsule_len_apply_capsule [of ty "pb_data value'" "set_capsule_buf m2 b2 s"] a by simp
  ultimately show ?thesis
    using read_varint_len(1) [OF r(1)] le s' by (simp add: capsule_len_def [of s])
qed

function capsule_loop :: "env \<Rightarrow> 'c sys \<Rightarrow> 'c sys" where
  "capsule_loop E s =
     (if closed s then s
      else case capsule_step E s of (go, s') \<Rightarrow> if go then capsule_loop E s' else s')"
  by pat_completeness auto
termination
  by (relation "measure (\<lambda>(E, s). capsule_len s)") (auto dest!: capsule_step_shrinks [OF sym])

declare capsule_loop.simps [simp del]

interpretation cl: frame_loop "capsule_loop E" "capsule_step E" "\<lambda>s. s_closed (sess s)" capsule_len for E
  by unfold_locales (simp_all add: capsule_loop.simps [of E] capsule_step_shrinks)

definition scan_capsules :: "env \<Rightarrow> bytes \<Rightarrow> 'c sys \<Rightarrow> 'c sys" where
  "scan_capsules E payload s =
     (if closed s then s
      else case extend_from_slice (e_alloc E) (memory s) (s_capsule_buf (sess s)) payload of
        (False, m, b) \<Rightarrow> parser_limit_exceeded (set_capsule_buf m b s)
      | (True, m, b) \<Rightarrow> capsule_loop E (set_capsule_buf m b s))"

section \<open>Frames of one stream\<close>

definition frame_len :: "'c sys \<Rightarrow> u64 \<Rightarrow> nat" where
  "frame_len s i =
     (case get_stream s i of None \<Rightarrow> 0 | Some st \<Rightarrow> length (pb_data (fp_buf (st_frames st))))"

definition stream_next_frame :: "env \<Rightarrow> u64 \<Rightarrow> 'c sys \<Rightarrow> (u64 \<times> parser_buffer) option \<times> 'c sys" where
  "stream_next_frame E i s =
     (case get_stream s i of
        None \<Rightarrow> (None, s)
      | Some st \<Rightarrow>
         (case next_frame (e_alloc E) (memory s) (st_frames st) of
            (r, m, fp) \<Rightarrow> (r, set_memory m (modify_stream i (\<lambda>st. st\<lparr>st_frames := fp\<rparr>) s))))"

definition stream_push_bytes :: "env \<Rightarrow> u64 \<Rightarrow> bytes \<Rightarrow> 'c sys \<Rightarrow> 'c sys" where
  "stream_push_bytes E i chunk s =
     (case get_stream s i of
        None \<Rightarrow> s
      | Some st \<Rightarrow>
         (case push_bytes (e_alloc E) (memory s) (st_frames st) chunk of
            (m, fp) \<Rightarrow> set_memory m (modify_stream i (\<lambda>st. st\<lparr>st_frames := fp\<rparr>) s)))"

definition stream_headers_done :: "'c sys \<Rightarrow> u64 \<Rightarrow> bool" where
  "stream_headers_done s i = (case get_stream s i of None \<Rightarrow> False | Some st \<Rightarrow> st_headers_done st)"

definition set_headers_done :: "u64 \<Rightarrow> 'c sys \<Rightarrow> 'c sys" where
  "set_headers_done i s = modify_stream i (\<lambda>st. st\<lparr>st_headers_done := True\<rparr>) s"

text \<open>No operation of this section but \<open>stream_push_bytes\<close> adds bytes to a frame buffer.\<close>

definition no_growth :: "'c sys \<Rightarrow> 'c sys \<Rightarrow> bool" where
  "no_growth s s' \<longleftrightarrow> (\<forall>i. frame_len s' i \<le> frame_len s i)"

lemma no_growth_refl [simp, intro]: "no_growth s s"
  by (simp add: no_growth_def)

lemma no_growth_trans: "no_growth a b \<Longrightarrow> no_growth b c \<Longrightarrow> no_growth a c"
  unfolding no_growth_def using order_trans by blast

lemma no_growth_same: "s_streams (sess s') = s_streams (sess s) \<Longrightarrow> no_growth s s'"
  by (simp add: no_growth_def frame_len_def get_stream_def)

lemma no_growth_push_ev [simp]: "no_growth s (push_ev e s')  = no_growth s s'"
  by (simp add: no_growth_def frame_len_def get_stream_def push_ev_def)

lemma no_growth_conn [simp]: "no_growth s (s'\<lparr>conn := c\<rparr>) = no_growth s s'"
  by (simp add: no_growth_def frame_len_def get_stream_def)

lemma no_growth_set_memory [simp]: "no_growth s (set_memory m s') = no_growth s s'"
  by (simp add: no_growth_def frame_len_def get_stream_def set_memory_def upd_def)

lemma no_growth_drop_buffer [simp]: "no_growth s (drop_buffer b s') = no_growth s s'"
  by (simp add: drop_buffer_def)

lemma no_growth_set_capsule_buf [simp]: "no_growth s (set_capsule_buf m b s') = no_growth s s'"
  by (simp add: no_growth_def frame_len_def get_stream_def set_capsule_buf_def upd_def)

lemma no_growth_modify:
  "(\<And>st. st_frames (f st) = st_frames st) \<Longrightarrow> no_growth s (modify_stream i f s)"
  by (simp add: no_growth_def frame_len_def get_stream_def modify_stream_def upd_def split: option.split)

text \<open>What closing the session does to each stream.\<close>

definition clear_stream :: "stream \<Rightarrow> stream" where
  "clear_stream st =
     st\<lparr>st_frames := (st_frames st)\<lparr>fp_buf := ParserBuffer_new\<rparr>, st_class_buf := ParserBuffer_new,
        st_recv_dead := True\<rparr>"

lemma clear_streams_eq:
  "clear_streams m xs =
     (foldl (\<lambda>m kv. release (release m (pb_cap (fp_buf (st_frames (snd kv))))) (pb_cap (st_class_buf (snd kv)))) m xs,
      hm_map clear_stream xs)"
  by (induction xs arbitrary: m) (auto simp: buffer_clear_def hm_map_def clear_stream_def)

lemma get_stream_mark_closed:
  "get_stream (mark_closed c r b s) i =
     (if closed s then get_stream s i else map_option clear_stream (get_stream s i))"
  by (simp add: mark_closed_def clear_streams_eq buffer_clear_def get_stream_def push_ev_def upd_def)

lemma no_growth_mark_closed [simp]: "no_growth s (mark_closed c r b s)"
  by (simp add: no_growth_def frame_len_def get_stream_mark_closed clear_stream_def ParserBuffer_new_def
      split: option.split)

lemma no_growth_mark_closed_after: "no_growth s s' \<Longrightarrow> no_growth s (mark_closed c r b s')"
  using no_growth_trans no_growth_mark_closed by blast

lemma no_growth_flow_error [simp]: "no_growth s (flow_error m s)"
  by (simp add: flow_error_def Let_def no_growth_mark_closed_after no_growth_same upd_def)

lemma no_growth_protocol_error [simp]: "no_growth s (protocol_error Q c m s)"
  by (simp add: protocol_error_def Let_def no_growth_mark_closed_after)

lemma no_growth_parser_limit: "no_growth s s' \<Longrightarrow> no_growth s (parser_limit_exceeded s')"
  by (simp add: parser_limit_exceeded_def no_growth_mark_closed_after)

lemma no_growth_apply_credit: "no_growth s (snd (apply_credit ty v s))"
  by (simp add: apply_credit_def no_growth_same upd_def)

lemma no_growth_apply_capsule: "no_growth s (snd (apply_capsule ty v s))"
  by (auto simp: apply_capsule_def Let_def no_growth_same upd_def no_growth_apply_credit
      split: option.split prod.split)

lemma no_growth_capsule_step: "no_growth s (snd (capsule_step E s))"
proof -
  have "no_growth s s'" if "apply_capsule ty v (set_capsule_buf m b s) = (go, s')" for ty v m b go s'
    using no_growth_apply_capsule [of "set_capsule_buf m b s" ty v] that
      no_growth_trans [of s "set_capsule_buf m b s" s'] by simp
  then show ?thesis
    by (simp add: capsule_step_def Let_def no_growth_parser_limit no_growth_mark_closed_after
        split: option.split prod.split)
qed

lemma no_growth_scan_capsules [simp]: "no_growth s (scan_capsules E p s)"
proof -
  have "no_growth s' (capsule_loop E s')" for s' :: "'a sys"
    by (rule cl.loop_rel) (auto intro: no_growth_trans no_growth_capsule_step)
  then have "no_growth s (capsule_loop E (set_capsule_buf m b s))" for m b
    using no_growth_trans [of s "set_capsule_buf m b s"] by simp
  then show ?thesis
    by (simp add: scan_capsules_def no_growth_parser_limit split: prod.split bool.split)
qed

lemma next_frame_shrinks:
  assumes "next_frame alloc m fp = (r, m', fp')"
  shows "(r \<noteq> None \<longrightarrow> length (pb_data (fp_buf fp')) < length (pb_data (fp_buf fp)))
    \<and> length (pb_data (fp_buf fp')) \<le> length (pb_data (fp_buf fp))"
proof (cases r)
  case None
  with assms show ?thesis
    by (auto simp: next_frame_def Let_def split: if_splits option.splits prod.splits)
next
  case (Some tp)
  with assms obtain ty n1 len n2 m1 b2 where
    r: "read_varint (pb_data (fp_buf fp)) = Some (ty, n1)"
    and le: "n1 + n2 + unat (len :: u64) \<le> length (pb_data (fp_buf fp))"
    and c: "buffer_consume m1 (fp_buf fp) (n1 + n2 + unat len) = (m', b2)" and fp': "fp' = fp\<lparr>fp_buf := b2\<rparr>"
    by (auto simp: next_frame_def Let_def not_less split: if_splits option.splits prod.splits)
  have "length (pb_data b2) = length (pb_data (fp_buf fp)) - (n1 + n2 + unat len)"
    using length_buffer_consume [OF le, of m1] c by simp
  with fp' le read_varint_len(1) [OF r] show ?thesis by simp linarith
qed

lemma get_stream_modify [simp]:
  "get_stream (modify_stream i f s) j = (if j = i then map_option f (get_stream s i) else get_stream s j)"
  by (simp add: get_stream_def modify_stream_def upd_def)

lemma get_stream_set_memory [simp]: "get_stream (set_memory m s) i = get_stream s i"
  by (simp add: get_stream_def set_memory_def upd_def)

lemma stream_next_frame_shrinks:
  assumes "stream_next_frame E i s = (r, s')"
  shows "no_growth s s' \<and> (r \<noteq> None \<longrightarrow> frame_len s' i < frame_len s i)"
proof (cases "get_stream s i")
  case None
  with assms show ?thesis by (auto simp: stream_next_frame_def)
next
  case (Some st)
  obtain r' m fp where n: "next_frame (e_alloc E) (memory s) (st_frames st) = (r', m, fp)"
    by (metis prod_cases3)
  with assms Some have "r' = r" "s' = set_memory m (modify_stream i (\<lambda>st. st\<lparr>st_frames := fp\<rparr>) s)"
    by (auto simp: stream_next_frame_def)
  with next_frame_shrinks [OF n] Some show ?thesis
    by (auto simp: no_growth_def frame_len_def)
qed

end
