(* ===== verification/Session_Frames.thy ===== *)
theory Session_Frames
  imports Session_Recv
begin

text \<open>
  The frame loops of \<^verbatim>\<open>session.rs\<close>: the client's and the server's side of the Extended CONNECT
  exchange on the session stream, and the peer's control stream.
\<close>

section \<open>The server side of CONNECT\<close>

definition reject_connect :: "env \<Rightarrow> u64 \<Rightarrow> nat \<Rightarrow> 'c sys \<Rightarrow> 'c sys" where
  "reject_connect E i status s =
     (let resp = [Header_new (as_bytes '':status'') (as_bytes (show_dec status))];
          s = (case encode_headers_frame E resp of
                 Inl _ \<Rightarrow> s
               | Inr fr \<Rightarrow> modify_stream i (\<lambda>st. (push_chunk fr None st)\<lparr>st_fin_queued := True\<rparr>) s);
          s = (if \<not> s_ready (sess s) \<and> \<not> closed s
               then push_ev (EvError (''rejected CONNECT with status '' @ show_dec status)) s else s)
      in mark_closed 0 [] False s)"

text \<open>The request fields \<^verbatim>\<open>accept_connect\<close> collects from the header list.\<close>

record connect_request =
  rq_method :: "bytes option"
  rq_protocol :: "bytes option"
  rq_authority :: string
  rq_path :: string
  rq_origin :: "string option"
  rq_protocol_fields :: "string list"
  rq_extra :: "(string \<times> string) list"

definition empty_request :: connect_request where
  "empty_request = \<lparr>rq_method = None, rq_protocol = None, rq_authority = [], rq_path = ''/'',
     rq_origin = None, rq_protocol_fields = [], rq_extra = []\<rparr>"

definition collect_header :: "connect_request \<Rightarrow> header \<Rightarrow> connect_request" where
  "collect_header rq h =
     (let name = hname h; val = hvalue h in
      if name = as_bytes '':method'' then rq\<lparr>rq_method := Some val\<rparr>
      else if name = as_bytes '':protocol'' then rq\<lparr>rq_protocol := Some val\<rparr>
      else if name = as_bytes '':authority'' then rq\<lparr>rq_authority := from_utf8_lossy val\<rparr>
      else if name = as_bytes '':path'' then rq\<lparr>rq_path := from_utf8_lossy val\<rparr>
      else if name = as_bytes ''origin'' then rq\<lparr>rq_origin := Some (from_utf8_lossy val)\<rparr>
      else if name = WT_AVAILABLE_PROTOCOLS then
        rq\<lparr>rq_protocol_fields := rq_protocol_fields rq @ [from_utf8_lossy val]\<rparr>
      else if starts_with name (as_bytes '':'') then rq
      else rq\<lparr>rq_extra := rq_extra rq @ [(from_utf8_lossy name, from_utf8_lossy val)]\<rparr>)"

definition collect_headers :: "header list \<Rightarrow> connect_request" where
  "collect_headers headers = foldl collect_header empty_request headers"

definition origin_permitted :: "string list option \<Rightarrow> string option \<Rightarrow> bool" where
  "origin_permitted allowed origin =
     (case allowed of
        None \<Rightarrow> True
      | Some al \<Rightarrow> (case origin of None \<Rightarrow> False | Some o' \<Rightarrow> list_ex (\<lambda>a. a = o') al))"

definition select_protocol :: "string list \<Rightarrow> string list \<Rightarrow> string option" where
  "select_protocol supported requested = find (\<lambda>p. list_ex (\<lambda>r. r = p) requested) supported"

definition accept_connect :: "env \<Rightarrow> u64 \<Rightarrow> header list \<Rightarrow> 'c sys \<Rightarrow> 'c sys" where
  "accept_connect E i headers s =
     (let rq = collect_headers headers;
          requested_protocols = parse_sf_string_list E (join '', '' (rq_protocol_fields rq)) in
      if \<not> (rq_method rq = Some (as_bytes ''CONNECT'') \<and> rq_protocol rq = Some (as_bytes ''webtransport''))
      then reject_connect E i 400 s
      else if \<not> origin_permitted (s_allowed_origins (sess s)) (rq_origin rq)
      then reject_connect E i 403 s
      else
        (let selected = select_protocol (s_supported_protocols (sess s)) requested_protocols;
             resp = [Header_new (as_bytes '':status'') (as_bytes ''200'')]
                    @ (case selected of None \<Rightarrow> []
                       | Some p \<Rightarrow> [Header_new WT_PROTOCOL (as_bytes (serialize_sf_string p))])
                    @ map (\<lambda>(k, v). Header_new (as_bytes k) (as_bytes v)) (s_response_headers (sess s))
         in case encode_headers_frame E resp of
              Inl e \<Rightarrow> push_ev (EvError (''failed to encode CONNECT response: '' @ e)) s
            | Inr fr \<Rightarrow>
               (let s = modify_stream i (push_chunk fr None) s;
                    s = upd (\<lambda>w. w\<lparr>s_ready := True\<rparr>) s;
                    (remote_addr, remote_port) =
                      (case s_remote_addr (sess s) of Some a \<Rightarrow> a | None \<Rightarrow> ([], 0))
                in push_ev (EvServerReady (rq_authority rq) (rq_path rq) (rq_origin rq) (rq_extra rq)
                     requested_protocols selected remote_addr remote_port) s)))"

definition server_connect_frame :: "env \<Rightarrow> u64 \<Rightarrow> bool \<Rightarrow> u64 \<Rightarrow> bytes \<Rightarrow> 'c sys \<Rightarrow> 'c sys" where
  "server_connect_frame E i headers_done ty payload s =
     (if ty = FRAME_HEADERS \<and> \<not> headers_done then
        (let s = set_headers_done i s in
         case decode_header_block E payload of
           Inr headers \<Rightarrow> accept_connect E i headers s
         | Inl e \<Rightarrow>
             reject_connect E i 400 (push_ev (EvError (''failed to decode CONNECT request: '' @ e)) s))
      else if ty = FRAME_DATA then scan_capsules E payload s
      else s)"

definition server_connect_step :: "env \<Rightarrow> u64 \<Rightarrow> 'c sys \<Rightarrow> bool \<times> 'c sys" where
  "server_connect_step E i s =
     (let headers_done = stream_headers_done s i in
      case stream_next_frame E i s of
        (None, s) \<Rightarrow> (False, s)
      | (Some (ty, payload), s) \<Rightarrow>
          (True, drop_buffer payload (server_connect_frame E i headers_done ty (pb_data payload) s)))"

lemma no_growth_reject_connect: "no_growth s s' \<Longrightarrow> no_growth s (reject_connect E i status s')"
  unfolding reject_connect_def Let_def
  by (rule no_growth_mark_closed_after, rule no_growth_trans)
    (auto intro!: no_growth_modify split: sum.split simp: push_chunk_def)

lemma no_growth_push_chunk: "no_growth s s' \<Longrightarrow> no_growth s (modify_stream i (push_chunk d r) s')"
  by (rule no_growth_trans) (auto intro!: no_growth_modify simp: push_chunk_def)

lemma no_growth_upd:
  "no_growth s s' \<Longrightarrow> (\<And>w. s_streams (f w) = s_streams w) \<Longrightarrow> no_growth s (upd f s')"
  by (rule no_growth_trans) (auto intro!: no_growth_same simp: upd_def)

lemma no_growth_accept_connect: "no_growth s s' \<Longrightarrow> no_growth s (accept_connect E i hs s')"
  by (simp add: accept_connect_def Let_def no_growth_reject_connect no_growth_push_chunk no_growth_upd
      split: sum.split option.split prod.split)

lemma no_growth_set_headers_done: "no_growth s (set_headers_done i s)"
  by (simp add: set_headers_done_def no_growth_modify)

lemma no_growth_server_connect_frame: "no_growth s (server_connect_frame E i hdone ty p s)"
  by (simp add: server_connect_frame_def Let_def no_growth_reject_connect no_growth_set_headers_done
      no_growth_accept_connect
      split: sum.split)

lemma no_growth_frame_step:
  assumes "stream_next_frame E i s = (Some tp, s1)" and "no_growth s1 s2"
  shows "no_growth s s2 \<and> frame_len s2 i < frame_len s i"
  using stream_next_frame_shrinks [OF assms(1)] assms(2) no_growth_trans [of s s1 s2]
  by (metis no_growth_def le_less_trans option.distinct(1))

lemma server_connect_step_shrinks:
  "no_growth s (snd (server_connect_step E i s))
   \<and> (fst (server_connect_step E i s) \<longrightarrow> frame_len (snd (server_connect_step E i s)) i < frame_len s i)"
proof (cases "stream_next_frame E i s")
  case (Pair r s1)
  show ?thesis
  proof (cases r)
    case None
    with Pair stream_next_frame_shrinks [OF Pair] show ?thesis by (simp add: server_connect_step_def)
  next
    case (Some tp)
    obtain ty p where tp: "tp = (ty, p)" by (cases tp)
    have "no_growth s1 (drop_buffer p
        (server_connect_frame E i (stream_headers_done s i) ty (pb_data p) s1))"
      by (simp add: no_growth_server_connect_frame)
    from no_growth_frame_step [OF Pair [unfolded Some] this] Pair Some tp show ?thesis
      by (simp add: server_connect_step_def)
  qed
qed

lemma server_connect_step_len: "(True, s') = server_connect_step E i s \<Longrightarrow> frame_len s' i < frame_len s i"
  using server_connect_step_shrinks [of s E i] by (metis fst_conv snd_conv)

function server_connect_loop :: "env \<Rightarrow> u64 \<Rightarrow> 'c sys \<Rightarrow> 'c sys" where
  "server_connect_loop E i s =
     (if closed s then s
      else case server_connect_step E i s of (go, s') \<Rightarrow> if go then server_connect_loop E i s' else s')"
  by pat_completeness auto
termination
  by (relation "measure (\<lambda>(E, i, s). frame_len s i)") (auto dest!: server_connect_step_len)

declare server_connect_loop.simps [simp del]

interpretation scl: frame_loop "server_connect_loop E i" "server_connect_step E i"
  "\<lambda>s. s_closed (sess s)" "\<lambda>s. frame_len s i" for E i
  by unfold_locales (simp_all add: server_connect_loop.simps [of E i] server_connect_step_len [OF sym])

definition parse_server_connect_frames :: "env \<Rightarrow> u64 \<Rightarrow> 'c sys \<Rightarrow> 'c sys" where
  "parse_server_connect_frames E i s =
     (case s_peer_settings (sess s) of
        None \<Rightarrow> s
      | Some settings \<Rightarrow>
          if \<not> h3_datagram settings \<or> \<not> (enable_webtransport settings \<or> wt_max_sessions settings > 0)
          then reject_connect E i 400 s
          else server_connect_loop E i s)"

lemma no_growth_parse_server_connect: "no_growth s (parse_server_connect_frames E i s)"
proof -
  have "no_growth s (server_connect_loop E i s)"
    by (rule scl.loop_rel) (auto intro: no_growth_trans simp: server_connect_step_shrinks)
  then show ?thesis by (simp add: parse_server_connect_frames_def no_growth_reject_connect split: option.split)
qed

section \<open>The client side of CONNECT\<close>

definition queue_connect :: "env \<Rightarrow> 'c sys \<Rightarrow> 'c sys" where
  "queue_connect E s =
     (let w = sess s;
          headers = connect_headers (s_authority w) (s_path w) (s_origin w) (s_extra_headers w)
                      (s_protocols w)
      in case encode_headers_frame E headers of
           Inr fr \<Rightarrow> insert_stream CONNECT_ID (with_prefix Connect fr) s
         | Inl e \<Rightarrow> push_ev (EvError (''failed to encode CONNECT: '' @ e)) s)"

definition connect_response :: "env \<Rightarrow> 'c quic \<Rightarrow> header list \<Rightarrow> 'c sys \<Rightarrow> bool \<times> 'c sys" where
  "connect_response E Q headers s =
     (let status = (case status_of headers of None \<Rightarrow> 0 | Some n \<Rightarrow> n) in
      if 200 \<le> status \<and> status < 300 then
        (if \<not> s_ready (sess s) then
           (let protocol = wt_protocol_of E headers in
            if (case protocol of None \<Rightarrow> False | Some p \<Rightarrow> p \<notin> set (s_protocols (sess s)))
            then (False, protocol_error Q 0x0817b3dd
                    ''server selected an unoffered or malformed subprotocol'' s)
            else (True, push_ev (EvReady protocol (response_headers headers))
                          (upd (\<lambda>w. w\<lparr>s_ready := True\<rparr>) s)))
         else (True, s))
      else
        (let s = push_ev (EvError (''WebTransport CONNECT rejected with status '' @ show_dec (unat status))) s;
             s = mark_closed 0 [] True s
         in (True, s\<lparr>conn := q_close Q (conn s) True 0 (as_bytes ''connect rejected'')\<rparr>)))"

definition connect_frame :: "env \<Rightarrow> 'c quic \<Rightarrow> u64 \<Rightarrow> bool \<Rightarrow> u64 \<Rightarrow> bytes \<Rightarrow> 'c sys \<Rightarrow> bool \<times> 'c sys" where
  "connect_frame E Q i headers_done ty payload s =
     (if ty = FRAME_HEADERS \<and> \<not> headers_done then
        (let s = set_headers_done i s in
         case decode_header_block E payload of
           Inr headers \<Rightarrow> connect_response E Q headers s
         | Inl e \<Rightarrow> (True, push_ev (EvError (''failed to decode CONNECT response: '' @ e)) s))
      else if ty = FRAME_DATA then (True, scan_capsules E payload s)
      else (True, s))"

definition connect_step :: "env \<Rightarrow> 'c quic \<Rightarrow> u64 \<Rightarrow> 'c sys \<Rightarrow> bool \<times> 'c sys" where
  "connect_step E Q i s =
     (let headers_done = stream_headers_done s i in
      case stream_next_frame E i s of
        (None, s) \<Rightarrow> (False, s)
      | (Some (ty, payload), s) \<Rightarrow>
          (case connect_frame E Q i headers_done ty (pb_data payload) s of
             (go, s) \<Rightarrow> (go, drop_buffer payload s)))"

lemma no_growth_connect_response: "no_growth s s' \<Longrightarrow> no_growth s (snd (connect_response E Q hs s'))"
  by (auto simp: connect_response_def Let_def no_growth_mark_closed_after no_growth_upd
      intro: no_growth_trans no_growth_protocol_error)

lemma no_growth_connect_frame: "no_growth s (snd (connect_frame E Q i hdone ty p s))"
  by (simp add: connect_frame_def Let_def no_growth_set_headers_done no_growth_connect_response
      split: sum.split)

lemma connect_step_shrinks:
  "no_growth s (snd (connect_step E Q i s))
   \<and> (fst (connect_step E Q i s) \<longrightarrow> frame_len (snd (connect_step E Q i s)) i < frame_len s i)"
proof (cases "stream_next_frame E i s")
  case (Pair r s1)
  show ?thesis
  proof (cases r)
    case None
    with Pair stream_next_frame_shrinks [OF Pair] show ?thesis by (simp add: connect_step_def)
  next
    case (Some tp)
    obtain ty p where tp: "tp = (ty, p)" by (cases tp)
    obtain go s2 where c: "connect_frame E Q i (stream_headers_done s i) ty (pb_data p) s1 = (go, s2)"
      by (cases "connect_frame E Q i (stream_headers_done s i) ty (pb_data p) s1")
    have "no_growth s1 (drop_buffer p s2)"
      using no_growth_connect_frame [of s1 E Q i "stream_headers_done s i" ty "pb_data p"] c by simp
    from no_growth_frame_step [OF Pair [unfolded Some] this] Pair Some tp c show ?thesis
      by (simp add: connect_step_def)
  qed
qed

lemma connect_step_len: "(True, s') = connect_step E Q i s \<Longrightarrow> frame_len s' i < frame_len s i"
  using connect_step_shrinks [of s E Q i] by (metis fst_conv snd_conv)

function parse_connect_frames :: "env \<Rightarrow> 'c quic \<Rightarrow> u64 \<Rightarrow> 'c sys \<Rightarrow> 'c sys" where
  "parse_connect_frames E Q i s =
     (if closed s then s
      else case connect_step E Q i s of (go, s') \<Rightarrow> if go then parse_connect_frames E Q i s' else s')"
  by pat_completeness auto
termination
  by (relation "measure (\<lambda>(E, Q, i, s). frame_len s i)") (auto dest!: connect_step_len)

declare parse_connect_frames.simps [simp del]

interpretation ccl: frame_loop "parse_connect_frames E Q i" "connect_step E Q i"
  "\<lambda>s. s_closed (sess s)" "\<lambda>s. frame_len s i" for E Q i
  by unfold_locales (simp_all add: parse_connect_frames.simps [of E Q i] connect_step_len [OF sym])

section \<open>The peer's control stream\<close>

text \<open>
  The stream a frame was just taken from exists, so the indexing \<^verbatim>\<open>self.streams[&id]\<close> and the
  \<^verbatim>\<open>unwrap\<close> in the loop body cannot fail.
\<close>

definition apply_peer_settings :: "env \<Rightarrow> peer_settings \<Rightarrow> 'c sys \<Rightarrow> 'c sys" where
  "apply_peer_settings E settings s =
     (let s = upd (\<lambda>w. w\<lparr>s_peer_settings := Some settings,
                         s_fc_max_data_remote := wt_initial_max_data settings,
                         s_fc_max_streams_bidi_remote := wt_initial_max_streams_bidi settings,
                         s_fc_max_streams_uni_remote := wt_initial_max_streams_uni settings\<rparr>) s;
          s = (if s_connect_pending (sess s) then
                 (let s = upd (\<lambda>w. w\<lparr>s_connect_pending := False\<rparr>) s in
                  if webtransport_ok settings then queue_connect E s
                  else mark_closed 0 (as_bytes ''webtransport not supported'') False
                         (push_ev (EvError ''server does not advertise WebTransport support'') s))
               else s)
      in if s_is_server (sess s) \<and> get_stream s CONNECT_ID \<noteq> None
         then parse_server_connect_frames E CONNECT_ID s else s)"

definition control_frame :: "env \<Rightarrow> 'c quic \<Rightarrow> u64 \<Rightarrow> bool \<Rightarrow> u64 \<Rightarrow> bytes \<Rightarrow> 'c sys \<Rightarrow> bool \<times> 'c sys" where
  "control_frame E Q i headers_done ty payload s =
     (let first = \<not> headers_done in
      if first \<and> ty \<noteq> FRAME_SETTINGS then
        (False, protocol_error Q 0x10a ''SETTINGS must be the first control frame'' s)
      else if ty = FRAME_SETTINGS then
        (if \<not> first then (False, protocol_error Q 0x105 ''repeated SETTINGS frame'' s)
         else
           (let s = set_headers_done i s in
            case parse_settings payload of
              Inr settings \<Rightarrow> (True, apply_peer_settings E settings s)
            | Inl message \<Rightarrow> (False, protocol_error Q 0x109 message s)))
      else if ty = FRAME_DATA \<or> ty = FRAME_HEADERS \<or> ty = 0x2 \<or> ty = 0x6 \<or> ty = 0x8 \<or> ty = 0x9 then
        (False, protocol_error Q 0x105 ''unexpected frame on control stream'' s)
      else if ty = FRAME_GOAWAY \<and> \<not> s_drain_emitted (sess s) \<and> \<not> closed s then
        (True, push_ev EvDraining (upd (\<lambda>w. w\<lparr>s_drain_emitted := True\<rparr>) s))
      else (True, s))"

definition control_step :: "env \<Rightarrow> 'c quic \<Rightarrow> u64 \<Rightarrow> 'c sys \<Rightarrow> bool \<times> 'c sys" where
  "control_step E Q i s =
     (case stream_next_frame E i s of
        (None, s) \<Rightarrow> (False, s)
      | (Some (ty, payload), s) \<Rightarrow>
          (case control_frame E Q i (stream_headers_done s i) ty (pb_data payload) s of
             (go, s) \<Rightarrow> (go, drop_buffer payload s)))"

lemma no_growth_insert_fresh:
  "no_growth s s' \<Longrightarrow> fp_buf (st_frames st) = ParserBuffer_new \<Longrightarrow> no_growth s (insert_stream i st s')"
  by (auto simp: no_growth_def frame_len_def get_stream_def insert_stream_def upd_def ParserBuffer_new_def)

lemma fp_buf_with_prefix [simp]: "st_frames (with_prefix r p) = FrameParser_new"
  "st_class_buf (with_prefix r p) = ParserBuffer_new"
  by (simp_all add: with_prefix_def Stream_new_def push_chunk_def Let_def)

lemma no_growth_queue_connect: "no_growth s s' \<Longrightarrow> no_growth s (queue_connect E s')"
  by (simp add: queue_connect_def Let_def no_growth_insert_fresh FrameParser_new_def split: sum.split)

lemma no_growth_apply_peer_settings: "no_growth s s' \<Longrightarrow> no_growth s (apply_peer_settings E ps s')"
proof -
  assume "no_growth s s'"
  moreover have "no_growth s (parse_server_connect_frames E i a)" if "no_growth s a" for i a
    using that no_growth_parse_server_connect no_growth_trans by blast
  ultimately show ?thesis
    by (simp add: apply_peer_settings_def Let_def no_growth_upd no_growth_queue_connect
        no_growth_mark_closed_after)
qed

lemma no_growth_control_frame: "no_growth s (snd (control_frame E Q i hdone ty p s))"
proof -
  have "no_growth s (protocol_error Q c m (set_headers_done i s))" for c m
    using no_growth_set_headers_done no_growth_protocol_error no_growth_trans by blast
  then show ?thesis
    by (simp add: control_frame_def Let_def no_growth_set_headers_done no_growth_apply_peer_settings
        no_growth_upd split: sum.split)
qed

lemma control_step_shrinks:
  "no_growth s (snd (control_step E Q i s))
   \<and> (fst (control_step E Q i s) \<longrightarrow> frame_len (snd (control_step E Q i s)) i < frame_len s i)"
proof (cases "stream_next_frame E i s")
  case (Pair r s1)
  show ?thesis
  proof (cases r)
    case None
    with Pair stream_next_frame_shrinks [OF Pair] show ?thesis by (simp add: control_step_def)
  next
    case (Some tp)
    obtain ty p where tp: "tp = (ty, p)" by (cases tp)
    obtain go s2 where c: "control_frame E Q i (stream_headers_done s1 i) ty (pb_data p) s1 = (go, s2)"
      by (cases "control_frame E Q i (stream_headers_done s1 i) ty (pb_data p) s1")
    have "no_growth s1 (drop_buffer p s2)"
      using no_growth_control_frame [of s1 E Q i "stream_headers_done s1 i" ty "pb_data p"] c by simp
    from no_growth_frame_step [OF Pair [unfolded Some] this] Pair Some tp c show ?thesis
      by (simp add: control_step_def)
  qed
qed

lemma control_step_len: "(True, s') = control_step E Q i s \<Longrightarrow> frame_len s' i < frame_len s i"
  using control_step_shrinks [of s E Q i] by (metis fst_conv snd_conv)

function parse_control_frames :: "env \<Rightarrow> 'c quic \<Rightarrow> u64 \<Rightarrow> 'c sys \<Rightarrow> 'c sys" where
  "parse_control_frames E Q i s =
     (if closed s then s
      else case control_step E Q i s of (go, s') \<Rightarrow> if go then parse_control_frames E Q i s' else s')"
  by pat_completeness auto
termination
  by (relation "measure (\<lambda>(E, Q, i, s). frame_len s i)") (auto dest!: control_step_len)

declare parse_control_frames.simps [simp del]

interpretation pcl: frame_loop "parse_control_frames E Q i" "control_step E Q i"
  "\<lambda>s. s_closed (sess s)" "\<lambda>s. frame_len s i" for E Q i
  by unfold_locales (simp_all add: parse_control_frames.simps [of E Q i] control_step_len [OF sym])

end
