(* ===== verification/Session_Readable.thy ===== *)
theory Session_Readable
  imports Session_Frames
begin

text \<open>
  Dispatch of received bytes by stream role, and the loop of \<^verbatim>\<open>on_readable\<close> that drains a readable
  stream of the connection.
\<close>

section \<open>Bytes for the control and CONNECT streams\<close>

definition recv_peer_control :: "env \<Rightarrow> 'c quic \<Rightarrow> u64 \<Rightarrow> bytes \<Rightarrow> bool \<Rightarrow> 'c sys \<Rightarrow> 'c sys" where
  "recv_peer_control E Q i chunk fin s =
     (let s = stream_push_bytes E i chunk s;
          s = parse_control_frames E Q i s;
          s = (if fin \<and> \<not> closed s
               then protocol_error Q 0x104 ''peer closed the HTTP/3 control stream'' s else s)
      in if frame_error s i then
           (let s = kill_recv Q i s in
            if \<not> closed s then
              (let s = push_ev (EvError ''malformed HTTP/3 control stream'') s;
                   s = mark_closed 0 [] True s
               in s\<lparr>conn := q_close Q (conn s) True 0 (as_bytes ''h3 control error'')\<rparr>)
            else s)
         else s)"

definition recv_connect :: "env \<Rightarrow> 'c quic \<Rightarrow> u64 \<Rightarrow> bytes \<Rightarrow> bool \<Rightarrow> 'c sys \<Rightarrow> 'c sys" where
  "recv_connect E Q i chunk fin s =
     (let s = stream_push_bytes E i chunk s;
          s = (if s_is_server (sess s) then parse_server_connect_frames E i s
               else parse_connect_frames E Q i s);
          s = (if frame_error s i \<and> \<not> closed s then
                 (let s = kill_recv Q i s;
                      s = push_ev (EvError ''malformed HTTP/3 CONNECT stream'') s;
                      s = mark_closed 0 [] True s
                  in s\<lparr>conn := q_close Q (conn s) True 0 (as_bytes ''h3 connect error'')\<rparr>)
               else s)
      in if fin \<and> \<not> closed s then
           (if (case get_stream s i of None \<Rightarrow> False | Some st \<Rightarrow> pb_data (fp_buf (st_frames st)) \<noteq> [])
               \<or> pb_data (s_capsule_buf (sess s)) \<noteq> []
            then protocol_error Q 0x106 ''truncated CONNECT frame or capsule'' s
            else mark_closed 0 [] True s)
         else s)"

definition finish_recv :: "u64 \<Rightarrow> 'c sys \<Rightarrow> 'c sys" where
  "finish_recv i s =
     push_ev (EvStreamFinished i) (modify_stream i (\<lambda>st. st\<lparr>st_recv_dead := True\<rparr>) s)"

section \<open>Classifying a stream the peer opened\<close>

text \<open>A classified stream takes its role, and its accumulator is released.\<close>

definition set_role :: "u64 \<Rightarrow> role \<Rightarrow> 'c sys \<Rightarrow> 'c sys" where
  "set_role i r s = clear_class_buf i (modify_stream i (\<lambda>st. st\<lparr>st_role := r\<rparr>) s)"

definition incoming_stream :: "u64 \<Rightarrow> bool \<Rightarrow> nat \<Rightarrow> bytes \<Rightarrow> bool \<Rightarrow> 'c sys \<Rightarrow> 'c sys" where
  "incoming_stream i bidi prefix data fin s =
     (let s = set_role i (WtData bidi) s;
          s = modify_stream i (\<lambda>st. st\<lparr>st_recv_prefix := of_nat prefix\<rparr>) s
      in case account_incoming bidi s of
           (False, s) \<Rightarrow> s
         | (True, s) \<Rightarrow>
            (case account_receive i (of_nat (length data)) s of
               (False, s) \<Rightarrow> s
             | (True, s) \<Rightarrow>
                (let s = push_ev (EvIncomingStream i bidi) s;
                     s = (if data \<noteq> [] then push_ev (EvStreamData i data) s else s)
                 in if fin then finish_recv i s else s)))"

definition extend_class_buf :: "env \<Rightarrow> u64 \<Rightarrow> bytes \<Rightarrow> stream \<Rightarrow> 'c sys \<Rightarrow> bool \<times> 'c sys" where
  "extend_class_buf E i chunk st s =
     (case extend_from_slice (e_alloc E) (memory s) (st_class_buf st) chunk of
        (ok, m, b) \<Rightarrow> (ok, set_memory m (modify_stream i (\<lambda>st. st\<lparr>st_class_buf := b\<rparr>) s)))"

definition class_bytes :: "'c sys \<Rightarrow> u64 \<Rightarrow> bytes" where
  "class_bytes s i = (case get_stream s i of None \<Rightarrow> [] | Some st \<Rightarrow> pb_data (st_class_buf st))"

definition other_has_role :: "'c sys \<Rightarrow> u64 \<Rightarrow> role \<Rightarrow> bool" where
  "other_has_role s i r = list_ex (\<lambda>(other, st). other \<noteq> i \<and> st_role st = r) (s_streams (sess s))"

text \<open>
  A stream that turns out to be the control stream re-enters \<^verbatim>\<open>process_recv\<close>, whose role is then
  \<^verbatim>\<open>PeerControl\<close>: that branch is \<open>recv_peer_control\<close>.
\<close>

definition resolve_pending_uni :: "env \<Rightarrow> 'c quic \<Rightarrow> u64 \<Rightarrow> bytes \<Rightarrow> bool \<Rightarrow> 'c sys \<Rightarrow> 'c sys" where
  "resolve_pending_uni E Q i chunk fin s =
     (case get_stream s i of
        None \<Rightarrow> s
      | Some st \<Rightarrow>
         (case extend_class_buf E i chunk st s of
            (False, s) \<Rightarrow> parser_limit_exceeded s
          | (True, s) \<Rightarrow>
             (let buf = class_bytes s i in
              case read_varint buf of
                None \<Rightarrow> if fin then remove_stream i s else s
              | Some (ty, n) \<Rightarrow>
                 (if ty = H3_CONTROL_STREAM_TYPE then
                    (if other_has_role s i PeerControl
                     then protocol_error Q 0x103 ''duplicate HTTP/3 control stream'' s
                     else recv_peer_control E Q i (drop n buf) fin (set_role i PeerControl s))
                  else if ty = QPACK_ENCODER_STREAM_TYPE \<or> ty = QPACK_DECODER_STREAM_TYPE then
                    (let encoder = (ty = QPACK_ENCODER_STREAM_TYPE) in
                     if other_has_role s i (PeerQpack encoder)
                     then protocol_error Q 0x103 ''duplicate QPACK stream'' s
                     else
                       (let s = set_role i (PeerQpack encoder) s in
                        if fin then protocol_error Q 0x104 ''peer closed a critical QPACK stream'' s else s))
                  else if ty = WT_UNI_STREAM_TYPE then
                    (case read_varint (drop n buf) of
                       None \<Rightarrow> if fin then remove_stream i s else s
                     | Some (session, n2) \<Rightarrow>
                        (if session \<noteq> CONNECT_ID then
                           set_role i Ignored (s\<lparr>conn := q_stream_shutdown Q (conn s) i ShutRead 0\<rparr>)
                         else incoming_stream i False (n + n2) (drop (n + n2) buf) fin s))
                  else set_role i Ignored s))))"

definition resolve_pending_bidi :: "env \<Rightarrow> 'c quic \<Rightarrow> u64 \<Rightarrow> bytes \<Rightarrow> bool \<Rightarrow> 'c sys \<Rightarrow> 'c sys" where
  "resolve_pending_bidi E Q i chunk fin s =
     (case get_stream s i of
        None \<Rightarrow> s
      | Some st \<Rightarrow>
         (case extend_class_buf E i chunk st s of
            (False, s) \<Rightarrow> parser_limit_exceeded s
          | (True, s) \<Rightarrow>
             (let buf = class_bytes s i in
              case read_varint buf of
                None \<Rightarrow> if fin then remove_stream i s else s
              | Some (signal, n) \<Rightarrow>
                 (if signal \<noteq> WT_BIDI_FRAME_TYPE then
                    set_role i Ignored (s\<lparr>conn := q_stream_shutdown Q (conn s) i ShutRead 0\<rparr>)
                  else case read_varint (drop n buf) of
                    None \<Rightarrow> if fin then remove_stream i s else s
                  | Some (session, n2) \<Rightarrow>
                     (if session \<noteq> CONNECT_ID then
                        set_role i Ignored (s\<lparr>conn := q_stream_shutdown Q (conn s) i ShutRead 0\<rparr>)
                      else incoming_stream i True (n + n2) (drop (n + n2) buf) fin s)))))"

section \<open>Dispatch\<close>

definition process_recv :: "env \<Rightarrow> 'c quic \<Rightarrow> u64 \<Rightarrow> bytes \<Rightarrow> bool \<Rightarrow> 'c sys \<Rightarrow> 'c sys" where
  "process_recv E Q i chunk fin s =
     (case map_option st_role (get_stream s i) of
        None \<Rightarrow> s
      | Some LocalControlPlane \<Rightarrow> s
      | Some (PeerQpack _) \<Rightarrow>
          if fin then protocol_error Q 0x104 ''peer closed a critical QPACK stream'' s else s
      | Some Ignored \<Rightarrow>
          if fin then modify_stream i (\<lambda>st. st\<lparr>st_recv_dead := True\<rparr>) s else s
      | Some PeerControl \<Rightarrow> recv_peer_control E Q i chunk fin s
      | Some Connect \<Rightarrow> recv_connect E Q i chunk fin s
      | Some (WtData _) \<Rightarrow>
          (case account_receive i (of_nat (length chunk)) s of
             (False, s) \<Rightarrow> s
           | (True, s) \<Rightarrow>
              (let s = (if chunk \<noteq> [] then push_ev (EvStreamData i chunk) s else s)
               in if fin then finish_recv i s else s))
      | Some PendingUni \<Rightarrow> resolve_pending_uni E Q i chunk fin s
      | Some PendingBidi \<Rightarrow> resolve_pending_bidi E Q i chunk fin s)"

section \<open>Draining a readable stream\<close>

text \<open>
  The loop of \<^verbatim>\<open>on_readable\<close> reads until the connection has nothing left. The model gives it a
  number of rounds: \<open>OutOfFuel\<close> means they did not suffice, \<open>Panicked\<close> that the map was indexed
  at a missing stream (\<^verbatim>\<open>self.streams[&id]\<close>).
\<close>

datatype 'a outcome = Done 'a | Panicked | OutOfFuel

definition entry_or_insert :: "u64 \<Rightarrow> 'c sys \<Rightarrow> 'c sys" where
  "entry_or_insert i s =
     (case get_stream s i of
        Some _ \<Rightarrow> s
      | None \<Rightarrow> insert_stream i (Stream_new (classify_new i (s_is_server (sess s)))) s)"

definition READ_BUF :: nat where "READ_BUF = 16 * 1024"

text \<open>How the loop is left: by \<^verbatim>\<open>return\<close> (\<^const>\<open>None\<close>) or by \<^verbatim>\<open>break\<close>, with the reset code if any.\<close>

fun read_loop ::
  "nat \<Rightarrow> env \<Rightarrow> 'c quic \<Rightarrow> u64 \<Rightarrow> bool \<Rightarrow> 'c sys \<Rightarrow> (u64 option option \<times> 'c sys) outcome" where
  "read_loop 0 E Q i backpressured s = OutOfFuel"
| "read_loop (Suc n) E Q i backpressured s =
     (case get_stream s i of
        None \<Rightarrow> Panicked
      | Some st \<Rightarrow>
         (if backpressured \<and>
             (is_wt_data (st_role st)
              \<or> (st_role st = PendingUni \<and>
                 (case read_varint (pb_data (st_class_buf st)) of
                    None \<Rightarrow> False | Some (ty, _) \<Rightarrow> ty = WT_UNI_STREAM_TYPE)))
          then Done (None, s)
          else
            (let read_len = (if backpressured \<and> st_role st = PendingUni then 1 else READ_BUF);
                 final_size = q_stream_recv_final_size Q (conn s) i
             in case q_stream_recv Q (conn s) i read_len of
                  (Inr (chunk, f), c) \<Rightarrow>
                    (let s = process_recv E Q i chunk f (s\<lparr>conn := c\<rparr>) in
                     if closed s then Done (None, s)
                     else if f \<or> chunk = [] then Done (Some None, s)
                     else read_loop n E Q i backpressured s)
                | (Inl (QStreamReset code), c) \<Rightarrow>
                    (let s = s\<lparr>conn := c\<rparr> in
                     case final_size of
                       None \<Rightarrow> Done (Some (Some code), s)
                     | Some size' \<Rightarrow>
                        (if is_wt_data (st_role st) then
                           (let missing = saturating_sub (saturating_sub size' (st_recv_prefix st))
                                            (st_recv_payload st)
                            in case account_receive i missing s of
                                 (False, s) \<Rightarrow> Done (None, s)
                               | (True, s) \<Rightarrow> Done (Some (Some code), s))
                         else Done (Some (Some code), s)))
                | (Inl _, c) \<Rightarrow> Done (Some None, s\<lparr>conn := c\<rparr>))))"

definition recv_reset :: "'c quic \<Rightarrow> u64 \<Rightarrow> u64 \<Rightarrow> 'c sys \<Rightarrow> 'c sys" where
  "recv_reset Q i code s =
     (let role = map_option st_role (get_stream s i);
          s = modify_stream i (\<lambda>st. st\<lparr>st_recv_dead := True\<rparr>) s
      in case role of
           Some (WtData _) \<Rightarrow>
             (let app = (case http_code_to_webtransport_code code of None \<Rightarrow> code | Some a \<Rightarrow> a)
              in push_ev (EvStreamReset i app) s)
         | Some PeerControl \<Rightarrow> protocol_error Q 0x104 ''peer reset a critical HTTP/3 stream'' s
         | Some (PeerQpack _) \<Rightarrow> protocol_error Q 0x104 ''peer reset a critical HTTP/3 stream'' s
         | Some Connect \<Rightarrow>
             (if \<not> closed s then
                (let s = (if \<not> s_ready (sess s)
                          then push_ev (EvError (''server reset the WebTransport session stream (code ''
                                 @ show_dec (unat code) @ '')'')) s
                          else s)
                 in mark_closed (ucast code) [] True s)
              else s)
         | _ \<Rightarrow> s)"

definition on_readable :: "nat \<Rightarrow> env \<Rightarrow> 'c quic \<Rightarrow> u64 \<Rightarrow> bool \<Rightarrow> 'c sys \<Rightarrow> 'c sys outcome" where
  "on_readable fuel E Q i backpressured s =
     (if closed s then Done s
      else
        (let s = entry_or_insert i s in
         case get_stream s i of
           None \<Rightarrow> Panicked
         | Some st \<Rightarrow>
            (if st_recv_dead st then Done s
             else if (st_paused st \<or> backpressured) \<and> is_wt_data (st_role st) then Done s
             else if backpressured \<and> st_role st = PendingBidi then Done s
             else case read_loop fuel E Q i backpressured s of
               Done (None, s) \<Rightarrow> Done s
             | Done (Some None, s) \<Rightarrow> Done s
             | Done (Some (Some code), s) \<Rightarrow> Done (recv_reset Q i code s)
             | Panicked \<Rightarrow> Panicked
             | OutOfFuel \<Rightarrow> OutOfFuel)))"

end
