(* ===== verification/Session_Flush.thy ===== *)
theory Session_Flush
  imports Session_Readable
begin

text \<open>
  The send side of \<^verbatim>\<open>session.rs\<close>: \<^verbatim>\<open>flush\<close>, which runs after every event, grants credit, queues
  capsules, hands queued chunks to the connection, prunes finished streams and drives the graceful
  close. \<^verbatim>\<open>flush\<close> is the composition of the steps defined here, in their order.
\<close>

section \<open>Credit granted to the peer\<close>

definition flush_terminal_error :: "'c quic \<Rightarrow> 'c sys \<Rightarrow> 'c sys" where
  "flush_terminal_error Q s =
     (case s_terminal_error (sess s) of
        None \<Rightarrow> s
      | Some (code, message) \<Rightarrow>
          (upd (\<lambda>w. w\<lparr>s_terminal_error := None\<rparr>) s)\<lparr>conn := q_close Q (conn s) True code message\<rparr>)"

definition flush_grant :: "'c sys \<Rightarrow> 'c sys" where
  "flush_grant s =
     (if s_ready (sess s) \<and> \<not> s_fc_credit_granted (sess s) \<and> \<not> closed s then
        (let s = upd (\<lambda>w. w\<lparr>s_fc_credit_granted := True, s_fc_max_data_local := WT_GRANT_MAX_DATA,
                            s_fc_max_streams_local := (\<lambda>_. WT_GRANT_MAX_STREAMS)\<rparr>) s;
             s = queue_session_capsule WT_MAX_DATA_CAPSULE WT_GRANT_MAX_DATA s;
             s = queue_session_capsule WT_MAX_STREAMS_BIDI_CAPSULE WT_GRANT_MAX_STREAMS s
         in queue_session_capsule WT_MAX_STREAMS_UNI_CAPSULE WT_GRANT_MAX_STREAMS s)
      else s)"

definition replenish_data :: "'c sys \<Rightarrow> 'c sys" where
  "replenish_data s =
     (if saturating_sub (s_fc_max_data_local (sess s)) (s_fc_data_received (sess s))
           \<le> WT_GRANT_MAX_DATA div 2 then
        (let limit = min (saturating_add (s_fc_data_received (sess s)) WT_GRANT_MAX_DATA)
                       (push_bit 62 1 - 1)
         in if limit > s_fc_max_data_local (sess s)
            then queue_session_capsule WT_MAX_DATA_CAPSULE limit
                   (upd (\<lambda>w. w\<lparr>s_fc_max_data_local := limit\<rparr>) s)
            else s)
      else s)"

definition replenish_streams :: "bool \<Rightarrow> 'c sys \<Rightarrow> 'c sys" where
  "replenish_streams bidi s =
     (if saturating_sub (s_fc_max_streams_local (sess s) bidi) (s_fc_streams_received (sess s) bidi)
           \<le> WT_GRANT_MAX_STREAMS div 2 then
        (let limit = min (saturating_add (s_fc_streams_received (sess s) bidi) WT_GRANT_MAX_STREAMS)
                       (push_bit 60 1)
         in if limit > s_fc_max_streams_local (sess s) bidi
            then queue_session_capsule
                   (if \<not> bidi then WT_MAX_STREAMS_UNI_CAPSULE else WT_MAX_STREAMS_BIDI_CAPSULE) limit
                   (upd (\<lambda>w. w\<lparr>s_fc_max_streams_local := (s_fc_max_streams_local w)(bidi := limit)\<rparr>) s)
            else s)
      else s)"

definition flush_replenish :: "'c sys \<Rightarrow> 'c sys" where
  "flush_replenish s =
     (if s_ready (sess s) \<and> s_fc_credit_granted (sess s) \<and> uses_session_flow_control (sess s)
         \<and> \<not> closed s
      then replenish_streams True (replenish_streams False (replenish_data s))
      else s)"

section \<open>The close capsule\<close>

definition close_capsule :: "u32 \<Rightarrow> bytes \<Rightarrow> bytes" where
  "close_capsule code reason =
     (let value' = u32_to_be_bytes code @ reason;
          capsule = put_varint (of_nat (length value')) (put_varint WT_CLOSE_SESSION_CAPSULE [])
      in frame FRAME_DATA (capsule @ value'))"

definition flush_close_capsule :: "'c sys \<Rightarrow> 'c sys" where
  "flush_close_capsule s =
     (case s_close_req (sess s) of
        None \<Rightarrow> s
      | Some req \<Rightarrow>
         (if \<not> cr_capsule_queued req then
            (let s = upd (\<lambda>w. w\<lparr>s_close_req := Some (req\<lparr>cr_capsule_queued := True\<rparr>)\<rparr>) s;
                 body = close_capsule (cr_code req) (cr_reason req)
             in case get_stream s CONNECT_ID of
                  Some _ \<Rightarrow>
                    modify_stream CONNECT_ID (\<lambda>st. (push_chunk body None st)\<lparr>st_fin_queued := True\<rparr>) s
                | None \<Rightarrow> upd (\<lambda>w. w\<lparr>s_want_quic_close := Some (cr_code req, cr_reason req)\<rparr>) s)
          else s))"

section \<open>Sending queued chunks\<close>

text \<open>
  The \<^verbatim>\<open>while let Some(front)\<close> loop of \<^verbatim>\<open>flush_stream\<close>: it goes on only after the front chunk was
  sent to its end and popped. \<open>fs_go\<close> tells that the queue was emptied (the loop ended by itself).
\<close>

record 'c flush_state =
  fs_conn :: 'c
  fs_evs :: "ev list"
  fs_wt_sent :: u64
  fs_out :: "out_chunk list"
  fs_send_payload :: u64
  fs_fin_sent :: bool
  fs_go :: bool

definition drained_acks :: "out_chunk list \<Rightarrow> ev list" where
  "drained_acks out = List.map_filter (\<lambda>c. map_option EvWriteAck (oc_request_id c)) out"

text \<open>How much of a chunk may be sent: its rest, within the session data limit for payload.\<close>

definition chunk_rest :: "out_chunk \<Rightarrow> nat" where
  "chunk_rest front = length (oc_data front) - oc_off front"

definition chunk_amount :: "bool \<Rightarrow> u64 \<Rightarrow> u64 \<Rightarrow> u64 \<Rightarrow> out_chunk \<Rightarrow> nat" where
  "chunk_amount limited max_data data_sent wt_sent front =
     (let allowance = saturating_sub max_data (saturating_add data_sent wt_sent)
      in if limited then min (chunk_rest front) (unat allowance) else chunk_rest front)"

fun flush_out ::
  "'c quic \<Rightarrow> u64 \<Rightarrow> bool \<Rightarrow> bool \<Rightarrow> u64 \<Rightarrow> u64 \<Rightarrow> out_chunk list \<Rightarrow> 'c flush_state \<Rightarrow> 'c flush_state" where
  "flush_out Q i enforce wt max_data data_sent [] fs = fs\<lparr>fs_out := [], fs_go := True\<rparr>"
| "flush_out Q i enforce wt max_data data_sent (front # rest) fs =
     (let remaining_len = chunk_rest front;
          is_payload = (wt \<and> oc_request_id front \<noteq> None);
          amount = chunk_amount (enforce \<and> is_payload) max_data data_sent (fs_wt_sent fs) front;
          stop = fs\<lparr>fs_out := front # rest, fs_go := False\<rparr>
      in if amount = 0 \<and> remaining_len \<noteq> 0 then stop
         else case q_stream_send Q (fs_conn fs) i (take amount (drop (oc_off front) (oc_data front))) False of
           (Inr sent, c) \<Rightarrow>
             (let fs = fs\<lparr>fs_conn := c\<rparr>;
                  fs = (if is_payload
                        then fs\<lparr>fs_wt_sent := fs_wt_sent fs + of_nat sent,
                                fs_send_payload := fs_send_payload fs + of_nat sent\<rparr> else fs);
                  front = front\<lparr>oc_off := oc_off front + sent\<rparr>;
                  popped = oc_off front \<ge> length (oc_data front);
                  fs = (if popped
                        then fs\<lparr>fs_evs := fs_evs fs @ drained_acks [front]\<rparr> else fs)
              in if sent < remaining_len
                 then fs\<lparr>fs_out := (if popped then rest else front # rest), fs_go := False\<rparr>
                 else flush_out Q i enforce wt max_data data_sent rest fs)
         | (Inl (QStreamStopped code), c) \<Rightarrow>
             (let app = (case http_code_to_webtransport_code code of None \<Rightarrow> code | Some a \<Rightarrow> a)
              in fs\<lparr>fs_conn := c,
                    fs_evs := fs_evs fs @ [EvStreamStopSending i app] @ drained_acks (front # rest),
                    fs_out := [], fs_fin_sent := True, fs_go := False\<rparr>)
         | (Inl _, c) \<Rightarrow> stop\<lparr>fs_conn := c\<rparr>)"

definition flush_stream :: "'c quic \<Rightarrow> u64 \<Rightarrow> 'c sys \<times> u64 \<Rightarrow> 'c sys \<times> u64" where
  "flush_stream Q i sw =
     (let s = reconcile_send_final_size Q i (fst sw);
          wt_sent = snd sw;
          enforce = uses_session_flow_control (sess s)
      in case get_stream s i of
           None \<Rightarrow> (s, wt_sent)
         | Some st \<Rightarrow>
            (let fs = flush_out Q i enforce (is_wt_data (st_role st)) (s_fc_max_data_remote (sess s))
                        (s_fc_data_sent (sess s)) (st_out st)
                        \<lparr>fs_conn = conn s, fs_evs = evs s, fs_wt_sent = wt_sent, fs_out = st_out st,
                         fs_send_payload = st_send_payload st, fs_fin_sent = st_fin_sent st, fs_go = False\<rparr>;
                 s = (modify_stream i (\<lambda>st. st\<lparr>st_out := fs_out fs, st_send_payload := fs_send_payload fs,
                                              st_fin_sent := fs_fin_sent fs\<rparr>) s)
                       \<lparr>conn := fs_conn fs, evs := fs_evs fs\<rparr>
             in if fs_go fs \<and> st_fin_queued st \<and> \<not> fs_fin_sent fs then
                  (case q_stream_send Q (conn s) i [] True of
                     (Inr _, c) \<Rightarrow>
                       ((modify_stream i (\<lambda>st. st\<lparr>st_fin_sent := True\<rparr>) s)\<lparr>conn := c\<rparr>, fs_wt_sent fs)
                   | (Inl _, c) \<Rightarrow> (s\<lparr>conn := c\<rparr>, fs_wt_sent fs))
                else (s, fs_wt_sent fs)))"

definition flush_streams :: "env \<Rightarrow> 'c quic \<Rightarrow> 'c sys \<Rightarrow> 'c sys" where
  "flush_streams E Q s =
     (let ids = e_order E (hm_keys (s_streams (sess s)));
          (s, wt_sent) = foldl (\<lambda>sw i. flush_stream Q i sw) (s, 0) ids
      in upd (\<lambda>w. w\<lparr>s_fc_data_sent := s_fc_data_sent w + wt_sent\<rparr>) s)"

section \<open>Blocked signals\<close>

definition has_pending_payload :: "wt_session \<Rightarrow> bool" where
  "has_pending_payload w =
     list_ex (\<lambda>(_, st). is_wt_data (st_role st) \<and> list_ex (\<lambda>c. oc_request_id c \<noteq> None) (st_out st))
       (s_streams w)"

definition signal_data_blocked :: "'c sys \<Rightarrow> 'c sys" where
  "signal_data_blocked s =
     (let limit = s_fc_max_data_remote (sess s) in
      if s_fc_data_sent (sess s) \<ge> limit \<and> s_data_blocked_at (sess s) \<noteq> Some limit
         \<and> has_pending_payload (sess s)
      then upd (\<lambda>w. w\<lparr>s_data_blocked_at := Some limit\<rparr>)
             (queue_session_capsule WT_DATA_BLOCKED_CAPSULE limit s)
      else s)"

definition signal_bidi_blocked :: "'c sys \<Rightarrow> 'c sys" where
  "signal_bidi_blocked s =
     (let limit = s_fc_max_streams_bidi_remote (sess s);
          opened = (s_next_bidi (sess s) - first_wt_id (s_is_server (sess s)) True) div 4 in
      if opened \<ge> limit \<and> list_ex fst (s_pending_opens (sess s))
         \<and> s_streams_bidi_blocked_at (sess s) \<noteq> Some limit
      then upd (\<lambda>w. w\<lparr>s_streams_bidi_blocked_at := Some limit\<rparr>)
             (queue_session_capsule WT_STREAMS_BLOCKED_BIDI_CAPSULE limit s)
      else s)"

definition signal_uni_blocked :: "'c sys \<Rightarrow> 'c sys" where
  "signal_uni_blocked s =
     (let limit = s_fc_max_streams_uni_remote (sess s);
          opened = (s_next_uni (sess s) - first_wt_id (s_is_server (sess s)) False) div 4 in
      if opened \<ge> limit \<and> list_ex (\<lambda>p. \<not> fst p) (s_pending_opens (sess s))
         \<and> s_streams_uni_blocked_at (sess s) \<noteq> Some limit
      then upd (\<lambda>w. w\<lparr>s_streams_uni_blocked_at := Some limit\<rparr>)
             (queue_session_capsule WT_STREAMS_BLOCKED_UNI_CAPSULE limit s)
      else s)"

definition signal_flow_control_blocked :: "'c sys \<Rightarrow> 'c sys" where
  "signal_flow_control_blocked s =
     (if \<not> uses_session_flow_control (sess s) \<or> closed s then s
      else signal_uni_blocked (signal_bidi_blocked (signal_data_blocked s)))"

section \<open>Pruning\<close>

definition keep_stream :: "bool \<Rightarrow> u64 \<Rightarrow> stream \<Rightarrow> bool" where
  "keep_stream is_server i st =
     (if i = CONNECT_ID \<or> st_role st = LocalControlPlane then True
      else
        (let is_uni = ((i AND 2) \<noteq> 0);
             our_init = (if is_server then (i AND 1) = 1 else (i AND 1) = 0);
             can_recv = (\<not> is_uni \<or> \<not> our_init);
             can_send = (\<not> is_uni \<or> our_init);
             recv_done = (\<not> can_recv \<or> st_recv_dead st);
             send_done = (\<not> can_send \<or> (st_fin_sent st \<and> st_out st = []))
         in \<not> (recv_done \<and> send_done)))"

definition prune_streams :: "'c sys \<Rightarrow> 'c sys" where
  "prune_streams s =
     (let srv = s_is_server (sess s);
          gone = filter (\<lambda>(i, st). \<not> keep_stream srv i st) (s_streams (sess s))
      in upd (\<lambda>w. w\<lparr>s_streams := filter (\<lambda>(i, st). keep_stream srv i st) (s_streams w),
                    s_parser_memory := foldl (\<lambda>m kv. drop_stream m (snd kv)) (s_parser_memory w) gone\<rparr>) s)"

section \<open>The graceful close and the whole flush\<close>

definition connect_drained :: "wt_session \<Rightarrow> bool" where
  "connect_drained w =
     (case map_of (s_streams w) CONNECT_ID of
        None \<Rightarrow> True | Some st \<Rightarrow> st_out st = [] \<and> st_fin_sent st)"

definition flush_quic_close :: "'c quic \<Rightarrow> 'c sys \<Rightarrow> 'c sys" where
  "flush_quic_close Q s =
     (if \<not> s_quic_close_issued (sess s) then
        (let s = (if s_want_quic_close (sess s) = None then
                    (case s_close_req (sess s) of
                       None \<Rightarrow> s
                     | Some req \<Rightarrow>
                         if cr_capsule_queued req \<and> connect_drained (sess s)
                         then upd (\<lambda>w. w\<lparr>s_want_quic_close := Some (cr_code req, cr_reason req)\<rparr>) s
                         else s)
                  else s)
         in if s_want_quic_close (sess s) \<noteq> None then
              (if s_close_deferred_once (sess s) then
                 (upd (\<lambda>w. w\<lparr>s_want_quic_close := None, s_quic_close_issued := True\<rparr>) s)
                   \<lparr>conn := q_close Q (conn s) True H3_NO_ERROR []\<rparr>
               else upd (\<lambda>w. w\<lparr>s_close_deferred_once := True\<rparr>) s)
            else s)
      else s)"

definition flush :: "env \<Rightarrow> 'c quic \<Rightarrow> 'c sys \<Rightarrow> 'c sys" where
  "flush E Q s =
     (let s = flush_terminal_error Q s;
          s = flush_grant s;
          s = flush_replenish s;
          s = flush_close_capsule s;
          s = release_pending_opens s;
          s = flush_streams E Q s;
          s = signal_flow_control_blocked s;
          s = prune_streams s
      in flush_quic_close Q s)"

end
