(* ===== verification/Session_Rel.thy ===== *)
theory Session_Rel
  imports Session_Flush
begin

text \<open>
  What every operation of a session preserves. The locale \<open>session_relation\<close> lists the primitive
  effects the operations are made of (ordinary events, updates of untracked fields, changes of a
  stream, closing, draining, becoming ready as a client or as a server and on what conditions, calls
  on the connection); a relation between an
  earlier and a later state that is closed under them is closed under every operation of the
  receive side (\<open>recv_relation\<close>) and of the send side. It is interpreted on the relations the
  properties need.
\<close>

named_theorems rel_rules \<open>operations preserve the relation\<close>

definition ordinary :: "ev \<Rightarrow> bool" where
  "ordinary e = (case e of EvClosed _ _ _ \<Rightarrow> False | EvDraining \<Rightarrow> False | EvReady _ _ \<Rightarrow> False
     | EvServerReady _ _ _ _ _ _ _ _ \<Rightarrow> False | _ \<Rightarrow> True)"

lemma ordinary_simps [simp]:
  "\<not> ordinary (EvReady p h)" "\<not> ordinary (EvServerReady a b c d e f g h')" "ordinary (EvError m)"
  "ordinary (EvDatagram d')" "ordinary (EvIncomingStream i b')" "ordinary (EvStreamData i d')"
  "ordinary (EvStreamFinished i)" "ordinary (EvStreamReset i n)" "ordinary (EvStreamStopSending i n)"
  "ordinary (EvStreamOpened i n)" "ordinary (EvWriteAck i)" "ordinary (EvDatagramAck i b')"
  "ordinary (EvStats i n1 n2 n3 n4 n5 d1 d2 d3)" "ordinary (EvKeyingMaterial i k)"
  "\<not> ordinary EvDraining" "\<not> ordinary (EvClosed c' r' b')"
  by (simp_all add: ordinary_def)

text \<open>The configuration of a session never changes.\<close>

definition config ::
  "wt_session \<Rightarrow> bool \<times> string \<times> string \<times> string option \<times> (string \<times> string) list \<times> string list
    \<times> string list \<times> string list option \<times> (string \<times> string) list \<times> (string \<times> u16) option" where
  "config w = (s_is_server w, s_authority w, s_path w, s_origin w, s_extra_headers w, s_protocols w,
     s_supported_protocols w, s_allowed_origins w, s_response_headers w, s_remote_addr w)"

definition untracked :: "(wt_session \<Rightarrow> wt_session) \<Rightarrow> bool" where
  "untracked f \<longleftrightarrow>
     (\<forall>w. config (f w) = config w \<and> s_closed (f w) = s_closed w \<and> s_ready (f w) = s_ready w
        \<and> s_drain_emitted (f w) = s_drain_emitted w \<and> s_streams (f w) = s_streams w)"

text \<open>A subprotocol the server chose is one the client offered; the address of a server session's peer.\<close>

definition offered :: "string list \<Rightarrow> string option \<Rightarrow> bool" where
  "offered ps p = (case p of None \<Rightarrow> True | Some q \<Rightarrow> q \<in> set ps)"

definition peer_ip :: "wt_session \<Rightarrow> string" where
  "peer_ip w = (case s_remote_addr w of Some a \<Rightarrow> fst a | None \<Rightarrow> [])"

definition peer_port :: "wt_session \<Rightarrow> u16" where
  "peer_port w = (case s_remote_addr w of Some a \<Rightarrow> snd a | None \<Rightarrow> 0)"

locale recv_relation =
  fixes R :: "'c sys \<Rightarrow> 'c sys \<Rightarrow> bool"
    and Q :: "'c quic"
  assumes rel_refl: "R s s"
    and rel_trans: "R a b \<Longrightarrow> R b c \<Longrightarrow> R a c"
    and rel_push_ev: "ordinary e \<Longrightarrow> R s (push_ev e s)"
    and rel_upd: "untracked f \<Longrightarrow> R s (upd f s)"
    and rel_modify: "R s (modify_stream i g s)"
    and rel_insert: "R s (insert_stream i st s)"
    and rel_mark_closed: "R s (mark_closed code reason remote s)"
    and rel_drain: "\<not> s_drain_emitted (sess s) \<Longrightarrow>
      R s (push_ev EvDraining (upd (\<lambda>w. w\<lparr>s_drain_emitted := True\<rparr>) s))"
    and rel_ready: "\<not> s_ready (sess s) \<Longrightarrow> offered (s_protocols (sess s)) p \<Longrightarrow>
      R s (push_ev (EvReady p hs) (upd (\<lambda>w. w\<lparr>s_ready := True\<rparr>) s))"
    and rel_accept: "origin_permitted (s_allowed_origins (sess s)) orig \<Longrightarrow>
      R s (push_ev (EvServerReady authority path orig extra req (select_protocol (s_supported_protocols (sess s)) req)
        (peer_ip (sess s)) (peer_port (sess s))) (upd (\<lambda>w. w\<lparr>s_ready := True\<rparr>) s))"
    and rel_close: "R s (s\<lparr>conn := q_close Q (conn s) app code' msg\<rparr>)"
    and rel_shutdown: "R s (s\<lparr>conn := q_stream_shutdown Q (conn s) i dir code'\<rparr>)"
begin

lemma after [rel_rules]:
  "R a s \<Longrightarrow> ordinary e \<Longrightarrow> R a (push_ev e s)"
  "R a s \<Longrightarrow> untracked f \<Longrightarrow> R a (upd f s)"
  "R a s \<Longrightarrow> R a (modify_stream i g s)"
  "R a s \<Longrightarrow> R a (insert_stream i st s)"
  "R a s \<Longrightarrow> R a (mark_closed c r b s)"
  "R a s \<Longrightarrow> \<not> s_drain_emitted (sess s) \<Longrightarrow> R a (push_ev EvDraining (upd (\<lambda>w. w\<lparr>s_drain_emitted := True\<rparr>) s))"
  using rel_trans rel_push_ev rel_upd rel_modify rel_insert rel_mark_closed rel_drain by blast+

lemma after_ready [rel_rules]:
  "R a s \<Longrightarrow> \<not> s_ready (sess s) \<Longrightarrow> offered (s_protocols (sess s)) p \<Longrightarrow>
     R a (push_ev (EvReady p hs) (upd (\<lambda>w. w\<lparr>s_ready := True\<rparr>) s))"
  by (rule rel_trans, assumption) (rule rel_ready)

lemma after_accept:
  assumes "R a s" and "config (sess s') = config (sess s)" and "R s s'"
    and "origin_permitted (s_allowed_origins (sess s)) orig"
  shows "R a (push_ev (EvServerReady authority path orig extra req (select_protocol (s_supported_protocols (sess s)) req)
        (peer_ip (sess s)) (peer_port (sess s))) (upd (\<lambda>w. w\<lparr>s_ready := True\<rparr>) s'))"
proof -
  have "s_allowed_origins (sess s') = s_allowed_origins (sess s)"
    "s_supported_protocols (sess s') = s_supported_protocols (sess s)"
    "peer_ip (sess s') = peer_ip (sess s)" "peer_port (sess s') = peer_port (sess s)"
    using assms(2) by (simp_all add: config_def peer_ip_def peer_port_def)
  with rel_accept [of s' orig authority path extra req] assms(1,3,4) show ?thesis
    using rel_trans by metis
qed

lemma after_conn [rel_rules]:
  "R a s \<Longrightarrow> R a (s\<lparr>conn := q_close Q (conn s) x y z\<rparr>)"
  "R a s \<Longrightarrow> R a (s\<lparr>conn := q_stream_shutdown Q (conn s) i d n\<rparr>)"
  using rel_trans rel_close rel_shutdown by blast+

lemma untrackedI [rel_rules]:
  "(\<And>w. config (f w) = config w) \<Longrightarrow> (\<And>w. s_closed (f w) = s_closed w) \<Longrightarrow> (\<And>w. s_ready (f w) = s_ready w) \<Longrightarrow>
   (\<And>w. s_drain_emitted (f w) = s_drain_emitted w) \<Longrightarrow> (\<And>w. s_streams (f w) = s_streams w) \<Longrightarrow> untracked f"
  by (simp add: untracked_def)

lemma after_mem [rel_rules]:
  "R a s \<Longrightarrow> R a (set_memory m s)" "R a s \<Longrightarrow> R a (set_capsule_buf m b s)" "R a s \<Longrightarrow> R a (drop_buffer b s)"
  by (simp_all add: set_memory_def set_capsule_buf_def drop_buffer_def rel_rules config_def)

lemma after_clear [rel_rules]: "R a s \<Longrightarrow> R a (clear_class_buf i s)" "R a s \<Longrightarrow> R a (clear_frames_buf i s)"
  by (simp_all add: clear_class_buf_def clear_frames_buf_def rel_rules split: option.split prod.split)

lemma after_errors [rel_rules]:
  "R a s \<Longrightarrow> R a (parser_limit_exceeded s)" "R a s \<Longrightarrow> R a (flow_error m s)"
  "R a s \<Longrightarrow> R a (protocol_error Q c m s)" "R a s \<Longrightarrow> R a (kill_recv Q i s)"
  by (simp_all add: parser_limit_exceeded_def flow_error_def protocol_error_def kill_recv_def Let_def
      rel_rules config_def)

lemma after_account [rel_rules]:
  "R a s \<Longrightarrow> R a (snd (account_incoming b s))" "R a s \<Longrightarrow> R a (snd (account_receive i n s))"
  by (simp_all add: account_incoming_def account_receive_def Let_def rel_rules config_def)

lemma after_account_eq:
  "account_incoming b s = (x, s') \<Longrightarrow> R a s \<Longrightarrow> R a s'" "account_receive i n s = (x, s') \<Longrightarrow> R a s \<Longrightarrow> R a s'"
  using after_account(1) [of a s b] after_account(2) [of a s i n] by auto

lemma after_capsule [rel_rules]: "R a s \<Longrightarrow> R a (snd (apply_capsule ty v s))"
  by (simp add: apply_capsule_def apply_credit_def Let_def rel_rules config_def split: option.split prod.split)

lemma capsule_step_rel: "R s (snd (capsule_step E s))"
proof -
  have "R s s'" if "apply_capsule ty v (set_capsule_buf m b s) = (go, s')" for ty v m b go s'
    using after_capsule [of s "set_capsule_buf m b s" ty v] that by (simp add: rel_rules rel_refl)
  then show ?thesis
    by (auto simp: capsule_step_def Let_def rel_rules rel_refl split: option.split prod.split)
qed

lemma after_scan_capsules [rel_rules]: "R a s \<Longrightarrow> R a (scan_capsules E p s)"
proof -
  have loop: "R s' (capsule_loop E s')" for s'
    by (rule cl.loop_rel) (rule rel_refl, erule (1) rel_trans, rule capsule_step_rel)
  assume a: "R a s"
  then have "R a (capsule_loop E (set_capsule_buf m b s))" for m b
    by (rule rel_trans [OF _ loop, OF after_mem(2)])
  with a show ?thesis by (simp add: scan_capsules_def rel_rules split: prod.split bool.split)
qed

lemma after_next_frame: "stream_next_frame E i s = (r, s') \<Longrightarrow> R a s \<Longrightarrow> R a s'"
  by (auto simp: stream_next_frame_def rel_rules split: option.splits prod.splits)

lemma after_push_bytes [rel_rules]: "R a s \<Longrightarrow> R a (stream_push_bytes E i c s)"
  by (simp add: stream_push_bytes_def rel_rules split: option.split prod.split)

lemma after_connect_reply [rel_rules]:
  "R a s \<Longrightarrow> R a (reject_connect E i st s)" "R a s \<Longrightarrow> R a (set_headers_done i s)"
  by (simp_all add: reject_connect_def set_headers_done_def Let_def rel_rules
      split: sum.split option.split prod.split)

lemma after_accept_connect [rel_rules]: "R a s \<Longrightarrow> R a (accept_connect E i hs s)"
proof -
  assume a: "R a s"
  have "config (sess (modify_stream i g s)) = config (sess s)" for g
    by (simp add: modify_stream_def upd_def config_def)
  note acc = after_accept [OF a this rel_modify]
  have addr: "(case s_remote_addr (sess (upd (\<lambda>w. w\<lparr>s_ready := True\<rparr>) (modify_stream i g s))) of Some a \<Rightarrow> a | None \<Rightarrow> ([], 0))
      = (peer_ip (sess s), peer_port (sess s))" for g
    by (auto simp: upd_def modify_stream_def peer_ip_def peer_port_def split: option.split)
  show ?thesis
    unfolding accept_connect_def Let_def addr prod.case
    using a acc by (auto simp: rel_rules split: sum.split option.split)
qed

lemma after_server_connect_frame [rel_rules]: "R a s \<Longrightarrow> R a (server_connect_frame E i hdone ty p s)"
  by (simp add: server_connect_frame_def Let_def rel_rules split: sum.split)

lemma server_connect_step_rel: "R s (snd (server_connect_step E i s))"
  by (auto simp: server_connect_step_def Let_def rel_rules after_next_frame rel_refl
      split: prod.split option.split)

lemma after_parse_server_connect [rel_rules]: "R a s \<Longrightarrow> R a (parse_server_connect_frames E i s)"
proof -
  have "R s (server_connect_loop E i s)"
    by (rule scl.loop_rel) (rule rel_refl, erule (1) rel_trans, rule server_connect_step_rel)
  moreover assume "R a s"
  ultimately show ?thesis
    by (auto simp: parse_server_connect_frames_def rel_rules split: option.split intro: rel_trans)
qed

lemma after_connect_frame [rel_rules]:
  "R a s \<Longrightarrow> R a (queue_connect E s)" "R a s \<Longrightarrow> R a (snd (connect_response E Q hs s))"
  by (simp_all add: queue_connect_def connect_response_def Let_def rel_rules offered_def split: sum.split option.split)

lemma after_frames [rel_rules]:
  "R a s \<Longrightarrow> R a (snd (connect_frame E Q i hdone ty p s))"
  "R a s \<Longrightarrow> R a (apply_peer_settings E ps s)"
  by (simp_all add: connect_frame_def apply_peer_settings_def Let_def rel_rules config_def split: sum.split)

lemma after_control_frame [rel_rules]: "R a s \<Longrightarrow> R a (snd (control_frame E Q i hdone ty p s))"
  by (simp add: control_frame_def Let_def rel_rules split: sum.split)

lemma pair_step_rel:
  assumes "\<And>hdone ty p s. R s (snd (f hdone ty p s))"
  shows "R s (snd (case stream_next_frame E i s of (None, s) \<Rightarrow> (False, s)
     | (Some (ty, payload), s) \<Rightarrow>
        (case f (g s) ty (pb_data payload) s of (go, s) \<Rightarrow> (go, drop_buffer payload s))))"
proof -
  have "R s s2" if "stream_next_frame E i s = (r, s1)" "f h ty p s1 = (go, s2)" for r s1 h ty p go s2
    using after_next_frame [OF that(1) rel_refl] assms [of s1 h ty p] that(2) rel_trans by simp
  then show ?thesis
    by (auto simp: rel_rules rel_refl after_next_frame split: prod.split option.split)
qed

lemma after_parse_frames [rel_rules]:
  "R a s \<Longrightarrow> R a (parse_connect_frames E Q i s)" "R a s \<Longrightarrow> R a (parse_control_frames E Q i s)"
proof -
  assume a: "R a s"
  have c: "R s' (snd (connect_step E Q i s'))" for s'
    unfolding connect_step_def Let_def by (rule pair_step_rel) (simp add: rel_rules rel_refl)
  have p: "R s' (snd (control_step E Q i s'))" for s'
    unfolding control_step_def Let_def by (rule pair_step_rel) (simp add: rel_rules rel_refl)
  have "R s (parse_connect_frames E Q i s)"
    by (rule ccl.loop_rel) (rule rel_refl, erule (1) rel_trans, rule c)
  with a show "R a (parse_connect_frames E Q i s)" by (rule rel_trans)
  have "R s (parse_control_frames E Q i s)"
    by (rule pcl.loop_rel) (rule rel_refl, erule (1) rel_trans, rule p)
  with a show "R a (parse_control_frames E Q i s)" by (rule rel_trans)
qed

lemma after_recv [rel_rules]:
  "R a s \<Longrightarrow> R a (recv_peer_control E Q i c f s)" "R a s \<Longrightarrow> R a (recv_connect E Q i c f s)"
  "R a s \<Longrightarrow> R a (finish_recv i s)" "R a s \<Longrightarrow> R a (set_role i r s)"
  by (simp_all add: recv_peer_control_def recv_connect_def finish_recv_def set_role_def Let_def rel_rules)

lemma after_incoming_stream [rel_rules]: "R a s \<Longrightarrow> R a (incoming_stream i b n d f s)"
proof -
  assume a: "R a s"
  define s0 where "s0 = modify_stream i (\<lambda>st. st\<lparr>st_recv_prefix := of_nat n\<rparr>) (set_role i (WtData b) s)"
  have "R a s0" unfolding s0_def using a by (simp add: rel_rules)
  then show ?thesis
    unfolding incoming_stream_def Let_def s0_def [symmetric]
    by (auto simp: rel_rules split: prod.split bool.split
        intro!: after_recv(3) after(1) intro: after_account_eq)
qed

text \<open>A stream is removed only when the peer ended it before it could be classified.\<close>

lemma after_resolve:
  assumes "R a s" and "\<And>s. fin \<Longrightarrow> R s (remove_stream i s)"
  shows "R a (resolve_pending_uni E Q i c fin s)" and "R a (resolve_pending_bidi E Q i c fin s)"
proof -
  have ext: "R a s1" if "extend_class_buf E i c st s = (r, s1)" for st r s1
    using that assms(1) by (auto simp: extend_class_buf_def rel_rules split: prod.splits)
  have rm: "R a (remove_stream i s1)" if "fin" "R a s1" for s1
    using that assms(2) rel_trans by blast
  show "R a (resolve_pending_uni E Q i c fin s)"
  proof (cases "get_stream s i")
    case (Some st)
    obtain r s1 where e: "extend_class_buf E i c st s = (r, s1)" by fastforce
    with Some ext [OF e] rm [OF _ ext [OF e]] show ?thesis
      by (simp add: resolve_pending_uni_def Let_def rel_rules split: option.split prod.split bool.split)
  qed (simp add: resolve_pending_uni_def assms(1))
  show "R a (resolve_pending_bidi E Q i c fin s)"
  proof (cases "get_stream s i")
    case (Some st)
    obtain r s1 where e: "extend_class_buf E i c st s = (r, s1)" by fastforce
    with Some ext [OF e] rm [OF _ ext [OF e]] show ?thesis
      by (simp add: resolve_pending_bidi_def Let_def rel_rules split: option.split prod.split bool.split)
  qed (simp add: resolve_pending_bidi_def assms(1))
qed

lemma after_process_recv:
  assumes "R a s" and "\<And>s. fin \<Longrightarrow> R s (remove_stream i s)"
  shows "R a (process_recv E Q i c fin s)"
  using assms after_resolve [OF assms]
  by (auto simp: process_recv_def Let_def rel_rules split: option.split role.split prod.split bool.split
      intro!: after_recv(3) after(1) intro: after_account_eq)

lemma after_entry [rel_rules]: "R a s \<Longrightarrow> R a (entry_or_insert i s)"
  by (simp add: entry_or_insert_def rel_rules split: option.split)

lemma after_recv_reset [rel_rules]: "R a s \<Longrightarrow> R a (recv_reset Q i code s)"
  by (simp add: recv_reset_def Let_def rel_rules split: option.split role.split)

end

section \<open>The operations of a session as a step relation\<close>

text \<open>
  What the event loops do to a session: every public method, and the network changing the state
  of the connection between two calls.
\<close>

inductive session_step :: "env \<Rightarrow> 'c quic \<Rightarrow> 'c sys \<Rightarrow> 'c sys \<Rightarrow> bool" for E Q where
  established: "session_step E Q s (on_established s)"
| readable: "on_readable n E Q i bp s = Done s' \<Longrightarrow> session_step E Q s s'"
| datagrams: "on_datagrams n Q s = Some s' \<Longrightarrow> session_step E Q s s'"
| flushed: "session_step E Q s (flush E Q s)"
| closing: "session_step E Q s (mark_closed code reason remote s)"
| cmd_datagram: "session_step E Q s (send_datagram Q data rid s)"
| cmd_open: "session_step E Q s (open_stream bidi rid s)"
| cmd_write: "session_step E Q s (stream_write i data rid s)"
| cmd_fin: "session_step E Q s (stream_fin i s)"
| cmd_reset: "session_step E Q s (stream_reset Q i ecode s)"
| cmd_stop: "session_step E Q s (stream_stop_sending Q i ecode s)"
| cmd_pause: "session_step E Q s (set_paused i p s)"
| cmd_close: "session_step E Q s (close code reason s)"
| cmd_drain: "session_step E Q s (send_drain s)"
| cmd_stats: "session_step E Q s (push_ev (build_stats Q (conn s) rid) s)"
| cmd_export: "build_keying_material Q (conn s) rid label ctx len = (e, c) \<Longrightarrow>
    session_step E Q s (push_ev e (s\<lparr>conn := c\<rparr>))"
| report: "session_step E Q s (push_ev (EvError m) s)"
| network: "session_step E Q s (s\<lparr>conn := c\<rparr>)"

inductive_cases session_stepE: "session_step E Q s s'"

lemma report_ordinary:
  "ordinary (build_stats Q c rid)"
  "build_keying_material Q c rid label ctx len = (e, c') \<Longrightarrow> ordinary e"
  by (auto simp: build_stats_def build_keying_material_def Let_def split: if_splits prod.splits option.splits list.splits)

definition session_start :: "wt_session \<Rightarrow> 'c \<Rightarrow> 'c sys" where
  "session_start w c = \<lparr>sess = w, conn = c, evs = []\<rparr>"

lemma drained_acks_ordinary: "list_all ordinary (drained_acks out)"
  by (induction out) (auto simp: drained_acks_def List.map_filter_def split: option.split)

lemma flush_out_evs:
  "\<exists>new. fs_evs (flush_out Q i enf wt md ds out fs) = fs_evs fs @ new \<and> list_all ordinary new"
proof (induction out arbitrary: fs)
  case (Cons front rest)
  have acks: "list_all ordinary (drained_acks xs)" for xs by (rule drained_acks_ordinary)
  show ?case
  proof (cases "q_stream_send Q (fs_conn fs) i
      (take (chunk_amount (enf \<and> wt \<and> oc_request_id front \<noteq> None) md ds (fs_wt_sent fs) front)
        (drop (oc_off front) (oc_data front))) False")
    case (Pair r c)
    show ?thesis
    proof (cases r)
      case (Inl e)
      with Pair acks [of "front # rest"] show ?thesis by (cases e) (auto simp: Let_def)
    next
      case (Inr sent)
      let ?fs1 = "fs\<lparr>fs_conn := c, fs_wt_sent := (if wt \<and> oc_request_id front \<noteq> None then fs_wt_sent fs + of_nat sent
            else fs_wt_sent fs), fs_send_payload := (if wt \<and> oc_request_id front \<noteq> None
            then fs_send_payload fs + of_nat sent else fs_send_payload fs)\<rparr>"
      let ?fs2 = "if oc_off front + sent \<ge> length (oc_data front)
          then ?fs1\<lparr>fs_evs := fs_evs fs @ drained_acks [front\<lparr>oc_off := oc_off front + sent\<rparr>]\<rparr> else ?fs1"
      obtain new where new: "fs_evs (flush_out Q i enf wt md ds rest ?fs2) = fs_evs ?fs2 @ new" "list_all ordinary new"
        using Cons.IH by blast
      with Pair Inr acks [of "[front\<lparr>oc_off := oc_off front + sent\<rparr>]"] show ?thesis
        by (auto simp: Let_def)
    qed
  qed
qed simp

locale session_relation = recv_relation R Q for R :: "'c sys \<Rightarrow> 'c sys \<Rightarrow> bool" and Q +
  assumes rel_conn: "R s (s\<lparr>conn := c\<rparr>)"
    and rel_remove: "R s (remove_stream i s)"
    and rel_prune: "R s (prune_streams s)"
begin

lemma after_any_conn [rel_rules]: "R a s \<Longrightarrow> R a (s\<lparr>conn := c\<rparr>)" "R a s \<Longrightarrow> R a (prune_streams s)"
  using rel_trans rel_conn rel_prune by blast+

lemma after_recv_any [rel_rules]: "R a s \<Longrightarrow> R a (process_recv E Q i c f s)"
  using after_process_recv rel_remove by blast

lemma after_read_loop: "read_loop n E Q i bp s = Done (r, s') \<Longrightarrow> R a s \<Longrightarrow> R a s'"
proof (induction n arbitrary: s)
  case (Suc n)
  obtain st where st: "get_stream s i = Some st" using Suc.prems(1) by (auto split: option.splits)
  obtain rc c where rc: "q_stream_recv Q (conn s) i (if bp \<and> st_role st = PendingUni then 1 else READ_BUF) = (rc, c)"
    by fastforce
  have k: "R a (s\<lparr>conn := c\<rparr>)" using Suc.prems(2) by (simp add: rel_rules)
  show ?case
  proof (cases rc)
    case (Inl e)
    with Suc.prems st rc k show ?thesis
      by (auto simp: Let_def split: if_splits qerr.splits option.splits prod.splits bool.splits
          intro: after_account_eq)
  next
    case (Inr cf)
    obtain chunk f where cf: "cf = (chunk, f)" by (cases cf)
    have "R a (process_recv E Q i chunk f (s\<lparr>conn := c\<rparr>))" using k by (simp add: rel_rules)
    with Suc.prems Suc.IH [of "process_recv E Q i chunk f (s\<lparr>conn := c\<rparr>)"] st rc Inr cf show ?thesis
      by (auto simp: Let_def split: if_splits)
  qed
qed simp

lemma on_readable_rel: "on_readable n E Q i bp s = Done s' \<Longrightarrow> R s s'"
  using after_read_loop [of n E i bp "entry_or_insert i s" _ _ s]
  by (auto simp: on_readable_def Let_def rel_rules rel_refl
      split: option.splits if_splits outcome.splits prod.splits)

lemma on_datagrams_rel: "on_datagrams n Q s = Some s' \<Longrightarrow> R a s \<Longrightarrow> R a s'"
proof (induction n arbitrary: s)
  case (Suc n)
  obtain r c where r: "q_dgram_recv Q (conn s) 65536 = (r, c)" by fastforce
  show ?case
  proof (cases r)
    case (Inl e)
    with r Suc.prems show ?thesis by (auto simp: rel_rules)
  next
    case (Inr d)
    let ?s = "case read_varint d of None \<Rightarrow> s\<lparr>conn := c\<rparr>
          | Some (qsi, off) \<Rightarrow> if qsi = CONNECT_ID div 4 then push_ev (EvDatagram (drop off d)) (s\<lparr>conn := c\<rparr>)
             else s\<lparr>conn := c\<rparr>"
    have "R a ?s" using Suc.prems(2) by (simp add: rel_rules split: option.split)
    with r Inr Suc.prems(1) show ?thesis by (intro Suc.IH [of ?s]) (simp_all add: Let_def)
  qed
qed simp

lemma after_reconcile [rel_rules]: "R a s \<Longrightarrow> R a (reconcile_send_final_size Q i s)"
  by (simp add: reconcile_send_final_size_def Let_def rel_rules config_def split: option.split)

lemma after_commands [rel_rules]:
  "R a s \<Longrightarrow> R a (on_established s)" "R a s \<Longrightarrow> R a (send_datagram Q d r s)"
  "R a s \<Longrightarrow> R a (allocate_stream b r s)" "R a s \<Longrightarrow> R a (stream_write i d r s)"
  "R a s \<Longrightarrow> R a (stream_fin i s)" "R a s \<Longrightarrow> R a (stream_reset Q i n s)"
  "R a s \<Longrightarrow> R a (stream_stop_sending Q i n s)" "R a s \<Longrightarrow> R a (set_paused i p s)"
  "R a s \<Longrightarrow> R a (close c d s)" "R a s \<Longrightarrow> R a (send_drain s)" "R a s \<Longrightarrow> R a (queue_session_capsule ty v s)"
  by (simp_all add: on_established_def send_datagram_def allocate_stream_def stream_write_def stream_fin_def
      stream_reset_def stream_stop_sending_def set_paused_def close_def send_drain_def
      queue_session_capsule_def Let_def rel_rules config_def split: option.split prod.split)

lemma after_release_opens: "R a s \<Longrightarrow> R a (release_opens ps s)"
  by (induction ps s rule: release_opens.induct) (auto simp: Let_def rel_rules config_def)

lemma after_opens [rel_rules]:
  "R a s \<Longrightarrow> R a (release_pending_opens s)" "R a s \<Longrightarrow> R a (open_stream b r s)"
  by (simp_all add: release_pending_opens_def open_stream_def after_release_opens rel_rules config_def)

lemma after_evs: "R a s \<Longrightarrow> list_all ordinary new \<Longrightarrow> R a (s\<lparr>evs := evs s @ new\<rparr>)"
proof (induction new arbitrary: s)
  case (Cons e new)
  have "R a (push_ev e s)" using Cons.prems by (simp add: rel_rules)
  from Cons.IH [OF this] Cons.prems show ?case by (simp add: push_ev_def)
qed simp

lemma after_flush_stream: "R a s \<Longrightarrow> R a (fst (flush_stream Q i (s, w)))"
proof -
  assume "R a s"
  then have "R a (reconcile_send_final_size Q i s)" by (simp add: rel_rules)
  then obtain s0 where s0: "s0 = reconcile_send_final_size Q i s" "R a s0" by simp
  have out: "R a ((modify_stream i g s0)\<lparr>conn := c, evs := fs_evs (flush_out Q i enf wt md ds out
      \<lparr>fs_conn = c0, fs_evs = evs s0, fs_wt_sent = w', fs_out = o', fs_send_payload = sp, fs_fin_sent = fs', fs_go = go\<rparr>)\<rparr>)"
    for g c enf wt md ds out c0 w' o' sp fs' go
  proof -
    obtain new where "fs_evs (flush_out Q i enf wt md ds out \<lparr>fs_conn = c0, fs_evs = evs s0, fs_wt_sent = w',
        fs_out = o', fs_send_payload = sp, fs_fin_sent = fs', fs_go = go\<rparr>) = evs s0 @ new" "list_all ordinary new"
      using flush_out_evs [of Q i enf wt md ds out "\<lparr>fs_conn = c0, fs_evs = evs s0, fs_wt_sent = w',
        fs_out = o', fs_send_payload = sp, fs_fin_sent = fs', fs_go = go\<rparr>"] by auto
    moreover have "R a ((modify_stream i g s0)\<lparr>conn := c\<rparr>)" using s0(2) by (simp add: rel_rules)
    moreover have "evs (modify_stream i g s0) = evs s0" by (simp add: modify_stream_def upd_def)
    ultimately show ?thesis using after_evs [of a "(modify_stream i g s0)\<lparr>conn := c\<rparr>" new] by simp
  qed
  have swap: "x\<lparr>evs := e, conn := c\<rparr> = x\<lparr>conn := c, evs := e\<rparr>" for x :: "'c sys" and e c by simp
  show ?thesis
    using out s0(2) unfolding flush_stream_def Let_def fst_conv s0(1) [symmetric]
    by (auto simp: rel_rules swap simp del: sys.update_convs split: option.split prod.split sum.split)
qed

lemma after_flush_streams [rel_rules]: "R a s \<Longrightarrow> R a (flush_streams E Q s)"
proof -
  have fold: "R a s \<Longrightarrow> R a (fst (foldl (\<lambda>sw i. flush_stream Q i sw) (s, w) ids))" for s w ids
  proof (induction ids arbitrary: s w)
    case (Cons i ids)
    then show ?case using after_flush_stream [of a s i w] by (cases "flush_stream Q i (s, w)") auto
  qed simp
  assume "R a s"
  from fold [OF this, of 0 "e_order E (hm_keys (s_streams (sess s)))"] show ?thesis
    by (cases "foldl (\<lambda>sw i. flush_stream Q i sw) (s, 0) (e_order E (hm_keys (s_streams (sess s))))")
      (simp add: flush_streams_def rel_rules config_def)
qed

lemma after_flush_parts [rel_rules]:
  "R a s \<Longrightarrow> R a (flush_terminal_error Q s)" "R a s \<Longrightarrow> R a (flush_grant s)"
  "R a s \<Longrightarrow> R a (replenish_data s)" "R a s \<Longrightarrow> R a (replenish_streams b s)"
  "R a s \<Longrightarrow> R a (flush_close_capsule s)" "R a s \<Longrightarrow> R a (flush_quic_close Q s)"
  "R a s \<Longrightarrow> R a (signal_data_blocked s)" "R a s \<Longrightarrow> R a (signal_bidi_blocked s)"
  "R a s \<Longrightarrow> R a (signal_uni_blocked s)"
  by (simp_all add: flush_terminal_error_def flush_grant_def replenish_data_def replenish_streams_def
      flush_close_capsule_def flush_quic_close_def signal_data_blocked_def signal_bidi_blocked_def
      signal_uni_blocked_def Let_def rel_rules config_def split: option.split prod.split)

lemma after_flush [rel_rules]: "R a s \<Longrightarrow> R a (flush E Q s)"
  by (simp add: flush_def Let_def flush_replenish_def signal_flow_control_blocked_def rel_rules)

lemma after_report [rel_rules]: "R a s \<Longrightarrow> R a (push_ev (build_stats Q' c rid) s)"
  by (simp add: rel_rules report_ordinary)

lemma export_rel:
  "build_keying_material Q' (conn s) rid label ctx len = (e, c) \<Longrightarrow> R s (push_ev e (s\<lparr>conn := c\<rparr>))"
  by (rule after(1) [OF _ report_ordinary(2)]) (simp add: rel_rules rel_refl)

lemma session_step_rel: "session_step E Q s s' \<Longrightarrow> R s s'"
  by (induction rule: session_step.induct)
    (use on_readable_rel on_datagrams_rel export_rel in \<open>auto simp: rel_rules rel_refl\<close>)

lemma session_steps_rel: "(session_step E Q)\<^sup>*\<^sup>* s s' \<Longrightarrow> R s s'"
  by (induction rule: rtranclp_induct) (auto intro: rel_refl rel_trans session_step_rel)

end

end
