(* ===== verification/Session_Memory.thy ===== *)
theory Session_Memory
  imports Session_Flush
begin

text \<open>
  Memory accounting of a session: the bytes counted in the parser-memory budget are exactly the
  capacities of the buffers the session holds, every operation preserves this, and a closed
  session holds none. \<open>keeps\<close> is the relation an operation establishes between the states before
  and after it, whatever temporary buffers are held around it.
\<close>

named_theorems keeps_rules \<open>operations preserve the accounting\<close>

definition st_caps :: "stream \<Rightarrow> nat" where
  "st_caps st = pb_cap (st_class_buf st) + pb_cap (fp_buf (st_frames st))"

definition st_bufs_ok :: "stream \<Rightarrow> bool" where
  "st_bufs_ok st \<longleftrightarrow> pb_ok (st_class_buf st) \<and> pb_ok (fp_buf (st_frames st))"

definition held :: "wt_session \<Rightarrow> nat" where
  "held w = pb_cap (s_capsule_buf w) + hm_total st_caps (s_streams w)"

text \<open>\<open>k\<close> counts the temporary buffers that are live at this point.\<close>

definition mem_ok :: "nat \<Rightarrow> wt_session \<Rightarrow> bool" where
  "mem_ok k w \<longleftrightarrow>
     pm_ok (s_parser_memory w) \<and> pm_used (s_parser_memory w) = k + held w
     \<and> distinct (hm_keys (s_streams w)) \<and> pb_ok (s_capsule_buf w)
     \<and> list_all (\<lambda>kv. st_bufs_ok (snd kv)) (s_streams w)
     \<and> (s_closed w \<longrightarrow> held w = 0)"

definition keeps :: "'c sys \<Rightarrow> 'c sys \<Rightarrow> bool" where
  "keeps s s' \<longleftrightarrow>
     (\<forall>k. mem_ok k (sess s) \<longrightarrow> mem_ok k (sess s') \<and> pm_frame (memory s') = pm_frame (memory s))"

lemma keeps_refl [keeps_rules]: "keeps s s"
  by (simp add: keeps_def)

lemma keeps_trans: "keeps a b \<Longrightarrow> keeps b c \<Longrightarrow> keeps a c"
  by (auto simp: keeps_def)

lemma keeps_stepI:
  "keeps a s \<Longrightarrow> (\<And>k. mem_ok k (sess s) \<Longrightarrow> mem_ok k (sess s') \<and> pm_frame (memory s') = pm_frame (memory s))
    \<Longrightarrow> keeps a s'"
  unfolding keeps_def by metis

section \<open>Primitive updates\<close>

lemma list_all_hm_update:
  "list_all (\<lambda>kv. P (snd kv)) m \<Longrightarrow> P v \<Longrightarrow> list_all (\<lambda>kv. P (snd kv)) (AList.update k v m)"
  by (induction m) auto

lemma list_all_hm_lookup: "list_all (\<lambda>kv. P (snd kv)) m \<Longrightarrow> map_of m k = Some v \<Longrightarrow> P v"
  by (induction m) (auto split: if_splits)

lemma list_all_hm_modify:
  "list_all (\<lambda>kv. P (snd kv)) m \<Longrightarrow> (\<And>v. P v \<Longrightarrow> P (f v)) \<Longrightarrow> list_all (\<lambda>kv. P (snd kv)) (hm_modify k f m)"
  using list_all_hm_lookup [of P m k] list_all_hm_update [of P m] by (auto simp: hm_modify_def split: option.split)

lemma hm_total_modify_same: "(\<And>v. f (g v) = f v) \<Longrightarrow> hm_total f (hm_modify k g m) = hm_total f m"
proof (cases "map_of m k")
  case (Some v)
  assume "\<And>v. f (g v) = f v"
  with Some hm_total_update_Some [OF Some, of f "g v"] show ?thesis by (simp add: hm_modify_def)
qed (simp add: hm_modify_def)

lemma mem_ok_cong:
  "s_parser_memory w' = s_parser_memory w \<Longrightarrow> s_capsule_buf w' = s_capsule_buf w \<Longrightarrow>
   s_streams w' = s_streams w \<Longrightarrow> s_closed w' = s_closed w \<Longrightarrow> mem_ok k w' = mem_ok k w"
  by (simp add: mem_ok_def held_def)

lemma keeps_same_sess: "keeps a s \<Longrightarrow> sess s' = sess s \<Longrightarrow> keeps a s'"
  by (simp add: keeps_def)

lemma keeps_push_ev [keeps_rules]: "keeps a s \<Longrightarrow> keeps a (push_ev e s)"
  by (simp add: keeps_def push_ev_def)

lemma keeps_conn [keeps_rules]: "keeps a s \<Longrightarrow> keeps a (s\<lparr>conn := c\<rparr>)"
  by (simp add: keeps_def)

lemma keeps_upd [keeps_rules]:
  "keeps a s \<Longrightarrow> s_parser_memory (f (sess s)) = memory s \<Longrightarrow>
   s_capsule_buf (f (sess s)) = s_capsule_buf (sess s) \<Longrightarrow> s_streams (f (sess s)) = s_streams (sess s) \<Longrightarrow>
   s_closed (f (sess s)) = s_closed (sess s) \<Longrightarrow> keeps a (upd f s)"
  by (erule keeps_stepI) (simp add: upd_def mem_ok_def held_def)

text \<open>A stream changes together with the budget: the change of the counter is that of its buffers.\<close>

lemma mem_ok_set_stream:
  assumes "mem_ok k w" and "map_of (s_streams w) i = Some st"
    and "pm_ok m" and "pm_used m + st_caps st = pm_used (s_parser_memory w) + st_caps st'"
    and "st_bufs_ok st'" and "s_closed w \<Longrightarrow> st_caps st' = 0"
  shows "mem_ok k (w\<lparr>s_streams := AList.update i st' (s_streams w), s_parser_memory := m\<rparr>)"
proof -
  from assms(2) have i: "i \<in> fst ` set (s_streams w)" by (metis domI dom_map_of_conv_image_fst)
  have tot: "hm_total st_caps (AList.update i st' (s_streams w)) + st_caps st
      = hm_total st_caps (s_streams w) + st_caps st'"
    using hm_total_update_Some [OF assms(2)] .
  have "distinct (hm_keys (AList.update i st' (s_streams w)))"
    using assms(1) by (simp add: mem_ok_def distinct_update)
  with assms tot show ?thesis
    by (auto simp: mem_ok_def held_def list_all_hm_update)
qed

lemma keeps_modify_stream [keeps_rules]:
  assumes "keeps a s" and "\<And>st. st_class_buf (f st) = st_class_buf st"
    and "\<And>st. fp_buf (st_frames (f st)) = fp_buf (st_frames st)"
  shows "keeps a (modify_stream i f s)"
proof (rule keeps_stepI [OF assms(1)])
  fix k assume ok: "mem_ok k (sess s)"
  have caps: "st_caps (f st) = st_caps st" for st by (simp add: st_caps_def assms(2,3))
  have "list_all (\<lambda>kv. st_bufs_ok (snd kv)) (hm_modify i f (s_streams (sess s)))"
    using ok by (auto intro: list_all_hm_modify simp: mem_ok_def st_bufs_ok_def assms(2,3))
  with ok show "mem_ok k (sess (modify_stream i f s)) \<and>
      pm_frame (memory (modify_stream i f s)) = pm_frame (memory s)"
    by (simp add: mem_ok_def held_def modify_stream_def upd_def hm_total_modify_same caps)
qed

text \<open>Replacing the buffers of a stream and the budget at once.\<close>

lemma keeps_set_stream:
  assumes "keeps a s" and "get_stream s i = Some st"
    and "\<And>k. mem_ok k (sess s) \<Longrightarrow> pm_ok m \<and> pm_used m + st_caps st = pm_used (memory s) + st_caps (f st)
        \<and> pm_frame m = pm_frame (memory s) \<and> st_bufs_ok (f st) \<and> (closed s \<longrightarrow> st_caps (f st) = 0)"
  shows "keeps a (set_memory m (modify_stream i f s))"
proof (rule keeps_stepI [OF assms(1)])
  fix k assume ok: "mem_ok k (sess s)"
  note facts = assms(3) [OF ok]
  have eq: "sess (set_memory m (modify_stream i f s))
      = (sess s)\<lparr>s_streams := AList.update i (f st) (s_streams (sess s)), s_parser_memory := m\<rparr>"
    using assms(2) by (simp add: set_memory_def modify_stream_def upd_def hm_modify_def get_stream_def)
  show "mem_ok k (sess (set_memory m (modify_stream i f s)))
      \<and> pm_frame (memory (set_memory m (modify_stream i f s))) = pm_frame (memory s)"
    unfolding eq using mem_ok_set_stream [OF ok assms(2) [unfolded get_stream_def]] facts by simp
qed

lemma mem_ok_lookup:
  assumes "mem_ok k (sess s)" and "get_stream s i = Some st"
  shows "st_bufs_ok st \<and> st_caps st \<le> pm_used (memory s) \<and> (closed s \<longrightarrow> st_caps st = 0)"
proof -
  have "st_caps st \<le> hm_total st_caps (s_streams (sess s))"
    using assms(2) hm_total_member by (simp add: get_stream_def)
  moreover have "st_bufs_ok st"
    using assms list_all_hm_lookup [of st_bufs_ok "s_streams (sess s)" i st]
    by (simp add: mem_ok_def get_stream_def)
  ultimately show ?thesis using assms(1) by (auto simp: mem_ok_def held_def)
qed

lemma pb_cap_new [simp]: "pb_cap ParserBuffer_new = 0" "pb_data ParserBuffer_new = []"
  by (simp_all add: ParserBuffer_new_def)

lemma keeps_clear_class_buf [keeps_rules]: "keeps a s \<Longrightarrow> keeps a (clear_class_buf i s)"
proof (cases "get_stream s i")
  case (Some st)
  assume a: "keeps a s"
  have "keeps a (set_memory (release (memory s) (pb_cap (st_class_buf st)))
      (modify_stream i (\<lambda>st. st\<lparr>st_class_buf := ParserBuffer_new\<rparr>) s))"
  proof (rule keeps_set_stream [OF a Some])
    fix k assume ok: "mem_ok k (sess s)"
    note l = mem_ok_lookup [OF ok Some]
    from l have "pb_cap (st_class_buf st) \<le> pm_used (memory s)" by (simp add: st_caps_def)
    with pmb.release_given [OF _ this] l ok show
      "pm_ok (release (memory s) (pb_cap (st_class_buf st))) \<and>
       pm_used (release (memory s) (pb_cap (st_class_buf st))) + st_caps st =
         pm_used (memory s) + st_caps (st\<lparr>st_class_buf := ParserBuffer_new\<rparr>) \<and>
       pm_frame (release (memory s) (pb_cap (st_class_buf st))) = pm_frame (memory s) \<and>
       st_bufs_ok (st\<lparr>st_class_buf := ParserBuffer_new\<rparr>) \<and>
       (closed s \<longrightarrow> st_caps (st\<lparr>st_class_buf := ParserBuffer_new\<rparr>) = 0)"
      by (auto simp: st_caps_def st_bufs_ok_def mem_ok_def)
  qed
  with Some show ?thesis by (simp add: clear_class_buf_def buffer_clear_def)
qed (simp add: clear_class_buf_def)

lemma keeps_clear_frames_buf [keeps_rules]: "keeps a s \<Longrightarrow> keeps a (clear_frames_buf i s)"
proof (cases "get_stream s i")
  case (Some st)
  let ?f = "\<lambda>st. st\<lparr>st_frames := (st_frames st)\<lparr>fp_buf := ParserBuffer_new\<rparr>\<rparr>"
  let ?m = "release (memory s) (pb_cap (fp_buf (st_frames st)))"
  assume a: "keeps a s"
  have "keeps a (set_memory ?m (modify_stream i ?f s))"
  proof (rule keeps_set_stream [OF a Some])
    fix k assume ok: "mem_ok k (sess s)"
    note l = mem_ok_lookup [OF ok Some]
    from l have "pb_cap (fp_buf (st_frames st)) \<le> pm_used (memory s)" by (simp add: st_caps_def)
    with pmb.release_given [OF _ this] l ok show
      "pm_ok ?m \<and> pm_used ?m + st_caps st = pm_used (memory s) + st_caps (?f st) \<and>
       pm_frame ?m = pm_frame (memory s) \<and> st_bufs_ok (?f st) \<and> (closed s \<longrightarrow> st_caps (?f st) = 0)"
      by (auto simp: st_caps_def st_bufs_ok_def mem_ok_def)
  qed
  with Some show ?thesis by (simp add: clear_frames_buf_def buffer_clear_def)
qed (simp add: clear_frames_buf_def)

section \<open>Closing\<close>

definition moves :: "parser_memory \<Rightarrow> nat \<Rightarrow> parser_memory \<Rightarrow> bool" where
  "moves m n m' \<longleftrightarrow> pm_ok m' \<and> pm_used m' + n = pm_used m \<and> pm_frame m' = pm_frame m"

lemma moves_release: "pm_ok m \<Longrightarrow> n \<le> pm_used m \<Longrightarrow> moves m n (release m n)"
  using pmb.release_given [of m n] by (simp add: moves_def)

lemma moves_trans: "moves m a m1 \<Longrightarrow> moves m1 b m2 \<Longrightarrow> moves m (a + b) m2"
  by (simp add: moves_def)

lemma moves_ok: "moves m n m' \<Longrightarrow> pm_ok m'"
  by (simp add: moves_def)

lemma moves_release2:
  assumes "pm_ok m" and "a + b \<le> pm_used m"
  shows "moves m (a + b) (release (release m a) b)"
proof -
  have r: "moves m a (release m a)" using assms by (intro moves_release) auto
  then have "moves (release m a) b (release (release m a) b)"
    using assms by (intro moves_release) (auto simp: moves_def)
  with r show ?thesis by (rule moves_trans)
qed

lemma moves_drop_stream: "pm_ok m \<Longrightarrow> st_caps st \<le> pm_used m \<Longrightarrow> moves m (st_caps st) (drop_stream m st)"
  unfolding drop_stream_def st_caps_def buffer_drop_release by (rule moves_release2)

lemma moves_foldl:
  assumes "\<And>m kv. pm_ok m \<Longrightarrow> g kv \<le> pm_used m \<Longrightarrow> moves m (g kv) (f m kv)"
    and "pm_ok m" and "sum_list (map g xs) \<le> pm_used m"
  shows "moves m (sum_list (map g xs)) (foldl f m xs)"
  using assms(2,3)
proof (induction xs arbitrary: m)
  case (Cons x xs)
  have x: "moves m (g x) (f m x)" using Cons.prems by (intro assms(1)) auto
  then have "moves (f m x) (sum_list (map g xs)) (foldl f (f m x) xs)"
    using Cons.prems by (intro Cons.IH) (auto simp: moves_def)
  with x show ?case by (simp add: moves_trans)
qed (simp add: moves_def)

lemma hm_total_0: "(\<And>v. f (g v) = 0) \<Longrightarrow> hm_total f (hm_map g m) = 0"
  by (induction m) (auto simp: hm_map_def)

lemma moves_clear_streams:
  fixes xs :: "(u64 \<times> stream) list"
  assumes "pm_ok m" and "hm_total st_caps xs \<le> pm_used m"
  shows "moves m (hm_total st_caps xs) (fst (clear_streams m xs))"
proof -
  have "moves m (sum_list (map (st_caps \<circ> snd) xs)) (foldl (\<lambda>m kv. release (release m
      (pb_cap (fp_buf (st_frames (snd kv))))) (pb_cap (st_class_buf (snd kv)))) m xs)"
  proof (rule moves_foldl)
    show "moves m' ((st_caps \<circ> snd) kv) (release (release m' (pb_cap (fp_buf (st_frames (snd kv)))))
        (pb_cap (st_class_buf (snd kv))))" if "pm_ok m'" "(st_caps \<circ> snd) kv \<le> pm_used m'" for m' and kv :: "u64 \<times> stream"
      using moves_release2 [OF that(1), of "pb_cap (fp_buf (st_frames (snd kv)))" "pb_cap (st_class_buf (snd kv))"]
        that(2) by (simp add: st_caps_def add.commute)
  qed (use assms in \<open>simp_all add: hm_total_def\<close>)
  then show ?thesis by (simp add: clear_streams_eq hm_total_def)
qed

lemma mem_ok_mark_closed:
  assumes "mem_ok k (sess s)"
  shows "mem_ok k (sess (mark_closed c r b s)) \<and> pm_frame (memory (mark_closed c r b s)) = pm_frame (memory s)
    \<and> closed (mark_closed c r b s)"
proof (cases "closed s")
  case True
  with assms show ?thesis by (simp add: mark_closed_def)
next
  case False
  let ?m1 = "release (memory s) (pb_cap (s_capsule_buf (sess s)))"
  have m1: "moves (memory s) (pb_cap (s_capsule_buf (sess s))) ?m1"
    using assms by (intro moves_release) (auto simp: mem_ok_def held_def)
  then have m2: "moves ?m1 (hm_total st_caps (s_streams (sess s))) (fst (clear_streams ?m1 (s_streams (sess s))))"
    using assms by (intro moves_clear_streams) (auto simp: moves_def mem_ok_def held_def)
  have cl: "st_caps (clear_stream st) = 0" "st_bufs_ok (clear_stream st)" for st
    by (simp_all add: st_caps_def st_bufs_ok_def clear_stream_def)
  have "list_all (\<lambda>kv. st_bufs_ok (snd kv)) (hm_map clear_stream (s_streams (sess s)))"
    by (simp add: list_all_iff hm_map_def cl split: prod.split)
  with moves_trans [OF m1 m2] False assms hm_total_0 [of st_caps clear_stream, OF cl(1)] show ?thesis
    by (simp add: mark_closed_def buffer_clear_def clear_streams_eq push_ev_def upd_def mem_ok_def held_def
        moves_def del: hm_total_hm_map)
qed

lemma keeps_mark_closed [keeps_rules]: "keeps a s \<Longrightarrow> keeps a (mark_closed c r b s)"
  by (erule keeps_stepI) (simp add: mem_ok_mark_closed)

lemma keeps_parser_limit_exceeded [keeps_rules]: "keeps a s \<Longrightarrow> keeps a (parser_limit_exceeded s)"
  by (simp add: parser_limit_exceeded_def keeps_rules)

lemma keeps_flow_error [keeps_rules]: "keeps a s \<Longrightarrow> keeps a (flow_error m s)"
  by (simp add: flow_error_def Let_def keeps_rules)

lemma keeps_protocol_error [keeps_rules]: "keeps a s \<Longrightarrow> keeps a (protocol_error Q c m s)"
  by (simp add: protocol_error_def Let_def keeps_rules)

lemma keeps_kill_recv [keeps_rules]: "keeps a s \<Longrightarrow> keeps a (kill_recv Q i s)"
  by (simp add: kill_recv_def Let_def keeps_rules)

section \<open>Inserting and removing streams\<close>

lemma keeps_insert_stream [keeps_rules]:
  assumes "keeps a s" and "st_frames st = FrameParser_new" and "st_class_buf st = ParserBuffer_new"
  shows "keeps a (insert_stream i st s)"
proof (rule keeps_stepI [OF assms(1)])
  fix k assume ok: "mem_ok k (sess s)"
  have new: "st_caps st = 0" "st_bufs_ok st"
    using assms(2,3) by (simp_all add: st_caps_def st_bufs_ok_def FrameParser_new_def)
  have d: "distinct (hm_keys (AList.update i st (s_streams (sess s))))"
    using ok by (simp add: mem_ok_def distinct_update)
  have bufs: "list_all (\<lambda>kv. st_bufs_ok (snd kv)) (AList.update i st (s_streams (sess s)))"
    using ok new by (simp add: mem_ok_def list_all_hm_update)
  show "mem_ok k (sess (insert_stream i st s)) \<and> pm_frame (memory (insert_stream i st s)) = pm_frame (memory s)"
  proof (cases "map_of (s_streams (sess s)) i")
    case None
    with ok d bufs new hm_total_update_None [OF None, of st_caps st] show ?thesis
      by (simp add: insert_stream_def upd_def mem_ok_def held_def)
  next
    case (Some old)
    have "moves (memory s) (st_caps old) (drop_stream (memory s) old)"
      using ok mem_ok_lookup [OF ok, of i old] Some
      by (intro moves_drop_stream) (auto simp: mem_ok_def get_stream_def)
    with Some ok d bufs new hm_total_update_Some [OF Some, of st_caps st] show ?thesis
      by (auto simp: insert_stream_def upd_def mem_ok_def held_def moves_def)
  qed
qed

lemma keeps_remove_stream [keeps_rules]: "keeps a s \<Longrightarrow> keeps a (remove_stream i s)"
proof (erule keeps_stepI)
  fix k assume ok: "mem_ok k (sess s)"
  show "mem_ok k (sess (remove_stream i s)) \<and> pm_frame (memory (remove_stream i s)) = pm_frame (memory s)"
  proof (cases "map_of (s_streams (sess s)) i")
    case None
    then have "AList.delete i (s_streams (sess s)) = s_streams (sess s)"
      by (simp add: delete_idem map_of_eq_None_iff)
    with None ok show ?thesis by (simp add: remove_stream_def upd_def mem_ok_def held_def)
  next
    case (Some old)
    have m: "moves (memory s) (st_caps old) (drop_stream (memory s) old)"
      using ok mem_ok_lookup [OF ok, of i old] Some
      by (intro moves_drop_stream) (auto simp: mem_ok_def get_stream_def)
    have "list_all (\<lambda>kv. st_bufs_ok (snd kv)) (AList.delete i (s_streams (sess s)))"
      using ok by (auto simp: mem_ok_def list_all_iff AList.delete_eq)
    with m Some ok hm_total_delete_Some [of "s_streams (sess s)" i old st_caps] show ?thesis
      by (auto simp: remove_stream_def upd_def mem_ok_def held_def moves_def distinct_delete)
  qed
qed

section \<open>Receive buffers\<close>

lemma buffer_consume_moves:
  assumes "pm_ok m" and "pb_cap b \<le> pm_used m" and "pb_ok b" and "buffer_consume m b n = (m', b')"
  shows "pm_ok m' \<and> pm_frame m' = pm_frame m \<and> pm_used m' + pb_cap b = pm_used m + pb_cap b' \<and> pb_ok b'
    \<and> pb_cap b' \<le> pb_cap b"
proof (cases "n = length (pb_data b)")
  case True
  with assms have eq: "m' = release m (pb_cap b)" "b' = ParserBuffer_new"
    by (auto simp: buffer_consume_def buffer_clear_def)
  from moves_release [OF assms(1,2)] show ?thesis by (simp add: eq moves_def)
next
  case False
  with assms show ?thesis by (auto simp: buffer_consume_def pb_ok_def)
qed

text \<open>Copying out a range and consuming it: the copy is charged beside the buffer.\<close>

lemma copy_consume_moves:
  assumes "pm_ok m" and "alloc_ok alloc" and "pb_cap b \<le> pm_used m" and "pb_ok b"
    and "copy_range alloc m b lo hi = (Some c, m1)" and "buffer_consume m1 b n = (m', b')"
  shows "pm_ok m' \<and> pm_frame m' = pm_frame m \<and> pm_used m' + pb_cap b = pm_used m + pb_cap b' + pb_cap c
    \<and> pb_ok b' \<and> pb_cap b' \<le> pb_cap b"
proof -
  note c = copy_range_works [OF assms(1,2,5)]
  have "pb_cap b \<le> pm_used m1" using c assms(3) by simp
  from buffer_consume_moves [OF _ this assms(4,6)] c show ?thesis by simp
qed

definition temp_cap :: "(u64 \<times> parser_buffer) option \<Rightarrow> nat" where
  "temp_cap r = (case r of None \<Rightarrow> 0 | Some (_, p) \<Rightarrow> pb_cap p)"

lemma next_frame_moves:
  assumes "pm_ok m" and "alloc_ok alloc" and "pb_cap (fp_buf fp) \<le> pm_used m" and "pb_ok (fp_buf fp)"
    and "next_frame alloc m fp = (r, m', fp')"
  shows "pm_ok m' \<and> pm_frame m' = pm_frame m \<and> pb_ok (fp_buf fp') \<and> pb_cap (fp_buf fp') \<le> pb_cap (fp_buf fp)
    \<and> pm_used m' + pb_cap (fp_buf fp) = pm_used m + pb_cap (fp_buf fp') + temp_cap r"
proof (cases r)
  case None
  then have "m' = m" "fp_buf fp' = fp_buf fp"
    using assms(5) by (auto simp: next_frame_def Let_def dest!: copy_range_fails [OF assms(1)]
        split: if_splits option.splits prod.splits)
  with None assms show ?thesis by (simp add: temp_cap_def)
next
  case (Some tp)
  then obtain ty p lo hi m1 b2 where "copy_range alloc m (fp_buf fp) lo hi = (Some p, m1)"
    "buffer_consume m1 (fp_buf fp) hi = (m', b2)" "fp' = fp\<lparr>fp_buf := b2\<rparr>" "r = Some (ty, p)"
    using assms(5) by (auto simp: next_frame_def Let_def split: if_splits option.splits prod.splits)
  with copy_consume_moves [OF assms(1-4)] show ?thesis by (simp add: temp_cap_def)
qed

lemma stream_next_frame_mem:
  assumes al: "alloc_ok (e_alloc E)" and ok: "mem_ok k (sess s)" and n: "stream_next_frame E i s = (r, s')"
  shows "mem_ok (k + temp_cap r) (sess s') \<and> pm_frame (memory s') = pm_frame (memory s)"
proof (cases "get_stream s i")
  case None
  with n ok show ?thesis by (auto simp: stream_next_frame_def temp_cap_def)
next
  case (Some st)
  obtain m fp where nf: "next_frame (e_alloc E) (memory s) (st_frames st) = (r, m, fp)"
    and s': "s' = set_memory m (modify_stream i (\<lambda>st. st\<lparr>st_frames := fp\<rparr>) s)"
    using n Some by (auto simp: stream_next_frame_def split: prod.splits)
  note l = mem_ok_lookup [OF ok Some]
  have mv: "pm_ok m \<and> pm_frame m = pm_frame (memory s) \<and> pb_ok (fp_buf fp)
      \<and> pb_cap (fp_buf fp) \<le> pb_cap (fp_buf (st_frames st))
      \<and> pm_used m + pb_cap (fp_buf (st_frames st)) = pm_used (memory s) + pb_cap (fp_buf fp) + temp_cap r"
    using ok l by (intro next_frame_moves [OF _ al _ _ nf]) (auto simp: mem_ok_def st_caps_def st_bufs_ok_def)
  let ?st' = "st\<lparr>st_frames := fp\<rparr>"
  have eq: "sess s' = (sess s)\<lparr>s_streams := AList.update i ?st' (s_streams (sess s)), s_parser_memory := m\<rparr>"
    using Some by (simp add: s' set_memory_def modify_stream_def upd_def hm_modify_def get_stream_def)
  have "hm_total st_caps (AList.update i ?st' (s_streams (sess s))) + st_caps st
      = hm_total st_caps (s_streams (sess s)) + st_caps ?st'"
    using hm_total_update_Some Some by (simp add: get_stream_def)
  moreover have "distinct (hm_keys (AList.update i ?st' (s_streams (sess s))))"
    using ok by (simp add: mem_ok_def distinct_update)
  moreover have "list_all (\<lambda>kv. st_bufs_ok (snd kv)) (AList.update i ?st' (s_streams (sess s)))"
    using ok l mv by (intro list_all_hm_update) (auto simp: mem_ok_def st_bufs_ok_def)
  ultimately show ?thesis
    using ok mv l by (auto simp: eq mem_ok_def held_def st_caps_def)
qed

lemma mem_ok_drop_buffer:
  assumes "mem_ok (k + pb_cap b) (sess s)"
  shows "mem_ok k (sess (drop_buffer b s)) \<and> pm_frame (memory (drop_buffer b s)) = pm_frame (memory s)"
proof -
  have "moves (memory s) (pb_cap b) (release (memory s) (pb_cap b))"
    using assms by (intro moves_release) (auto simp: mem_ok_def)
  with assms show ?thesis
    by (auto simp: drop_buffer_def set_memory_def upd_def mem_ok_def held_def moves_def)
qed

lemma keeps_frame_step:
  assumes "keeps a s" and al: "alloc_ok (e_alloc E)" and n: "stream_next_frame E i s = (Some (ty, p), s1)"
    and k: "keeps s1 s2"
  shows "keeps a (drop_buffer p s2)"
proof (rule keeps_stepI [OF assms(1)])
  fix k' assume "mem_ok k' (sess s)"
  from stream_next_frame_mem [OF al this n] k
  have "mem_ok (k' + pb_cap p) (sess s2) \<and> pm_frame (memory s2) = pm_frame (memory s)"
    by (auto simp: temp_cap_def keeps_def)
  with mem_ok_drop_buffer [of k' p s2]
  show "mem_ok k' (sess (drop_buffer p s2)) \<and> pm_frame (memory (drop_buffer p s2)) = pm_frame (memory s)"
    by simp
qed

lemma keeps_no_frame:
  assumes "alloc_ok (e_alloc E)" and "stream_next_frame E i s = (None, s1)" and "keeps a s"
  shows "keeps a s1"
  using assms(3) by (rule keeps_stepI) (use stream_next_frame_mem [OF assms(1) _ assms(2)] in \<open>auto simp: temp_cap_def\<close>)

lemma extend_moves:
  assumes "pm_ok m" and "alloc_ok alloc" and "pb_cap b \<le> pm_used m" and "pb_ok b"
    and "extend_from_slice alloc m b bs = (ok, m', b')"
  shows "pm_ok m' \<and> pm_frame m' = pm_frame m \<and> pb_ok b' \<and> pm_used m' + pb_cap b = pm_used m + pb_cap b'"
  using extend_from_slice_works [OF assms(1-4), of bs m' b'] extend_from_slice_fails [OF assms(1), of alloc b bs m' b']
    assms by (cases ok) auto

lemma keeps_stream_push_bytes [keeps_rules]:
  assumes "keeps a s" and "alloc_ok (e_alloc E)" and "\<not> closed s"
  shows "keeps a (stream_push_bytes E i chunk s)"
proof (cases "get_stream s i")
  case None
  with assms show ?thesis by (simp add: stream_push_bytes_def)
next
  case (Some st)
  obtain m fp where p: "push_bytes (e_alloc E) (memory s) (st_frames st) chunk = (m, fp)" by fastforce
  have "keeps a (set_memory m (modify_stream i (\<lambda>st. st\<lparr>st_frames := fp\<rparr>) s))"
  proof (rule keeps_set_stream [OF assms(1) Some])
    fix k assume ok: "mem_ok k (sess s)"
    note l = mem_ok_lookup [OF ok Some]
    have "pm_ok m \<and> pm_frame m = pm_frame (memory s) \<and> pb_ok (fp_buf fp) \<and>
        pm_used m + pb_cap (fp_buf (st_frames st)) = pm_used (memory s) + pb_cap (fp_buf fp)"
      using p ok l extend_moves [OF _ assms(2), of "memory s" "fp_buf (st_frames st)" chunk]
      by (auto simp: push_bytes_def mem_ok_def st_caps_def st_bufs_ok_def split: if_splits prod.splits bool.splits)
    with l assms(3) show "pm_ok m \<and> pm_used m + st_caps st = pm_used (memory s) + st_caps (st\<lparr>st_frames := fp\<rparr>) \<and>
        pm_frame m = pm_frame (memory s) \<and> st_bufs_ok (st\<lparr>st_frames := fp\<rparr>)
        \<and> (closed s \<longrightarrow> st_caps (st\<lparr>st_frames := fp\<rparr>) = 0)"
      by (auto simp: st_caps_def st_bufs_ok_def)
  qed
  with Some p show ?thesis by (simp add: stream_push_bytes_def)
qed

lemma keeps_extend_class_buf:
  assumes "keeps a s" and "alloc_ok (e_alloc E)" and "\<not> closed s" and "get_stream s i = Some st"
    and "extend_class_buf E i chunk st s = (r, s')"
  shows "keeps a s' \<and> closed s' = closed s"
proof -
  obtain m b where e: "extend_from_slice (e_alloc E) (memory s) (st_class_buf st) chunk = (r, m, b)"
    and s': "s' = set_memory m (modify_stream i (\<lambda>st. st\<lparr>st_class_buf := b\<rparr>) s)"
    using assms(5) by (auto simp: extend_class_buf_def split: prod.splits)
  have "keeps a s'" unfolding s'
  proof (rule keeps_set_stream [OF assms(1,4)])
    fix k assume ok: "mem_ok k (sess s)"
    note l = mem_ok_lookup [OF ok assms(4)]
    from extend_moves [OF _ assms(2) _ _ e] ok l assms(3)
    show "pm_ok m \<and> pm_used m + st_caps st = pm_used (memory s) + st_caps (st\<lparr>st_class_buf := b\<rparr>) \<and>
        pm_frame m = pm_frame (memory s) \<and> st_bufs_ok (st\<lparr>st_class_buf := b\<rparr>)
        \<and> (closed s \<longrightarrow> st_caps (st\<lparr>st_class_buf := b\<rparr>) = 0)"
      by (auto simp: st_caps_def st_bufs_ok_def mem_ok_def)
  qed
  then show ?thesis by (simp add: s' set_memory_def modify_stream_def upd_def)
qed

section \<open>Capsules and frames\<close>

lemma mem_ok_set_capsule_buf:
  assumes "mem_ok k (sess s)" and "pm_ok m" and "pb_ok b"
    and "pm_used m + pb_cap (s_capsule_buf (sess s)) = pm_used (memory s) + pb_cap b + t"
    and "closed s \<Longrightarrow> pb_cap b = 0"
  shows "mem_ok (k + t) (sess (set_capsule_buf m b s))"
  using assms by (auto simp: set_capsule_buf_def upd_def mem_ok_def held_def)

lemma keeps_apply_credit [keeps_rules]: "keeps a s \<Longrightarrow> keeps a (snd (apply_credit ty v s))"
  by (simp add: apply_credit_def keeps_rules)

lemma keeps_apply_capsule [keeps_rules]: "keeps a s \<Longrightarrow> keeps a (snd (apply_capsule ty v s))"
  by (simp add: apply_capsule_def Let_def keeps_rules split: option.split prod.split)

lemma keeps_capsule_step:
  assumes al: "alloc_ok (e_alloc E)"
  shows "keeps s (snd (capsule_step E s))"
proof (rule keeps_stepI [OF keeps_refl])
  fix k assume ok: "mem_ok k (sess s)"
  define P where "P s' \<longleftrightarrow> mem_ok k (sess s') \<and> pm_frame (memory s') = pm_frame (memory s)" for s' :: "'a sys"
  have via: "P s'" if "keeps s s'" for s' using that ok by (simp add: keeps_def P_def)
  have cap: "pm_ok (memory s)" "pb_cap (s_capsule_buf (sess s)) \<le> pm_used (memory s)" "pb_ok (s_capsule_buf (sess s))"
    using ok by (auto simp: mem_ok_def held_def)
  have big: "P (mark_closed 0 [] True (push_ev e s))" for e by (rule via) (simp add: keeps_rules)
  have fail: "P (parser_limit_exceeded (set_memory m1 s))"
    if "copy_range (e_alloc E) (memory s) (s_capsule_buf (sess s)) lo hi = (None, m1)" for lo hi m1
  proof -
    have "set_memory m1 s = s" using copy_range_fails [OF cap(1) that] by (simp add: set_memory_def upd_def)
    then show ?thesis by (simp add: via keeps_rules)
  qed
  have step: "P (drop_buffer v s')"
    if c: "copy_range (e_alloc E) (memory s) (s_capsule_buf (sess s)) lo hi = (Some v, m1)"
      and b: "buffer_consume m1 (s_capsule_buf (sess s)) hi = (m2, b2)"
      and a: "apply_capsule ty (pb_data v) (set_capsule_buf m2 b2 s) = (go, s')" for lo hi v m1 m2 b2 ty go s'
  proof -
    note mv = copy_consume_moves [OF cap(1) al cap(2,3) c b]
    have "mem_ok (k + pb_cap v) (sess (set_capsule_buf m2 b2 s))"
      using mv ok by (intro mem_ok_set_capsule_buf) (auto simp: mem_ok_def held_def)
    moreover have "keeps (set_capsule_buf m2 b2 s) s'"
      using keeps_apply_capsule [OF keeps_refl, of "set_capsule_buf m2 b2 s" ty "pb_data v"] a by simp
    ultimately have "mem_ok (k + pb_cap v) (sess s') \<and> pm_frame (memory s') = pm_frame m2"
      by (simp add: keeps_def set_capsule_buf_def upd_def)
    with mem_ok_drop_buffer [of k v s'] mv show ?thesis by (simp add: P_def)
  qed
  have same: "P s" using ok by (simp add: P_def)
  have "P (snd (capsule_step E s))"
    by (auto simp: capsule_step_def Let_def same big intro: fail step split: option.split prod.split)
  then show "mem_ok k (sess (snd (capsule_step E s)))
      \<and> pm_frame (memory (snd (capsule_step E s))) = pm_frame (memory s)" by (simp add: P_def)
qed

lemma keeps_scan_capsules [keeps_rules]:
  assumes "keeps a s" and al: "alloc_ok (e_alloc E)"
  shows "keeps a (scan_capsules E p s)"
proof -
  have ext: "keeps s (set_capsule_buf m b s)"
    if "\<not> closed s" "extend_from_slice (e_alloc E) (memory s) (s_capsule_buf (sess s)) p = (ok, m, b)" for ok m b
  proof (rule keeps_stepI [OF keeps_refl])
    fix k assume "mem_ok k (sess s)"
    moreover then have "pm_ok m \<and> pm_frame m = pm_frame (memory s) \<and> pb_ok b
        \<and> pm_used m + pb_cap (s_capsule_buf (sess s)) = pm_used (memory s) + pb_cap b"
      by (intro extend_moves [OF _ al _ _ that(2)]) (auto simp: mem_ok_def held_def)
    ultimately show "mem_ok k (sess (set_capsule_buf m b s))
        \<and> pm_frame (memory (set_capsule_buf m b s)) = pm_frame (memory s)"
      using that(1) mem_ok_set_capsule_buf [of k s m b 0] by (simp add: set_capsule_buf_def upd_def)
  qed
  have loop: "keeps s' (capsule_loop E s')" for s' :: "'a sys"
    by (rule cl.loop_rel) (rule keeps_refl, erule (1) keeps_trans, rule keeps_capsule_step [OF al])
  show ?thesis
  proof (cases "closed s")
    case False
    obtain ok m b where e: "extend_from_slice (e_alloc E) (memory s) (s_capsule_buf (sess s)) p = (ok, m, b)"
      by (metis prod_cases3)
    have "keeps a (set_capsule_buf m b s)" using keeps_trans [OF assms(1) ext [OF False e]] .
    with loop [of "set_capsule_buf m b s"] False e show ?thesis
      by (cases ok) (auto simp: scan_capsules_def keeps_rules intro: keeps_trans)
  qed (simp add: scan_capsules_def assms(1))
qed

lemma keeps_reject_connect [keeps_rules]: "keeps a s \<Longrightarrow> keeps a (reject_connect E i status s)"
  by (simp add: reject_connect_def Let_def keeps_rules push_chunk_def split: sum.split)

lemma keeps_accept_connect [keeps_rules]: "keeps a s \<Longrightarrow> keeps a (accept_connect E i hs s)"
  by (simp add: accept_connect_def Let_def keeps_rules push_chunk_def split: sum.split option.split prod.split)

lemma keeps_set_headers_done [keeps_rules]: "keeps a s \<Longrightarrow> keeps a (set_headers_done i s)"
  by (simp add: set_headers_done_def keeps_rules)

lemma keeps_server_connect_frame [keeps_rules]:
  "keeps a s \<Longrightarrow> alloc_ok (e_alloc E) \<Longrightarrow> keeps a (server_connect_frame E i hdone ty p s)"
  by (simp add: server_connect_frame_def Let_def keeps_rules split: sum.split)

lemma keeps_server_connect_step: "alloc_ok (e_alloc E) \<Longrightarrow> keeps s (snd (server_connect_step E i s))"
  by (auto simp: server_connect_step_def Let_def keeps_no_frame keeps_rules
      intro!: keeps_frame_step [OF keeps_refl] split: prod.split option.split)

lemma keeps_parse_server_connect [keeps_rules]:
  assumes "keeps a s" and "alloc_ok (e_alloc E)"
  shows "keeps a (parse_server_connect_frames E i s)"
proof -
  have "keeps s (server_connect_loop E i s)"
    by (rule scl.loop_rel) (rule keeps_refl, erule (1) keeps_trans, rule keeps_server_connect_step [OF assms(2)])
  with assms(1) show ?thesis
    by (auto simp: parse_server_connect_frames_def keeps_rules split: option.split intro: keeps_trans)
qed

lemma with_prefix_bufs: "st_frames (with_prefix r p) = FrameParser_new"
    "st_class_buf (with_prefix r p) = ParserBuffer_new"
  by (simp_all add: with_prefix_def Stream_new_def push_chunk_def Let_def)

lemma keeps_queue_connect [keeps_rules]: "keeps a s \<Longrightarrow> keeps a (queue_connect E s)"
  by (simp add: queue_connect_def Let_def keeps_rules split: sum.split)

lemma keeps_connect_response [keeps_rules]: "keeps a s \<Longrightarrow> keeps a (snd (connect_response E Q hs s))"
  by (simp add: connect_response_def Let_def keeps_rules)

lemma keeps_connect_frame [keeps_rules]:
  "keeps a s \<Longrightarrow> alloc_ok (e_alloc E) \<Longrightarrow> keeps a (snd (connect_frame E Q i hdone ty p s))"
  by (simp add: connect_frame_def Let_def keeps_rules split: sum.split)

lemma keeps_pair_step:
  assumes "alloc_ok (e_alloc E)" and "\<And>hdone ty p s. keeps s (snd (f hdone ty p s))"
  shows "keeps s (snd (case stream_next_frame E i s of (None, s) \<Rightarrow> (False, s)
     | (Some (ty, payload), s) \<Rightarrow>
        (case f (g s) ty (pb_data payload) s of (go, s) \<Rightarrow> (go, drop_buffer payload s))))"
proof (cases "stream_next_frame E i s")
  case (Pair r s1)
  show ?thesis
  proof (cases r)
    case None
    with Pair keeps_no_frame [OF assms(1) Pair [unfolded None] keeps_refl] show ?thesis by simp
  next
    case (Some tp)
    obtain ty p where tp: "tp = (ty, p)" by (cases tp)
    obtain go s2 where f: "f (g s1) ty (pb_data p) s1 = (go, s2)" by fastforce
    have "keeps s1 s2" using assms(2) [of s1 "g s1" ty "pb_data p"] f by simp
    from keeps_frame_step [OF keeps_refl assms(1) Pair [unfolded Some tp] this] Pair Some tp f
    show ?thesis by simp
  qed
qed

lemma keeps_parse_connect [keeps_rules]:
  assumes "keeps a s" and al: "alloc_ok (e_alloc E)"
  shows "keeps a (parse_connect_frames E Q i s)"
proof -
  have step: "keeps s' (snd (connect_step E Q i s'))" for s' :: "'a sys"
    unfolding connect_step_def Let_def by (rule keeps_pair_step [OF al]) (simp add: keeps_rules al)
  have "keeps s (parse_connect_frames E Q i s)"
    by (rule ccl.loop_rel) (rule keeps_refl, erule (1) keeps_trans, rule step)
  with assms(1) show ?thesis by (rule keeps_trans)
qed

lemma keeps_apply_peer_settings [keeps_rules]:
  "keeps a s \<Longrightarrow> alloc_ok (e_alloc E) \<Longrightarrow> keeps a (apply_peer_settings E ps s)"
  by (simp add: apply_peer_settings_def Let_def keeps_rules)

lemma keeps_control_frame [keeps_rules]:
  "keeps a s \<Longrightarrow> alloc_ok (e_alloc E) \<Longrightarrow> keeps a (snd (control_frame E Q i hdone ty p s))"
  by (simp add: control_frame_def Let_def keeps_rules split: sum.split)

lemma keeps_parse_control [keeps_rules]:
  assumes "keeps a s" and al: "alloc_ok (e_alloc E)"
  shows "keeps a (parse_control_frames E Q i s)"
proof -
  have step: "keeps s' (snd (control_step E Q i s'))" for s' :: "'a sys"
    unfolding control_step_def Let_def by (rule keeps_pair_step [OF al]) (simp add: keeps_rules al)
  have "keeps s (parse_control_frames E Q i s)"
    by (rule pcl.loop_rel) (rule keeps_refl, erule (1) keeps_trans, rule step)
  with assms(1) show ?thesis by (rule keeps_trans)
qed

section \<open>Receiving\<close>

lemma keeps_account_incoming [keeps_rules]: "keeps a s \<Longrightarrow> keeps a (snd (account_incoming bidi s))"
  by (simp add: account_incoming_def Let_def keeps_rules)

lemma keeps_account_receive [keeps_rules]: "keeps a s \<Longrightarrow> keeps a (snd (account_receive i n s))"
  by (simp add: account_receive_def Let_def keeps_rules)

lemma keeps_finish_recv [keeps_rules]: "keeps a s \<Longrightarrow> keeps a (finish_recv i s)"
  by (simp add: finish_recv_def keeps_rules)

lemma keeps_set_role [keeps_rules]: "keeps a s \<Longrightarrow> keeps a (set_role i r s)"
  by (simp add: set_role_def keeps_rules)

lemma keeps_recv_peer_control [keeps_rules]:
  "keeps a s \<Longrightarrow> alloc_ok (e_alloc E) \<Longrightarrow> \<not> closed s \<Longrightarrow> keeps a (recv_peer_control E Q i c f s)"
  by (simp add: recv_peer_control_def Let_def keeps_rules)

lemma keeps_recv_connect [keeps_rules]:
  "keeps a s \<Longrightarrow> alloc_ok (e_alloc E) \<Longrightarrow> \<not> closed s \<Longrightarrow> keeps a (recv_connect E Q i c f s)"
  by (simp add: recv_connect_def Let_def keeps_rules)

lemma keeps_account_incoming_eq: "keeps a s \<Longrightarrow> account_incoming bidi s = (b, s') \<Longrightarrow> keeps a s'"
  using keeps_account_incoming [of a s bidi] by simp

lemma keeps_account_receive_eq: "keeps a s \<Longrightarrow> account_receive i n s = (b, s') \<Longrightarrow> keeps a s'"
  using keeps_account_receive [of a s i n] by simp

lemma keeps_incoming_stream [keeps_rules]: "keeps a s \<Longrightarrow> keeps a (incoming_stream i bidi n d f s)"
proof -
  assume a: "keeps a s"
  define s0 where "s0 = modify_stream i (\<lambda>st. st\<lparr>st_recv_prefix := of_nat n\<rparr>) (set_role i (WtData bidi) s)"
  have "keeps a s0" unfolding s0_def using a by (simp add: keeps_rules)
  then show ?thesis
    unfolding incoming_stream_def Let_def s0_def [symmetric]
    by (auto simp: keeps_rules split: prod.split bool.split
        intro!: keeps_finish_recv keeps_push_ev intro: keeps_account_incoming_eq keeps_account_receive_eq)
qed

lemma closed_modify [simp]: "closed (modify_stream i f s) = closed s"
  by (simp add: modify_stream_def upd_def)

lemma closed_set_role [simp]: "closed (set_role i r s) = closed s"
  by (simp add: set_role_def clear_class_buf_def modify_stream_def upd_def set_memory_def
      split: option.split prod.split)

lemma keeps_resolve_pending_uni [keeps_rules]:
  assumes "keeps a s" and "alloc_ok (e_alloc E)" and "\<not> closed s"
  shows "keeps a (resolve_pending_uni E Q i c f s)"
proof (cases "get_stream s i")
  case (Some st)
  obtain r s1 where e: "extend_class_buf E i c st s = (r, s1)" by fastforce
  from keeps_extend_class_buf [OF assms Some e] assms(3) have k: "keeps a s1" "\<not> closed s1" by auto
  with Some e assms(2) show ?thesis
    by (simp add: resolve_pending_uni_def Let_def keeps_rules split: option.split prod.split bool.split)
qed (simp add: resolve_pending_uni_def assms)

lemma keeps_resolve_pending_bidi [keeps_rules]:
  assumes "keeps a s" and "alloc_ok (e_alloc E)" and "\<not> closed s"
  shows "keeps a (resolve_pending_bidi E Q i c f s)"
proof (cases "get_stream s i")
  case (Some st)
  obtain r s1 where e: "extend_class_buf E i c st s = (r, s1)" by fastforce
  from keeps_extend_class_buf [OF assms Some e] assms(3) have k: "keeps a s1" "\<not> closed s1" by auto
  with Some e assms(2) show ?thesis
    by (simp add: resolve_pending_bidi_def Let_def keeps_rules split: option.split prod.split bool.split)
qed (simp add: resolve_pending_bidi_def assms)

lemma keeps_process_recv [keeps_rules]:
  "keeps a s \<Longrightarrow> alloc_ok (e_alloc E) \<Longrightarrow> \<not> closed s \<Longrightarrow> keeps a (process_recv E Q i c f s)"
  by (auto simp: process_recv_def Let_def keeps_rules split: option.split role.split prod.split bool.split
      intro!: keeps_finish_recv keeps_push_ev intro: keeps_account_receive_eq)

lemma keeps_read_loop:
  "keeps a s \<Longrightarrow> alloc_ok (e_alloc E) \<Longrightarrow> \<not> closed s \<Longrightarrow> read_loop n E Q i bp s = Done (r, s') \<Longrightarrow> keeps a s'"
proof (induction n arbitrary: s)
  case (Suc n)
  obtain st where st: "get_stream s i = Some st" using Suc.prems(4) by (auto split: option.splits)
  obtain rc c where rc: "q_stream_recv Q (conn s) i (if bp \<and> st_role st = PendingUni then 1 else READ_BUF) = (rc, c)"
    by fastforce
  have k: "keeps a (s\<lparr>conn := c\<rparr>)" using Suc.prems(1) by (simp add: keeps_rules)
  show ?case
  proof (cases rc)
    case (Inl e)
    with Suc.prems st rc k show ?thesis
      by (auto simp: Let_def split: if_splits qerr.splits option.splits prod.splits bool.splits
          intro: keeps_account_receive_eq)
  next
    case (Inr cf)
    obtain chunk f where cf: "cf = (chunk, f)" by (cases cf)
    have "keeps a (process_recv E Q i chunk f (s\<lparr>conn := c\<rparr>))" using k Suc.prems by (simp add: keeps_rules)
    with Suc.prems Suc.IH [of "process_recv E Q i chunk f (s\<lparr>conn := c\<rparr>)"] st rc Inr cf show ?thesis
      by (auto simp: Let_def split: if_splits)
  qed
qed simp

lemma keeps_recv_reset [keeps_rules]: "keeps a s \<Longrightarrow> keeps a (recv_reset Q i code s)"
  by (simp add: recv_reset_def Let_def keeps_rules split: option.split role.split)

lemma Stream_new_bufs [simp]: "st_frames (Stream_new r) = FrameParser_new" "st_class_buf (Stream_new r) = ParserBuffer_new"
  by (simp_all add: Stream_new_def)

lemma keeps_entry_or_insert [keeps_rules]: "keeps a s \<Longrightarrow> keeps a (entry_or_insert i s)"
  by (simp add: entry_or_insert_def keeps_rules split: option.split)

lemma closed_insert_stream [simp]: "closed (insert_stream i st s) = closed s"
  by (simp add: insert_stream_def upd_def)

lemma closed_entry_or_insert [simp]: "closed (entry_or_insert i s) = closed s"
  by (simp add: entry_or_insert_def split: option.split)

lemma keeps_on_readable:
  assumes "alloc_ok (e_alloc E)" and "on_readable n E Q i bp s = Done s'"
  shows "keeps s s'"
proof (cases "closed s")
  case False
  have k: "keeps s (entry_or_insert i s)" by (simp add: keeps_rules)
  with assms(2) False keeps_read_loop [OF k assms(1)] show ?thesis
    by (auto simp: on_readable_def Let_def keeps_rules split: option.splits if_splits outcome.splits prod.splits)
qed (use assms in \<open>simp add: on_readable_def keeps_rules\<close>)

section \<open>Sending and the application's operations\<close>

lemma keeps_on_established [keeps_rules]: "keeps a s \<Longrightarrow> keeps a (on_established s)"
  by (simp add: on_established_def Let_def keeps_rules)

lemma keeps_reconcile [keeps_rules]: "keeps a s \<Longrightarrow> keeps a (reconcile_send_final_size Q i s)"
  by (simp add: reconcile_send_final_size_def Let_def keeps_rules split: option.split)

lemma keeps_on_datagrams: "keeps a s \<Longrightarrow> on_datagrams n Q s = Some s' \<Longrightarrow> keeps a s'"
proof (induction n arbitrary: s)
  case (Suc n)
  obtain r c where r: "q_dgram_recv Q (conn s) 65536 = (r, c)" by fastforce
  have k: "keeps a (s\<lparr>conn := c\<rparr>)" using Suc.prems(1) by (simp add: keeps_rules)
  show ?case
  proof (cases r)
    case (Inl e)
    with r k Suc.prems(2) show ?thesis by auto
  next
    case (Inr d)
    let ?s = "case read_varint d of None \<Rightarrow> s\<lparr>conn := c\<rparr>
          | Some (qsi, off) \<Rightarrow> if qsi = CONNECT_ID div 4 then push_ev (EvDatagram (drop off d)) (s\<lparr>conn := c\<rparr>)
             else s\<lparr>conn := c\<rparr>"
    have "keeps a ?s" using k by (simp add: keeps_rules split: option.split)
    with r Inr Suc.prems(2) show ?thesis by (intro Suc.IH [of ?s]) (simp_all add: Let_def)
  qed
qed simp

lemma keeps_send_datagram [keeps_rules]: "keeps a s \<Longrightarrow> keeps a (send_datagram Q d r s)"
  by (simp add: send_datagram_def keeps_rules split: prod.split)

lemma keeps_allocate_stream [keeps_rules]: "keeps a s \<Longrightarrow> keeps a (allocate_stream bidi r s)"
  by (simp add: allocate_stream_def Let_def keeps_rules)

lemma keeps_release_opens: "keeps a s \<Longrightarrow> keeps a (release_opens ps s)"
  by (induction ps s rule: release_opens.induct) (auto simp: Let_def keeps_rules)

lemma keeps_release_pending_opens [keeps_rules]: "keeps a s \<Longrightarrow> keeps a (release_pending_opens s)"
  by (simp add: release_pending_opens_def keeps_release_opens keeps_rules)

lemma keeps_open_stream [keeps_rules]: "keeps a s \<Longrightarrow> keeps a (open_stream bidi r s)"
  by (simp add: open_stream_def keeps_rules)

lemma keeps_stream_write [keeps_rules]: "keeps a s \<Longrightarrow> keeps a (stream_write i d r s)"
  by (simp add: stream_write_def keeps_rules push_chunk_def split: option.split)

lemma keeps_stream_fin [keeps_rules]: "keeps a s \<Longrightarrow> keeps a (stream_fin i s)"
  by (simp add: stream_fin_def keeps_rules)

lemma keeps_stream_reset [keeps_rules]: "keeps a s \<Longrightarrow> keeps a (stream_reset Q i c s)"
  by (simp add: stream_reset_def Let_def keeps_rules split: option.split)

lemma keeps_stream_stop_sending [keeps_rules]: "keeps a s \<Longrightarrow> keeps a (stream_stop_sending Q i c s)"
  by (simp add: stream_stop_sending_def Let_def keeps_rules split: option.split)

lemma keeps_set_paused [keeps_rules]: "keeps a s \<Longrightarrow> keeps a (set_paused i p s)"
  by (simp add: set_paused_def keeps_rules)

lemma keeps_close [keeps_rules]: "keeps a s \<Longrightarrow> keeps a (close c r s)"
  by (simp add: close_def keeps_rules split: option.split)

lemma keeps_send_drain [keeps_rules]: "keeps a s \<Longrightarrow> keeps a (send_drain s)"
  by (simp add: send_drain_def Let_def keeps_rules push_chunk_def split: option.split)

lemma keeps_queue_session_capsule [keeps_rules]: "keeps a s \<Longrightarrow> keeps a (queue_session_capsule ty v s)"
  by (simp add: queue_session_capsule_def keeps_rules push_chunk_def)

lemma keeps_flush_stream:
  assumes "keeps a s" shows "keeps a (fst (flush_stream Q i (s, w)))"
proof -
  have same: "keeps a (s'\<lparr>evs := e\<rparr>)" if "keeps a s'" for s' :: "'a sys" and e
    using that by (simp add: keeps_def)
  show ?thesis using assms
    by (simp add: flush_stream_def Let_def keeps_rules same split: option.split prod.split sum.split)
qed

lemma keeps_flush_streams [keeps_rules]: "keeps a s \<Longrightarrow> keeps a (flush_streams E Q s)"
proof -
  have fold: "keeps a s \<Longrightarrow> keeps a (fst (foldl (\<lambda>sw i. flush_stream Q i sw) (s, w) ids))" for s w ids
  proof (induction ids arbitrary: s w)
    case (Cons i ids)
    then show ?case using keeps_flush_stream [of a s Q i w] by (cases "flush_stream Q i (s, w)") auto
  qed simp
  assume "keeps a s"
  from fold [OF this, of 0 "e_order E (hm_keys (s_streams (sess s)))"] show ?thesis
    by (cases "foldl (\<lambda>sw i. flush_stream Q i sw) (s, 0) (e_order E (hm_keys (s_streams (sess s))))")
      (simp add: flush_streams_def keeps_rules)
qed

lemma keeps_signal [keeps_rules]: "keeps a s \<Longrightarrow> keeps a (signal_flow_control_blocked s)"
  by (simp add: signal_flow_control_blocked_def signal_data_blocked_def signal_bidi_blocked_def
      signal_uni_blocked_def Let_def keeps_rules)

lemma hm_total_filter: "hm_total f (filter P m) + hm_total f (filter (\<lambda>x. \<not> P x) m) = hm_total f m"
  by (induction m) auto

lemma keeps_prune_streams [keeps_rules]: "keeps a s \<Longrightarrow> keeps a (prune_streams s)"
proof (erule keeps_stepI)
  fix k assume ok: "mem_ok k (sess s)"
  let ?keep = "\<lambda>(i, st). keep_stream (s_is_server (sess s)) i st"
  let ?gone = "filter (\<lambda>x. \<not> ?keep x) (s_streams (sess s))"
  have tot: "hm_total st_caps (filter ?keep (s_streams (sess s))) + hm_total st_caps ?gone
      = hm_total st_caps (s_streams (sess s))" by (rule hm_total_filter)
  have "moves (memory s) (sum_list (map (st_caps \<circ> snd) ?gone))
      (foldl (\<lambda>m kv. drop_stream m (snd kv)) (memory s) ?gone)"
    by (rule moves_foldl) (use ok tot moves_drop_stream in \<open>auto simp: mem_ok_def held_def hm_total_def\<close>)
  moreover have "distinct (hm_keys (filter ?keep (s_streams (sess s))))"
    using ok by (simp add: mem_ok_def distinct_map_filter)
  moreover have "list_all (\<lambda>kv. st_bufs_ok (snd kv)) (filter ?keep (s_streams (sess s)))"
    using ok by (simp add: mem_ok_def list_all_iff)
  moreover have "(\<lambda>x. \<not> ?keep x) = (\<lambda>(i, st). \<not> keep_stream (s_is_server (sess s)) i st)" by auto
  ultimately show "mem_ok k (sess (prune_streams s)) \<and> pm_frame (memory (prune_streams s)) = pm_frame (memory s)"
    using ok tot by (auto simp: prune_streams_def Let_def upd_def mem_ok_def held_def moves_def hm_total_def)
qed

lemma keeps_flush_terminal_error [keeps_rules]: "keeps a s \<Longrightarrow> keeps a (flush_terminal_error Q s)"
  by (simp add: flush_terminal_error_def keeps_rules split: option.split prod.split)

lemma keeps_flush_grant [keeps_rules]: "keeps a s \<Longrightarrow> keeps a (flush_grant s)"
  by (simp add: flush_grant_def Let_def keeps_rules)

lemma keeps_replenish_data [keeps_rules]: "keeps a s \<Longrightarrow> keeps a (replenish_data s)"
  by (simp add: replenish_data_def Let_def keeps_rules)

lemma keeps_replenish_streams [keeps_rules]: "keeps a s \<Longrightarrow> keeps a (replenish_streams b s)"
  by (simp add: replenish_streams_def Let_def keeps_rules)

lemma keeps_flush_replenish [keeps_rules]: "keeps a s \<Longrightarrow> keeps a (flush_replenish s)"
  by (simp add: flush_replenish_def keeps_rules)

lemma keeps_flush_close_capsule [keeps_rules]: "keeps a s \<Longrightarrow> keeps a (flush_close_capsule s)"
  by (simp add: flush_close_capsule_def Let_def keeps_rules push_chunk_def split: option.split)

lemma keeps_flush_quic_close [keeps_rules]: "keeps a s \<Longrightarrow> keeps a (flush_quic_close Q s)"
  by (simp add: flush_quic_close_def Let_def keeps_rules split: option.split)

lemma keeps_flush [keeps_rules]: "keeps a s \<Longrightarrow> keeps a (flush E Q s)"
  by (simp add: flush_def Let_def keeps_rules)

end
