(* ===== verification/Quic_Model.thy ===== *)
theory Quic_Model
  imports Session_Flush
begin

text \<open>
  A small in-memory QUIC connection and environment: a concrete instance of the parameters \<open>quic\<close>
  and \<open>env\<close>, on which the hypotheses about them hold and the witnesses evaluate.
\<close>

record mini =
  mi_in :: "(u64 \<times> bytes \<times> bool) list"
  mi_out :: "(u64 \<times> bytes \<times> bool) list"
  mi_dgrams :: "bytes list"
  mi_shut :: "(u64 \<times> shutdown \<times> u64) list"
  mi_closes :: "(u64 \<times> bytes) list"

definition mini_idle :: mini where
  "mini_idle = \<lparr>mi_in = [], mi_out = [], mi_dgrams = [], mi_shut = [], mi_closes = []\<rparr>"

definition mini_recv :: "mini \<Rightarrow> u64 \<Rightarrow> nat \<Rightarrow> (qerr + bytes \<times> bool) \<times> mini" where
  "mini_recv c i n =
     (case map_of (mi_in c) i of
        None \<Rightarrow> (Inl QDone, c)
      | Some (bs, fin) \<Rightarrow>
         (if length bs \<le> n then (Inr (bs, fin), c\<lparr>mi_in := AList.delete i (mi_in c)\<rparr>)
          else (Inr (take n bs, False), c\<lparr>mi_in := AList.update i (drop n bs, fin) (mi_in c)\<rparr>)))"

definition mini_send :: "mini \<Rightarrow> u64 \<Rightarrow> bytes \<Rightarrow> bool \<Rightarrow> (qerr + nat) \<times> mini" where
  "mini_send c i bs fin = (Inr (length bs), c\<lparr>mi_out := mi_out c @ [(i, bs, fin)]\<rparr>)"

definition mini_dgram_recv :: "mini \<Rightarrow> nat \<Rightarrow> (qerr + bytes) \<times> mini" where
  "mini_dgram_recv c n =
     (case mi_dgrams c of [] \<Rightarrow> (Inl QDone, c) | d # ds \<Rightarrow> (Inr (take n d), c\<lparr>mi_dgrams := ds\<rparr>))"

definition mini_quic :: "mini quic" where
  "mini_quic =
     \<lparr>q_stream_recv = mini_recv, q_stream_recv_final_size = (\<lambda>_ _. None), q_stream_send = mini_send,
      q_stream_send_final_size = (\<lambda>_ _. None),
      q_stream_shutdown = (\<lambda>c i d n. c\<lparr>mi_shut := mi_shut c @ [(i, d, n)]\<rparr>),
      q_close = (\<lambda>c app code msg. c\<lparr>mi_closes := mi_closes c @ [(code, msg)]\<rparr>),
      q_dgram_recv = mini_dgram_recv,
      q_dgram_send = (\<lambda>c d. (Inr (), c\<lparr>mi_dgrams := mi_dgrams c @ [d]\<rparr>)),
      q_dgram_max_writable_len = (\<lambda>_. Some 1200),
      q_export_keying_material = (\<lambda>c n label ctx. (Some (replicate n 0), c)),
      q_stats = (\<lambda>_. \<lparr>cs_sent_bytes = 0, cs_recv_bytes = 0, cs_sent = 0, cs_recv = 0, cs_lost = 0, cs_paths = []\<rparr>),
      q_is_established = (\<lambda>_. True), q_is_closed = (\<lambda>c. mi_closes c \<noteq> []), q_is_timed_out = (\<lambda>_. False),
      q_readable = (\<lambda>c. map fst (mi_in c)), q_on_timeout = (\<lambda>c. c),
      q_peer_error = (\<lambda>_. None), q_local_error = (\<lambda>_. None)\<rparr>"

definition mini_env :: "header list \<Rightarrow> env" where
  "mini_env hs =
     \<lparr>e_alloc = Some, e_qpack_encode = (\<lambda>_ _. Inr []), e_qpack_decode = (\<lambda>_ _. Inr hs),
      e_sf_item = (\<lambda>_. None), e_sf_list = (\<lambda>_. Some []), e_order = (\<lambda>xs. xs)\<rparr>"

definition mini_pend :: "mini \<Rightarrow> nat" where
  "mini_pend c = hm_total (length \<circ> fst) (mi_in c) + length (mi_dgrams c)"

lemma hm_total_delete_le: "map_of m k = Some v \<Longrightarrow> hm_total f (AList.delete k m) + f v \<le> hm_total f m"
proof (induction m)
  case (Cons kv m)
  have "hm_total f (AList.delete k m') \<le> hm_total f m'" for m'
    by (induction m') auto
  then show ?case using Cons by (cases kv) (auto split: if_splits intro: add_mono)
qed simp

lemma alloc_ok_mini [simp]: "alloc_ok (e_alloc (mini_env hs))"
  by (simp add: alloc_ok_def mini_env_def)

end
