(* ===== verification/Session_Life.thy ===== *)
theory Session_Life
  imports Session_Rel Session_Memory Quic_Model
begin

text \<open>
  The life of a session: its configuration is constant, it closes and drains at most once, its
  parser memory is accounted for in every reachable state, and draining a readable stream always
  ends, without a panic.
\<close>

section \<open>What any sequence of operations preserves\<close>

fun is_closed_ev :: "ev \<Rightarrow> bool" where
  "is_closed_ev (EvClosed _ _ _) = True"
| "is_closed_ev _ = False"

definition n_closed :: "ev list \<Rightarrow> nat" where
  "n_closed es = length (filter is_closed_ev es)"

definition n_draining :: "ev list \<Rightarrow> nat" where
  "n_draining es = length (filter (\<lambda>e. e = EvDraining) es)"

definition evolves :: "'c sys \<Rightarrow> 'c sys \<Rightarrow> bool" where
  "evolves a s \<longleftrightarrow>
     config (sess s) = config (sess a)
     \<and> (s_ready (sess a) \<longrightarrow> s_ready (sess s))
     \<and> (\<exists>new. evs s = evs a @ new
          \<and> n_closed new + of_bool (closed a) = of_bool (closed s)
          \<and> n_draining new + of_bool (s_drain_emitted (sess a)) = of_bool (s_drain_emitted (sess s)))"

lemma evolvesI:
  "config (sess s) = config (sess a) \<Longrightarrow> (s_ready (sess a) \<Longrightarrow> s_ready (sess s)) \<Longrightarrow> evs s = evs a @ new \<Longrightarrow>
   n_closed new + of_bool (closed a) = of_bool (closed s) \<Longrightarrow>
   n_draining new + of_bool (s_drain_emitted (sess a)) = of_bool (s_drain_emitted (sess s)) \<Longrightarrow> evolves a s"
  by (auto simp: evolves_def)

lemma ordinary_counts: "ordinary e \<Longrightarrow> n_closed [e] = 0 \<and> n_draining [e] = 0"
  by (cases e) (auto simp: n_closed_def n_draining_def)

lemma n_Nil [simp]: "n_closed [] = 0" "n_draining [] = 0"
  by (simp_all add: n_closed_def n_draining_def)

lemma evolves_streams:
  "evolves s (upd (\<lambda>w. w\<lparr>s_streams := f w, s_parser_memory := g w\<rparr>) s)"
  "evolves s (upd (\<lambda>w. w\<lparr>s_streams := f w\<rparr>) s)"
  by (rule evolvesI [of _ _ "[]"]; simp add: upd_def config_def)+

lemma closed_mark_closed [simp]: "closed (mark_closed c r b s)"
  by (simp add: mark_closed_def push_ev_def upd_def split: prod.split)

lemma evolves_mark_closed: "evolves s (mark_closed c r b s)"
proof (cases "closed s")
  case False
  then show ?thesis
    by (intro evolvesI [of _ _ "[EvClosed c r b]"])
      (simp_all add: mark_closed_def push_ev_def upd_def config_def n_closed_def n_draining_def
        split: prod.split)
qed (auto intro!: evolvesI [of _ _ "[]"] simp: mark_closed_def)

interpretation ev: session_relation evolves Q for Q :: "'c quic"
proof
  show "evolves s s" for s :: "'c sys" by (rule evolvesI [of _ _ "[]"]) auto
  show "evolves a c" if "evolves a b" "evolves b c" for a b c :: "'c sys"
  proof -
    from that obtain n1 n2 where
      "evs b = evs a @ n1" "n_closed n1 + of_bool (closed a) = of_bool (closed b)"
      "n_draining n1 + of_bool (s_drain_emitted (sess a)) = of_bool (s_drain_emitted (sess b))"
      "evs c = evs b @ n2" "n_closed n2 + of_bool (closed b) = of_bool (closed c)"
      "n_draining n2 + of_bool (s_drain_emitted (sess b)) = of_bool (s_drain_emitted (sess c))"
      by (auto simp: evolves_def)
    with that show ?thesis
      by (intro evolvesI [of _ _ "n1 @ n2"]) (auto simp: evolves_def n_closed_def n_draining_def)
  qed
  show "evolves s (push_ev e s)" if "ordinary e" for e and s :: "'c sys"
    by (rule evolvesI [of _ _ "[e]"]) (simp_all add: push_ev_def ordinary_counts [OF that])
  show "evolves s (upd f s)" if "untracked f" for f and s :: "'c sys"
    using that by (intro evolvesI [of _ _ "[]"]) (simp_all add: untracked_def upd_def)
  show "evolves s (modify_stream i g s)" for i g and s :: "'c sys"
    unfolding modify_stream_def by (rule evolves_streams)
  show "evolves s (insert_stream i st s)" for i st and s :: "'c sys"
    unfolding insert_stream_def by (rule evolves_streams)
  show "evolves s (remove_stream i s)" for i and s :: "'c sys"
    unfolding remove_stream_def by (rule evolves_streams)
  show "evolves s (prune_streams s)" for s :: "'c sys"
    unfolding prune_streams_def Let_def by (rule evolves_streams)
  show "evolves s (mark_closed c r b s)" for c r b and s :: "'c sys" by (rule evolves_mark_closed)
  show "evolves s (push_ev EvDraining (upd (\<lambda>w. w\<lparr>s_drain_emitted := True\<rparr>) s))"
    if "\<not> s_drain_emitted (sess s)" for s :: "'c sys"
    using that by (intro evolvesI [of _ _ "[EvDraining]"])
      (simp_all add: push_ev_def upd_def config_def n_closed_def n_draining_def)
  show "evolves s (push_ev (EvReady p hs) (upd (\<lambda>w. w\<lparr>s_ready := True\<rparr>) s))" for p hs and s :: "'c sys"
    by (rule evolvesI [of _ _ "[EvReady p hs]"])
      (simp_all add: push_ev_def upd_def config_def n_closed_def n_draining_def)
  show "evolves s (push_ev (EvServerReady au pa og ex rq sel ra rp) (upd (\<lambda>w. w\<lparr>s_ready := True\<rparr>) s))"
    for au pa og ex rq sel ra rp and s :: "'c sys"
    by (rule evolvesI [of _ _ "[EvServerReady au pa og ex rq sel ra rp]"])
      (simp_all add: push_ev_def upd_def config_def n_closed_def n_draining_def)
  have conn: "evolves s (s\<lparr>conn := c\<rparr>)" for c and s :: "'c sys"
    by (rule evolvesI [of _ _ "[]"]) simp_all
  show "evolves s (s\<lparr>conn := q_close Q (conn s) x y z\<rparr>)" for x y z and s :: "'c sys" by (rule conn)
  show "evolves s (s\<lparr>conn := q_stream_shutdown Q (conn s) i d n\<rparr>)" for i d n and s :: "'c sys" by (rule conn)
  show "evolves s (s\<lparr>conn := c\<rparr>)" for c and s :: "'c sys" by (rule conn)
qed

section \<open>Reading ends\<close>

text \<open>
  What the receive loops rely on from \<^verbatim>\<open>quiche\<close>: \<open>pend\<close> bounds the bytes and datagrams it holds for
  the application. Reading returns at most the requested bytes and removes them; closing the
  connection or shutting a stream down adds none.
\<close>

definition recv_laws :: "'c quic \<Rightarrow> ('c \<Rightarrow> nat) \<Rightarrow> bool" where
  "recv_laws Q pend \<longleftrightarrow>
     (\<forall>c i n bs fin c'. q_stream_recv Q c i n = (Inr (bs, fin), c') \<longrightarrow>
        length bs \<le> n \<and> pend c' + length bs \<le> pend c)
     \<and> (\<forall>c n d c'. q_dgram_recv Q c n = (Inr d, c') \<longrightarrow> pend c' < pend c)
     \<and> (\<forall>c x y z. pend (q_close Q c x y z) \<le> pend c)
     \<and> (\<forall>c i d n. pend (q_stream_shutdown Q c i d n) \<le> pend c)"

text \<open>Bytes are not added to the connection, and no stream disappears.\<close>

definition reads :: "'c quic \<Rightarrow> ('c \<Rightarrow> nat) \<Rightarrow> 'c sys \<Rightarrow> 'c sys \<Rightarrow> bool" where
  "reads Q pend a s \<longleftrightarrow>
     (recv_laws Q pend \<longrightarrow> pend (conn s) \<le> pend (conn a))
     \<and> (\<forall>i. get_stream a i \<noteq> None \<longrightarrow> get_stream s i \<noteq> None)"

interpretation rd: recv_relation "reads Q pend" Q for Q :: "'c quic" and pend
proof
  show "reads Q pend a c" if "reads Q pend a b" "reads Q pend b c" for a b c
    using that order_trans by (fastforce simp: reads_def)
  show "reads Q pend s (upd f s)" if "untracked f" for f s
    using that by (simp add: reads_def untracked_def upd_def get_stream_def)
  show "reads Q pend s (mark_closed c r b s)" for c r b s
    by (auto simp: reads_def get_stream_mark_closed) (simp add: mark_closed_def push_ev_def upd_def split: prod.split)
qed (auto simp: reads_def push_ev_def get_stream_def modify_stream_def upd_def insert_stream_def recv_laws_def)

lemma process_recv_reads: "reads Q pend s (process_recv E Q i c False s)"
  by (rule rd.after_process_recv) (simp_all add: rd.rel_refl)

lemma read_loop_ends:
  assumes "recv_laws Q pend" and "get_stream s i \<noteq> None" and "pend (conn s) < n"
  shows "\<exists>r s'. read_loop n E Q i bp s = Done (r, s')"
  using assms(2,3)
proof (induction n arbitrary: s)
  case (Suc n)
  obtain st where st: "get_stream s i = Some st" using Suc.prems(1) by auto
  obtain rc c where rc: "q_stream_recv Q (conn s) i (if bp \<and> st_role st = PendingUni then 1 else READ_BUF) = (rc, c)"
    by fastforce
  show ?case
  proof (cases rc)
    case (Inl e)
    with st rc show ?thesis
      by (cases e) (auto simp: Let_def split: option.split prod.split bool.split)
  next
    case (Inr cf)
    obtain chunk f where cf: "cf = (chunk, f)" by (cases cf)
    let ?s = "process_recv E Q i chunk False (s\<lparr>conn := c\<rparr>)"
    show ?thesis
    proof (cases "f \<or> chunk = []")
      case True
      with st rc Inr cf show ?thesis by (auto simp: Let_def)
    next
      case False
      have "reads Q pend (s\<lparr>conn := c\<rparr>) ?s" by (rule process_recv_reads)
      moreover have "pend c + length chunk \<le> pend (conn s)"
        using assms(1) rc Inr cf unfolding recv_laws_def by blast
      moreover have "0 < length chunk" using False by simp
      moreover have "pend (conn ?s) \<le> pend c"
        using \<open>reads Q pend (s\<lparr>conn := c\<rparr>) ?s\<close> assms(1) by (simp add: reads_def)
      ultimately have "pend (conn ?s) < n" using Suc.prems(2) by linarith
      moreover have "get_stream ?s i \<noteq> None"
        using \<open>reads Q pend (s\<lparr>conn := c\<rparr>) ?s\<close> Suc.prems(1) unfolding reads_def by (simp add: get_stream_def)
      ultimately have "get_stream ?s i \<noteq> None" "pend (conn ?s) < n" by blast+
      from Suc.IH [OF this] show ?thesis using False st rc Inr cf by (auto simp: Let_def)
    qed
  qed
qed simp

lemma on_readable_ends:
  assumes "recv_laws Q pend" and "pend (conn s) < n"
  shows "\<exists>s'. on_readable n E Q i bp s = Done s'"
proof (cases "closed s")
  case False
  obtain st where st: "get_stream (entry_or_insert i s) i = Some st"
    by (cases "get_stream s i") (auto simp: entry_or_insert_def insert_stream_def get_stream_def upd_def)
  have "conn (entry_or_insert i s) = conn s"
    by (simp add: entry_or_insert_def insert_stream_def upd_def split: option.split)
  then obtain r s' where rl: "read_loop n E Q i bp (entry_or_insert i s) = Done (r, s')"
    using read_loop_ends [OF assms(1), of "entry_or_insert i s" i n E bp] st assms(2) by auto
  from rl st False show ?thesis
    by (cases r) (auto simp: on_readable_def Let_def split: option.split)
qed (simp add: on_readable_def)

text \<open>
  The datagram queue of the connection: \<open>queue\<close> lists the datagrams received and not yet read, and
  reading takes the first, if the buffer is large enough for it.
\<close>

definition dgram_laws :: "'c quic \<Rightarrow> ('c \<Rightarrow> bytes list) \<Rightarrow> bool" where
  "dgram_laws Q queue \<longleftrightarrow>
     (\<forall>c n. queue c = [] \<longrightarrow> (\<exists>e. fst (q_dgram_recv Q c n) = Inl e))
     \<and> (\<forall>c n d ds. queue c = d # ds \<and> length d \<le> n \<longrightarrow>
          (\<exists>c'. q_dgram_recv Q c n = (Inr d, c') \<and> queue c' = ds))"

definition session_payloads :: "bytes list \<Rightarrow> bytes list" where
  "session_payloads ds =
     List.map_filter (\<lambda>d. case read_varint d of None \<Rightarrow> None
        | Some (qsi, off) \<Rightarrow> if qsi = 0 then Some (drop off d) else None) ds"

lemma on_datagrams_delivers_aux:
  assumes "dgram_laws Q queue"
  shows "length (queue (conn s)) < n \<Longrightarrow> list_all (\<lambda>d. length d \<le> 65536) (queue (conn s)) \<Longrightarrow>
    \<exists>s'. on_datagrams n Q s = Some s' \<and> sess s' = sess s
      \<and> evs s' = evs s @ map EvDatagram (session_payloads (queue (conn s)))"
proof (induction n arbitrary: s)
  case (Suc n)
  show ?case
  proof (cases "queue (conn s)")
    case Nil
    then obtain e c where "q_dgram_recv Q (conn s) 65536 = (Inl e, c)"
      using assms unfolding dgram_laws_def by (metis prod.collapse)
    with Nil show ?thesis by (simp add: session_payloads_def List.map_filter_def)
  next
    case (Cons d ds)
    then obtain c where r: "q_dgram_recv Q (conn s) 65536 = (Inr d, c)" and q: "queue c = ds"
      using assms Suc.prems(2) unfolding dgram_laws_def by fastforce
    let ?s = "case read_varint d of None \<Rightarrow> s\<lparr>conn := c\<rparr>
          | Some (qsi, off) \<Rightarrow> if qsi = CONNECT_ID div 4 then push_ev (EvDatagram (drop off d)) (s\<lparr>conn := c\<rparr>)
             else s\<lparr>conn := c\<rparr>"
    have c: "conn ?s = c" "sess ?s = sess s" by (simp_all add: push_ev_def split: option.split)
    have "evs ?s @ map EvDatagram (session_payloads ds) = evs s @ map EvDatagram (session_payloads (d # ds))"
      by (simp add: session_payloads_def List.map_filter_def push_ev_def CONNECT_ID_def split: option.split)
    with Suc.IH [of ?s] c q Cons Suc.prems r show ?thesis by (auto simp: Let_def)
  qed
qed simp

lemma session_payloads_framed [simp]:
  "session_payloads ((put_varint 0 [] @ data) # ds) = data # session_payloads ds"
proof -
  have "length (put_varint 0 []) = varint_len 0" by (rule length_put_varint)
  then show ?thesis by (simp add: session_payloads_def List.map_filter_def)
qed

text \<open>
  The other side: \<open>handed\<close> is the log of the datagrams a connection has taken for sending. \<open>taken\<close> picks,
  of what the application asked to send, the payloads that were taken.
\<close>

definition dgram_send_laws :: "'c quic \<Rightarrow> ('c \<Rightarrow> bytes list) \<Rightarrow> bool" where
  "dgram_send_laws Q handed \<longleftrightarrow>
     (\<forall>c d r c'. q_dgram_send Q c d = (r, c') \<longrightarrow>
        handed c' = handed c @ (case r of Inr _ \<Rightarrow> [d] | Inl _ \<Rightarrow> []))"

definition send_datagrams :: "'c quic \<Rightarrow> (bytes \<times> u64) list \<Rightarrow> 'c sys \<Rightarrow> 'c sys" where
  "send_datagrams Q ps s = foldl (\<lambda>s p. send_datagram Q (fst p) (snd p) s) s ps"

definition taken :: "(bytes \<times> u64) list \<Rightarrow> bool list \<Rightarrow> bytes list" where
  "taken ps oks = map (fst \<circ> fst) (filter snd (zip ps oks))"

lemma send_datagrams_spec:
  assumes "dgram_send_laws Q handed"
  shows "\<exists>oks. length oks = length ps
    \<and> evs (send_datagrams Q ps s) = evs s @ map2 (\<lambda>p ok. EvDatagramAck (snd p) ok) ps oks
    \<and> handed (conn (send_datagrams Q ps s)) = handed (conn s) @ map (\<lambda>d. put_varint 0 [] @ d) (taken ps oks)"
proof (induction ps arbitrary: s)
  case Nil
  show ?case by (simp add: send_datagrams_def taken_def)
next
  case (Cons p ps)
  let ?s = "send_datagram Q (fst p) (snd p) s"
  obtain r c where r: "q_dgram_send Q (conn s) (put_varint 0 [] @ fst p) = (r, c)" by fastforce
  define ok where "ok = (case r of Inr _ \<Rightarrow> True | Inl _ \<Rightarrow> False)"
  have one: "evs ?s = evs s @ [EvDatagramAck (snd p) ok]" "conn ?s = c"
    using r by (simp_all add: send_datagram_def CONNECT_ID_def push_ev_def ok_def)
  have "handed c = handed (conn s) @ (if ok then [put_varint 0 [] @ fst p] else [])"
    using assms r unfolding dgram_send_laws_def by (fastforce simp: ok_def split: sum.split)
  moreover from Cons.IH [of ?s] obtain oks where "length oks = length ps"
    "evs (send_datagrams Q ps ?s) = evs ?s @ map2 (\<lambda>p ok. EvDatagramAck (snd p) ok) ps oks"
    "handed (conn (send_datagrams Q ps ?s)) = handed (conn ?s) @ map (\<lambda>d. put_varint 0 [] @ d) (taken ps oks)" by blast
  moreover have "send_datagrams Q (p # ps) s = send_datagrams Q ps ?s" by (simp add: send_datagrams_def)
  ultimately show ?case using one
    by (intro exI [of _ "ok # oks"]) (simp add: taken_def)
qed

lemma mini_dgram_laws: "dgram_laws mini_quic mi_dgrams"
  by (auto simp: dgram_laws_def mini_quic_def mini_dgram_recv_def)

lemma mini_dgram_send_laws: "dgram_send_laws mini_quic mi_dgrams"
  by (auto simp: dgram_send_laws_def mini_quic_def)

section \<open>Memory of reachable states\<close>

lemma session_step_keeps: "alloc_ok (e_alloc E) \<Longrightarrow> session_step E Q s s' \<Longrightarrow> keeps s s'"
  by (erule session_stepE) (auto simp: keeps_rules intro: keeps_on_readable keeps_on_datagrams [OF keeps_refl])

lemma session_steps_keep: "alloc_ok (e_alloc E) \<Longrightarrow> (session_step E Q)\<^sup>*\<^sup>* s s' \<Longrightarrow> keeps s s'"
  by (rotate_tac, induction rule: rtranclp_induct) (auto intro: keeps_refl keeps_trans session_step_keeps)

lemma mem_ok_new_client: "mem_ok 0 (new_client au pa og ex pr)"
  by (simp add: mem_ok_def new_client_def held_def ParserMemory_new_def wt_consts usize_max_def)

lemma mem_ok_new_server: "pm_ok root \<Longrightarrow> mem_ok 0 (new_server rem sp al rh root)"
  by (simp add: mem_ok_def new_server_def held_def ParserMemory_child_def wt_consts usize_max_def)

lemma mini_recv_laws: "recv_laws mini_quic mini_pend"
proof -
  have "length bs \<le> n \<and> mini_pend c' + length bs \<le> mini_pend c"
    if recv: "mini_recv c i n = (Inr (bs, fin), c')" for c i n bs fin c'
  proof -
    obtain buf f where l: "map_of (mi_in c) i = Some (buf, f)"
      using recv by (cases "map_of (mi_in c) i") (auto simp: mini_recv_def)
    note d = hm_total_delete_le [OF l, of "length \<circ> fst"]
      and u = hm_total_update_Some [OF l, of "length \<circ> fst" "(drop n buf, f)"]
    show ?thesis
    proof (cases "length buf \<le> n")
      case True
      with recv l d show ?thesis by (auto simp: mini_recv_def mini_pend_def)
    next
      case False
      with recv l have "bs = take n buf" "c' = c\<lparr>mi_in := AList.update i (drop n buf, f) (mi_in c)\<rparr>"
        by (auto simp: mini_recv_def)
      with False u show ?thesis by (simp add: mini_pend_def)
    qed
  qed
  moreover have "mini_pend c' < mini_pend c" if "mini_dgram_recv c n = (Inr d, c')" for c n d c'
    using that by (auto simp: mini_dgram_recv_def mini_pend_def split: list.splits)
  ultimately show ?thesis
    unfolding recv_laws_def mini_quic_def by (auto simp: mini_pend_def)
qed

lemma reach_step:
  "(session_step E Q)\<^sup>*\<^sup>* a s \<Longrightarrow> (session_step E Q)\<^sup>*\<^sup>* a (mark_closed c r b s)"
  "(session_step E Q)\<^sup>*\<^sup>* a s \<Longrightarrow> (session_step E Q)\<^sup>*\<^sup>* a (flush E Q s)"
  "(session_step E Q)\<^sup>*\<^sup>* a s \<Longrightarrow> (session_step E Q)\<^sup>*\<^sup>* a (on_established s)"
  by (erule rtranclp.rtrancl_into_rtrancl, rule session_step.intros)+

section \<open>Properties\<close>

text \<open>
  Claim C2. In every state a session can reach, the parser-memory counter is exactly the total
  capacity of the buffers the session holds (capsule buffer, classification buffers, frame
  buffers), at most \<^verbatim>\<open>MAX_SESSION_PARSER_MEMORY\<close>, and zero once the session is closed; what the other
  sessions hold of the server's shared budget is not touched. This covers every operation, with
  any peer input, any allocator and any failure path.
\<close>

theorem session_memory_accounted:
  assumes "alloc_ok (e_alloc E)" and "pm_ok root"
    and "w = new_client au pa og ex pr \<or> w = new_server rem sp al rh root"
    and "(session_step E Q)\<^sup>*\<^sup>* (session_start w c) s"
  shows "pm_used (memory s) = held (sess s) \<and> held (sess s) \<le> MAX_SESSION_PARSER_MEMORY
    \<and> (closed s \<longrightarrow> held (sess s) = 0) \<and> pm_ok (memory s)
    \<and> pm_frame (memory s) = pm_frame (s_parser_memory w)"
proof -
  have ok: "mem_ok 0 w" using assms(2,3) mem_ok_new_client mem_ok_new_server by blast
  have k: "mem_ok 0 (sess s) \<and> pm_frame (memory s) = pm_frame (s_parser_memory w)"
    using session_steps_keep [OF assms(1,4)] ok by (simp add: keeps_def session_start_def)
  have "fst (hd (pm_frame m)) = pm_limit m" for m by (cases m rule: pm_frame.cases) auto
  moreover have "pm_limit (s_parser_memory w) = MAX_SESSION_PARSER_MEMORY"
    using assms(3) by (auto simp: new_client_def new_server_def ParserMemory_new_def ParserMemory_child_def)
  ultimately have "pm_limit (memory s) = MAX_SESSION_PARSER_MEMORY" using k by metis
  moreover have "pm_used m \<le> pm_limit m" if "pm_ok m" for m
    using that by (cases m rule: pm_frame.cases) auto
  ultimately have "pm_used (memory s) \<le> MAX_SESSION_PARSER_MEMORY" using k by (metis mem_ok_def)
  with k show ?thesis by (auto simp: mem_ok_def)
qed

theorem session_memory_accounted_witness:
  "pm_used (memory (mark_closed 0 [] True (flush (mini_env []) mini_quic (on_established
     (session_start (new_server (''::1'', 9) [] None [] (ParserMemory_new 1000)) mini_idle))))) = 0"
proof -
  let ?w = "new_server (''::1'', 9) [] None [] (ParserMemory_new 1000)"
  let ?s = "mark_closed 0 [] True (flush (mini_env []) mini_quic (on_established (session_start ?w mini_idle)))"
  have r: "(session_step (mini_env []) mini_quic)\<^sup>*\<^sup>* (session_start ?w mini_idle) ?s"
    by (intro reach_step(1-3) rtranclp.rtrancl_refl)
  have "pm_ok (ParserMemory_new 1000)" by (simp add: ParserMemory_new_def usize_max_def)
  from session_memory_accounted [OF alloc_ok_mini this disjI2 [OF refl] r] show ?thesis by simp
qed

text \<open>
  Claim C3. A session reports its end exactly once: over any sequence of operations the number of
  Closed events is one if the session is closed and zero otherwise, a closed session never
  re-opens and emits no further Closed event, the Draining event likewise appears at most once,
  and the configuration (role, request, allowlist, subprotocols) never changes.
\<close>

theorem session_closes_once:
  assumes "\<not> s_closed w" and "\<not> s_drain_emitted w"
    and "(session_step E Q)\<^sup>*\<^sup>* (session_start w c) s" and "(session_step E Q)\<^sup>*\<^sup>* s s'"
  shows "n_closed (evs s) = of_bool (closed s) \<and> n_draining (evs s) = of_bool (s_drain_emitted (sess s))
    \<and> config (sess s) = config w
    \<and> (closed s \<longrightarrow> closed s' \<and> (\<exists>later. evs s' = evs s @ later \<and> n_closed later = 0))"
proof -
  have "evolves (session_start w c) s" using ev.session_steps_rel [OF assms(3)] .
  then have now: "n_closed (evs s) = of_bool (closed s)" "config (sess s) = config w"
      "n_draining (evs s) = of_bool (s_drain_emitted (sess s))"
    using assms(1,2) by (auto simp: evolves_def session_start_def)
  obtain new where "evs s' = evs s @ new" "n_closed new + of_bool (closed s) = of_bool (closed s')"
    using ev.session_steps_rel [OF assms(4)] by (auto simp: evolves_def)
  with now show ?thesis by (cases "closed s'") auto
qed

theorem session_closes_once_witness:
  "n_closed (evs (mark_closed 7 [] True (mark_closed 5 [] False
     (session_start (new_client [] [] None [] []) mini_idle)))) = 1"
proof -
  let ?w = "new_client [] [] None [] []"
  let ?s = "mark_closed 5 [] False (session_start ?w mini_idle)"
  let ?s' = "mark_closed 7 [] True ?s"
  have r: "(session_step (mini_env []) mini_quic)\<^sup>*\<^sup>* (session_start ?w mini_idle) ?s'"
    by (intro reach_step(1) rtranclp.rtrancl_refl)
  have "\<not> s_closed ?w" "\<not> s_drain_emitted ?w" by (simp_all add: new_client_def)
  then show ?thesis
    using session_closes_once [OF _ _ r rtranclp.rtrancl_refl] by simp
qed

text \<open>
  Claim C4. Draining a readable stream always terminates and never panics, whatever the peer
  sent: with more rounds than the connection holds bytes, \<^verbatim>\<open>on_readable\<close> returns, so the indexing
  \<^verbatim>\<open>self.streams[&id]\<close> in its loop always finds the stream.
\<close>

theorem on_readable_total:
  assumes "recv_laws Q pend" and "pend (conn s) < n"
  shows "\<exists>s'. on_readable n E Q i bp s = Done s'"
  using assms by (rule on_readable_ends)

theorem on_readable_total_witness:
  "\<exists>s'. on_readable 4 (mini_env []) mini_quic 3 False
     (session_start (new_client [] [] None [] []) (mini_idle\<lparr>mi_in := [(3, [0, 4, 0], False)]\<rparr>)) = Done s'"
  by (rule on_readable_total [OF mini_recv_laws])
    (simp add: session_start_def mini_pend_def mini_idle_def)

text \<open>
  Claim C21. Datagrams go from one application to the other. The receiving loop ends and hands the
  application, in order, exactly the payloads of the queued datagrams that carry this session's quarter
  stream id, and nothing else. When the other side has sent its datagrams with \<^verbatim>\<open>send_datagram\<close>, each
  is acknowledged once with whether the connection took it, and whichever of those taken the network
  delivers, in whatever order (\<open>js\<close> says which), the application gets the bytes that were sent.
\<close>

theorem on_datagrams_delivers:
  assumes "dgram_laws Q queue" and "length (queue (conn s)) < n"
    and "list_all (\<lambda>d. length d \<le> 65536) (queue (conn s))"
    and "dgram_send_laws Q' handed" and "handed (conn a) = []"
  shows "(\<exists>s'. on_datagrams n Q s = Some s' \<and> sess s' = sess s
      \<and> evs s' = evs s @ map EvDatagram (session_payloads (queue (conn s))))
    \<and> (\<exists>oks. length oks = length ps \<and> evs (send_datagrams Q' ps a) = evs a @ map2 (\<lambda>p ok. EvDatagramAck (snd p) ok) ps oks
        \<and> length (handed (conn (send_datagrams Q' ps a))) = length (taken ps oks)
        \<and> (\<forall>js. list_all (\<lambda>j. j < length (taken ps oks)) js
             \<and> queue (conn s) = map (nth (handed (conn (send_datagrams Q' ps a)))) js \<longrightarrow>
             (\<exists>s'. on_datagrams n Q s = Some s' \<and> evs s' = evs s @ map (\<lambda>j. EvDatagram (taken ps oks ! j)) js)))"
proof -
  obtain oks where oks: "length oks = length ps"
    "evs (send_datagrams Q' ps a) = evs a @ map2 (\<lambda>p ok. EvDatagramAck (snd p) ok) ps oks"
    "handed (conn (send_datagrams Q' ps a)) = map (\<lambda>d. put_varint 0 [] @ d) (taken ps oks)"
    using send_datagrams_spec [OF assms(4), of ps a] assms(5) by auto
  have "session_payloads (map (nth (map (\<lambda>d. put_varint 0 [] @ d) xs)) js) = map (nth xs) js"
    if "list_all (\<lambda>j. j < length xs) js" for xs js
    using that by (induction js) (simp_all add: session_payloads_def List.map_filter_def [of _ "[]"] del: append_assoc)
  with on_datagrams_delivers_aux [OF assms(1-3)] oks show ?thesis
    by (auto simp: comp_def)
qed

theorem on_datagrams_delivers_witness:
  "(\<exists>s'. on_datagrams 4 mini_quic
     (session_start (new_client [] [] None [] []) (mini_idle\<lparr>mi_dgrams := [[0, 66], [1, 66], [0, 65]]\<rparr>)) = Some s'
    \<and> evs s' = [EvDatagram [66], EvDatagram [65]])
   \<and> (\<exists>s'. on_datagrams 4 mini_quic
     (session_start (new_client [] [] None [] []) (mini_idle\<lparr>mi_dgrams := [[0, 66], [0, 65]]\<rparr>)) = Some s'
    \<and> evs s' = [EvDatagram [66], EvDatagram [65]])"
proof -
  let ?r = "\<lambda>q. session_start (new_client [] [] None [] []) (mini_idle\<lparr>mi_dgrams := q\<rparr>)"
  let ?a = "session_start (new_client [] [] None [] []) mini_idle"
  let ?ps = "[([65], 1), ([66], 2)] :: (bytes \<times> u64) list"
  have "session_payloads [[0, 66], [1, 66], [0, 65]] = [[66], [65]]" by code_simp
  with on_datagrams_delivers [OF mini_dgram_laws _ _ mini_dgram_send_laws, of "?r [[0, 66], [1, 66], [0, 65]]" 4 ?a]
  have first: "\<exists>s'. on_datagrams 4 mini_quic (?r [[0, 66], [1, 66], [0, 65]]) = Some s' \<and> evs s' = [EvDatagram [66], EvDatagram [65]]"
    by (auto simp: session_start_def mini_idle_def)
  have sent: "mi_dgrams (conn (send_datagrams mini_quic ?ps ?a)) = [[0, 65], [0, 66]]"
    "evs (send_datagrams mini_quic ?ps ?a) = [EvDatagramAck 1 True, EvDatagramAck 2 True]"
    by (simp_all add: send_datagrams_def send_datagram_def push_ev_def session_start_def mini_quic_def mini_idle_def
        CONNECT_ID_def put_varint_def)
  have r: "mi_dgrams (conn (?r q)) = q" "evs (?r q) = []" "evs ?a = []" "mi_dgrams (conn ?a) = []" for q
    by (simp_all add: session_start_def mini_idle_def)
  have "length (mi_dgrams (conn (?r [[0, 66], [0, 65]]))) < 4"
    "list_all (\<lambda>d. length d \<le> 65536) (mi_dgrams (conn (?r [[0, 66], [0, 65]])))" by (simp_all add: r)
  from on_datagrams_delivers [OF mini_dgram_laws this mini_dgram_send_laws r(4), of ?ps]
  have "\<exists>oks. length oks = length ?ps
    \<and> [EvDatagramAck 1 True, EvDatagramAck 2 True] = map2 (\<lambda>p ok. EvDatagramAck (snd p) ok) ?ps oks
    \<and> (\<forall>js. list_all (\<lambda>j. j < length (taken ?ps oks)) js \<and> [[0, 66], [0, 65]] = map (nth [[0, 65], [0, 66 :: 8 word]]) js \<longrightarrow>
         (\<exists>s'. on_datagrams 4 mini_quic (?r [[0, 66], [0, 65]]) = Some s' \<and> evs s' = map (\<lambda>j. EvDatagram (taken ?ps oks ! j)) js))"
    unfolding sent r append_Nil by (elim conjE exE) (intro exI conjI; assumption)
  then obtain oks where len: "length oks = length ?ps"
    and acks: "[EvDatagramAck 1 True, EvDatagramAck 2 True] = map2 (\<lambda>p ok. EvDatagramAck (snd p) ok) ?ps oks"
    and get: "\<forall>js. list_all (\<lambda>j. j < length (taken ?ps oks)) js \<and> [[0, 66], [0, 65]] = map (nth [[0, 65], [0, 66 :: 8 word]]) js \<longrightarrow>
         (\<exists>s'. on_datagrams 4 mini_quic (?r [[0, 66], [0, 65]]) = Some s' \<and> evs s' = map (\<lambda>j. EvDatagram (taken ?ps oks ! j)) js)"
    by (elim exE conjE) (rule that)
  from len obtain x y where xy: "oks = [x, y]" by (auto simp: length_Suc_conv)
  with acks have taken: "taken ?ps oks = [[65], [66]]" by (simp add: taken_def)
  from spec [OF get, of "[1, 0]"] first show ?thesis unfolding taken by simp
qed

end
