(* ===== verification/Session_Flow.thy ===== *)
theory Session_Flow
  imports Session_Life
begin

text \<open>
  Flow control and delivery on the send side: queued bytes leave in order and every write is
  settled once, payload never exceeds the peer's session data limit, stream opens never exceed
  its stream limits, credit only grows, and a blocked signal is sent once per limit.
\<close>

section \<open>What is sent\<close>

text \<open>
  What the send side relies on from \<^verbatim>\<open>quiche\<close>: \<open>sent\<close> is the log of the bytes accepted on each
  stream; \<^verbatim>\<open>stream_send\<close> accepts a prefix of what it is given, on that stream only.
\<close>

definition send_laws :: "'c quic \<Rightarrow> ('c \<Rightarrow> u64 \<Rightarrow> bytes) \<Rightarrow> bool" where
  "send_laws Q sent \<longleftrightarrow>
     (\<forall>c i d fin r c'. q_stream_send Q c i d fin = (r, c') \<longrightarrow>
        (\<forall>j. j \<noteq> i \<longrightarrow> sent c' j = sent c j)
        \<and> (case r of Inr n \<Rightarrow> n \<le> length d \<and> sent c' i = sent c i @ take n d
                   | Inl _ \<Rightarrow> sent c' i = sent c i))"

definition pending_bytes :: "out_chunk list \<Rightarrow> bytes" where
  "pending_bytes out = concat (map (\<lambda>c. drop (oc_off c) (oc_data c)) out)"

definition chunk_ids :: "out_chunk list \<Rightarrow> u64 list" where
  "chunk_ids out = List.map_filter oc_request_id out"

definition acked :: "ev list \<Rightarrow> u64 list" where
  "acked es = List.map_filter (\<lambda>e. case e of EvWriteAck r \<Rightarrow> Some r | _ \<Rightarrow> None) es"

lemma pending_bytes_simps [simp]:
  "pending_bytes [] = []" "pending_bytes (c # cs) = drop (oc_off c) (oc_data c) @ pending_bytes cs"
  by (simp_all add: pending_bytes_def)

lemma chunk_ids_simps [simp]:
  "chunk_ids [] = []" "chunk_ids (c # cs) = (case oc_request_id c of None \<Rightarrow> [] | Some r \<Rightarrow> [r]) @ chunk_ids cs"
  by (simp_all add: chunk_ids_def List.map_filter_def split: option.split)

lemma acked_append [simp]: "acked (a @ b) = acked a @ acked b"
  by (simp add: acked_def List.map_filter_def)

lemma acked_simps [simp]:
  "acked [] = []" "acked (EvStreamStopSending i c # es) = acked es" "acked (EvWriteAck r # es) = r # acked es"
  by (simp_all add: acked_def List.map_filter_def)

lemma drained_acks_simps:
  "drained_acks [] = []"
  "drained_acks (c # cs) = (case oc_request_id c of None \<Rightarrow> [] | Some r \<Rightarrow> [EvWriteAck r]) @ drained_acks cs"
  by (simp_all add: drained_acks_def List.map_filter_def split: option.split)

lemma acked_drained [simp]: "acked (drained_acks out) = chunk_ids out"
  by (induction out) (auto simp: drained_acks_simps split: option.split)

lemma take_length_append: "take (length xs + k) (xs @ ys) = xs @ take k ys"
  by simp

definition chunks_ok :: "out_chunk list \<Rightarrow> bool" where
  "chunks_ok out = list_all (\<lambda>c. oc_off c \<le> length (oc_data c)) out"

lemma drained_acks_ids: "drained_acks out = map EvWriteAck (chunk_ids out)"
  by (induction out) (auto simp: drained_acks_simps split: option.split)

lemma acked_writes [simp]: "acked (map EvWriteAck ids) = ids"
  by (induction ids) simp_all

text \<open>The connection answered a send on stream \<open>i\<close> that the peer had asked to stop it, with this code.\<close>

definition stopped_by :: "'c quic \<Rightarrow> u64 \<Rightarrow> u64 \<Rightarrow> 'c \<Rightarrow> bool" where
  "stopped_by Q i code c' \<longleftrightarrow> (\<exists>c data. q_stream_send Q c i data False = (Inl (QStreamStopped code), c'))"

definition stop_code :: "u64 \<Rightarrow> u64" where
  "stop_code code = (case http_code_to_webtransport_code code of None \<Rightarrow> code | Some a \<Rightarrow> a)"

text \<open>
  The outcome of sending one queue, relative to the state before it: nothing is lost, or the peer
  stopped the stream.
\<close>

definition flushed_all ::
  "('c \<Rightarrow> u64 \<Rightarrow> bytes) \<Rightarrow> u64 \<Rightarrow> out_chunk list \<Rightarrow> 'c flush_state \<Rightarrow> 'c flush_state \<Rightarrow> bool" where
  "flushed_all sent i out fs fs' \<longleftrightarrow>
     fs_fin_sent fs' = fs_fin_sent fs \<and> (fs_go fs' \<longrightarrow> fs_out fs' = [])
     \<and> (\<exists>ids. fs_evs fs' = fs_evs fs @ map EvWriteAck ids \<and> ids @ chunk_ids (fs_out fs') = chunk_ids out)
     \<and> sent (fs_conn fs') i @ pending_bytes (fs_out fs') = sent (fs_conn fs) i @ pending_bytes out"

definition flushed_stopped ::
  "'c quic \<Rightarrow> ('c \<Rightarrow> u64 \<Rightarrow> bytes) \<Rightarrow> u64 \<Rightarrow> out_chunk list \<Rightarrow> 'c flush_state \<Rightarrow> 'c flush_state \<Rightarrow> bool" where
  "flushed_stopped Q sent i out fs fs' \<longleftrightarrow>
     fs_fin_sent fs' \<and> \<not> fs_go fs' \<and> fs_out fs' = []
     \<and> (\<exists>code pre post. stopped_by Q i code (fs_conn fs') \<and> pre @ post = chunk_ids out
          \<and> fs_evs fs' = fs_evs fs @ map EvWriteAck pre @ EvStreamStopSending i (stop_code code) # map EvWriteAck post)
     \<and> (\<exists>n. sent (fs_conn fs') i = sent (fs_conn fs) i @ take n (pending_bytes out))"

definition flushed_ok ::
  "'c quic \<Rightarrow> ('c \<Rightarrow> u64 \<Rightarrow> bytes) \<Rightarrow> u64 \<Rightarrow> out_chunk list \<Rightarrow> 'c flush_state \<Rightarrow> 'c flush_state \<Rightarrow> bool" where
  "flushed_ok Q sent i out fs fs' \<longleftrightarrow>
     chunks_ok (fs_out fs') \<and> (\<forall>j. j \<noteq> i \<longrightarrow> sent (fs_conn fs') j = sent (fs_conn fs) j)
     \<and> (flushed_all sent i out fs fs' \<or> flushed_stopped Q sent i out fs fs')"

text \<open>A chunk that is sent to its end is settled first, then the rest of the queue.\<close>

lemma flushed_ok_pop:
  assumes "flushed_ok Q sent i rest fs1 fs'" and "fs_fin_sent fs1 = fs_fin_sent fs"
    and "fs_evs fs1 = fs_evs fs @ map EvWriteAck (case oc_request_id front of None \<Rightarrow> [] | Some r \<Rightarrow> [r])"
    and sent1: "sent (fs_conn fs1) i = sent (fs_conn fs) i @ drop (oc_off front) (oc_data front)"
    and "\<And>j. j \<noteq> i \<Longrightarrow> sent (fs_conn fs1) j = sent (fs_conn fs) j"
  shows "flushed_ok Q sent i (front # rest) fs fs'"
proof -
  let ?r = "case oc_request_id front of None \<Rightarrow> [] | Some r \<Rightarrow> [r]"
  let ?d = "drop (oc_off front) (oc_data front)"
  consider "flushed_all sent i rest fs1 fs'" | "flushed_stopped Q sent i rest fs1 fs'"
    using assms(1) by (auto simp: flushed_ok_def)
  then have "flushed_all sent i (front # rest) fs fs' \<or> flushed_stopped Q sent i (front # rest) fs fs'"
  proof cases
    case 1
    then obtain ids where ids: "fs_evs fs' = fs_evs fs1 @ map EvWriteAck ids" "ids @ chunk_ids (fs_out fs') = chunk_ids rest"
      by (auto simp: flushed_all_def)
    have "flushed_all sent i (front # rest) fs fs'"
      unfolding flushed_all_def using 1 assms(2,3) sent1 ids
      by (intro conjI exI [of _ "?r @ ids"]) (simp_all add: flushed_all_def)
    then show ?thesis ..
  next
    case 2
    then obtain code pre post n where e: "stopped_by Q i code (fs_conn fs')" "pre @ post = chunk_ids rest"
      "fs_evs fs' = fs_evs fs1 @ map EvWriteAck pre @ EvStreamStopSending i (stop_code code) # map EvWriteAck post"
      and n: "sent (fs_conn fs') i = sent (fs_conn fs1) i @ take n (pending_bytes rest)"
      by (auto simp: flushed_stopped_def)
    have "flushed_stopped Q sent i (front # rest) fs fs'"
      unfolding flushed_stopped_def
    proof (intro conjI)
      show "\<exists>code pre' post. stopped_by Q i code (fs_conn fs') \<and> pre' @ post = chunk_ids (front # rest)
        \<and> fs_evs fs' = fs_evs fs @ map EvWriteAck pre' @ EvStreamStopSending i (stop_code code) # map EvWriteAck post"
        using e assms(3) by (intro exI [of _ code] exI [of _ "?r @ pre"] exI [of _ post]) simp
      show "\<exists>n. sent (fs_conn fs') i = sent (fs_conn fs) i @ take n (pending_bytes (front # rest))"
        using n sent1 by (intro exI [of _ "length ?d + n"]) simp
    qed (use 2 in \<open>simp_all add: flushed_stopped_def\<close>)
    then show ?thesis ..
  qed
  then show ?thesis using assms(1,5) by (simp add: flushed_ok_def)
qed

lemma flush_out_ok:
  assumes laws: "send_laws Q sent"
  shows "chunks_ok out \<Longrightarrow> flushed_ok Q sent i out fs (flush_out Q i enf wt md ds out fs)"
proof (induction out arbitrary: fs)
  case Nil
  then show ?case by (simp add: flushed_ok_def flushed_all_def chunks_ok_def)
next
  case (Cons front rest)
  define rem where "rem = chunk_rest front"
  define amount where
    "amount = chunk_amount (enf \<and> wt \<and> oc_request_id front \<noteq> None) md ds (fs_wt_sent fs) front"
  define data where "data = take amount (drop (oc_off front) (oc_data front))"
  have am: "amount \<le> rem" by (simp add: amount_def rem_def chunk_amount_def Let_def)
  have len: "length data = amount" using am by (simp add: data_def rem_def chunk_rest_def)
  have off: "oc_off front \<le> length (oc_data front)" "chunks_ok rest" using Cons.prems by (auto simp: chunks_ok_def)
  have stop: "flushed_ok Q sent i (front # rest) fs (fs\<lparr>fs_out := front # rest, fs_go := False, fs_conn := c\<rparr>)"
    if "\<And>j. sent c j = sent (fs_conn fs) j" for c
    using that Cons.prems by (simp add: flushed_ok_def flushed_all_def)
  show ?case
  proof (cases "amount = 0 \<and> rem \<noteq> 0")
    case True
    with stop [of "fs_conn fs"] show ?thesis
      by (simp add: Let_def amount_def [symmetric] rem_def [symmetric] del: not_None_eq)
  next
    case False
    obtain r c where qs: "q_stream_send Q (fs_conn fs) i data False = (r, c)" by fastforce
    have other: "\<And>j. j \<noteq> i \<Longrightarrow> sent c j = sent (fs_conn fs) j"
      and res: "case r of Inr n \<Rightarrow> n \<le> length data \<and> sent c i = sent (fs_conn fs) i @ take n data
         | Inl _ \<Rightarrow> sent c i = sent (fs_conn fs) i"
      using laws qs unfolding send_laws_def by blast+
    show ?thesis
    proof (cases r)
      case (Inl e)
      then have same: "sent c j = sent (fs_conn fs) j" for j using res other by (cases "j = i") auto
      show ?thesis
      proof (cases "\<exists>code. e = QStreamStopped code")
        case True
        then obtain code where e: "e = QStreamStopped code" ..
        have eq: "flush_out Q i enf wt md ds (front # rest) fs =
            fs\<lparr>fs_conn := c, fs_evs := fs_evs fs @ EvStreamStopSending i (stop_code code) # map EvWriteAck (chunk_ids (front # rest)),
               fs_out := [], fs_fin_sent := True, fs_go := False\<rparr>"
          using Inl e False qs
          by (auto simp: Let_def amount_def [symmetric] rem_def [symmetric] data_def [symmetric] stop_code_def
              drained_acks_ids simp del: not_None_eq)
        have "stopped_by Q i code c" using qs Inl e by (auto simp: stopped_by_def)
        then have "flushed_stopped Q sent i (front # rest) fs (flush_out Q i enf wt md ds (front # rest) fs)"
          unfolding eq flushed_stopped_def using same
          by (intro conjI exI [of _ code] exI [of _ "[]"] exI [of _ "chunk_ids (front # rest)"] exI [of _ 0]) simp_all
        with same show ?thesis unfolding flushed_ok_def eq by (simp add: chunks_ok_def)
      next
        case ns: False
        have "flush_out Q i enf wt md ds (front # rest) fs = fs\<lparr>fs_out := front # rest, fs_go := False, fs_conn := c\<rparr>"
          using ns Inl False qs by (cases e)
            (auto simp: Let_def amount_def [symmetric] rem_def [symmetric] data_def [symmetric] simp del: not_None_eq)
        with stop [of c] same show ?thesis by simp
      qed
    next
      case (Inr n)
      with res len am have n: "n \<le> amount" "sent c i = sent (fs_conn fs) i @ take n data" by auto
      have front: "drop (oc_off front) (oc_data front) = take n data @ drop (oc_off front + n) (oc_data front)"
        using n(1) by (simp add: data_def min_absorb1) (metis append_take_drop_id drop_drop add.commute)
      let ?fs1 = "fs\<lparr>fs_conn := c, fs_wt_sent := (if wt \<and> oc_request_id front \<noteq> None
            then fs_wt_sent fs + of_nat n else fs_wt_sent fs),
          fs_send_payload := (if wt \<and> oc_request_id front \<noteq> None
            then fs_send_payload fs + of_nat n else fs_send_payload fs)\<rparr>"
      let ?front = "front\<lparr>oc_off := oc_off front + n\<rparr>"
      show ?thesis
      proof (cases "n < rem")
        case True
        then have np: "\<not> oc_off front + n \<ge> length (oc_data front)" by (simp add: rem_def chunk_rest_def)
        have eq: "flush_out Q i enf wt md ds (front # rest) fs = ?fs1\<lparr>fs_out := ?front # rest, fs_go := False\<rparr>"
          using True np False qs Inr
          by (auto simp: Let_def amount_def [symmetric] rem_def [symmetric] data_def [symmetric] simp del: not_None_eq)
        show ?thesis
          unfolding eq using front n(2) other off np
          by (simp add: flushed_ok_def flushed_all_def chunks_ok_def)
      next
        case nlt: False
        then have pop: "oc_off front + n \<ge> length (oc_data front)" using n(1) am by (simp add: rem_def chunk_rest_def)
        let ?fs2 = "?fs1\<lparr>fs_evs := fs_evs fs @ drained_acks [?front]\<rparr>"
        have eq: "flush_out Q i enf wt md ds (front # rest) fs = flush_out Q i enf wt md ds rest ?fs2"
          using nlt pop False qs Inr
          by (auto simp: Let_def amount_def [symmetric] rem_def [symmetric] data_def [symmetric] simp del: not_None_eq)
        have fr: "drop (oc_off front) (oc_data front) = take n data" using front pop by simp
        show ?thesis
          unfolding eq
          by (rule flushed_ok_pop [OF Cons.IH [OF off(2), of ?fs2]])
            (simp_all add: drained_acks_ids n(2) fr other split: option.split)
      qed
    qed
  qed
qed

lemma reconcile_frame:
  "conn (reconcile_send_final_size Q i s) = conn s" "evs (reconcile_send_final_size Q i s) = evs s"
  "s_fc_max_data_remote (sess (reconcile_send_final_size Q i s)) = s_fc_max_data_remote (sess s)"
  "s_peer_settings (sess (reconcile_send_final_size Q i s)) = s_peer_settings (sess s)"
  "unat (s_fc_data_sent (sess (reconcile_send_final_size Q i s))) \<le> unat (s_fc_data_sent (sess s))"
  by (simp_all add: reconcile_send_final_size_def Let_def modify_stream_def upd_def unat_saturating_sub
      split: option.split)

lemma reconcile_stream:
  "get_stream s i = Some st \<Longrightarrow>
   \<exists>st'. get_stream (reconcile_send_final_size Q i s) i = Some st' \<and> st_out st' = st_out st
     \<and> st_fin_sent st' = st_fin_sent st \<and> st_fin_queued st' = st_fin_queued st \<and> st_role st' = st_role st"
  by (auto simp: reconcile_send_final_size_def Let_def split: option.split)
     (simp_all add: upd_def get_stream_def)

text \<open>
  One stream: either nothing is lost and only settled writes are reported, the end of the stream being
  sent after all the rest, or the peer stopped it.
\<close>

definition sent_all :: "'c quic \<Rightarrow> ('c \<Rightarrow> u64 \<Rightarrow> bytes) \<Rightarrow> u64 \<Rightarrow> stream \<Rightarrow> stream \<Rightarrow> 'c sys \<Rightarrow> 'c sys \<Rightarrow> bool" where
  "sent_all Q sent i st st' s s' \<longleftrightarrow>
     (\<exists>ids. evs s' = evs s @ map EvWriteAck ids \<and> ids @ chunk_ids (st_out st') = chunk_ids (st_out st))
     \<and> sent (conn s') i @ pending_bytes (st_out st') = sent (conn s) i @ pending_bytes (st_out st)
     \<and> (st_fin_sent st' \<longrightarrow> st_fin_sent st \<or> st_fin_queued st \<and> st_out st' = []
          \<and> (\<exists>c n. q_stream_send Q c i [] True = (Inr n, conn s')))"

definition sent_until_stopped ::
  "'c quic \<Rightarrow> ('c \<Rightarrow> u64 \<Rightarrow> bytes) \<Rightarrow> u64 \<Rightarrow> stream \<Rightarrow> stream \<Rightarrow> 'c sys \<Rightarrow> 'c sys \<Rightarrow> bool" where
  "sent_until_stopped Q sent i st st' s s' \<longleftrightarrow>
     st_fin_sent st' \<and> st_out st' = []
     \<and> (\<exists>code pre post. stopped_by Q i code (conn s') \<and> pre @ post = chunk_ids (st_out st)
          \<and> evs s' = evs s @ map EvWriteAck pre @ EvStreamStopSending i (stop_code code) # map EvWriteAck post)
     \<and> (\<exists>n. sent (conn s') i = sent (conn s) i @ take n (pending_bytes (st_out st)))"

lemma flush_stream_outcome:
  assumes laws: "send_laws Q sent" and st: "get_stream s i = Some st" and ck: "chunks_ok (st_out st)"
    and fl: "flush_stream Q i (s, w) = (s', w')"
  shows "\<exists>st'. get_stream s' i = Some st' \<and> chunks_ok (st_out st')
    \<and> (sent_all Q sent i st st' s s' \<or> sent_until_stopped Q sent i st st' s s')
    \<and> (\<forall>j. j \<noteq> i \<longrightarrow> sent (conn s') j = sent (conn s) j)"
proof -
  define s0 where "s0 = reconcile_send_final_size Q i s"
  obtain st0 where st0: "get_stream s0 i = Some st0" "st_out st0 = st_out st" "st_fin_sent st0 = st_fin_sent st"
      "st_fin_queued st0 = st_fin_queued st"
    using reconcile_stream [OF st] by (auto simp: s0_def)
  have s0: "conn s0 = conn s" "evs s0 = evs s" by (simp_all add: s0_def reconcile_frame)
  define fs0 where "fs0 = \<lparr>fs_conn = conn s0, fs_evs = evs s0, fs_wt_sent = w, fs_out = st_out st0,
     fs_send_payload = st_send_payload st0, fs_fin_sent = st_fin_sent st0, fs_go = False\<rparr>"
  define fs where "fs = flush_out Q i (uses_session_flow_control (sess s0)) (is_wt_data (st_role st0))
     (s_fc_max_data_remote (sess s0)) (s_fc_data_sent (sess s0)) (st_out st0) fs0"
  have ok: "flushed_ok Q sent i (st_out st) fs0 fs"
    unfolding fs_def st0(2) by (rule flush_out_ok [OF laws ck])
  have fin: "sent c j = sent c0 j" if "q_stream_send Q c0 i [] True = (r, c)" for c0 r c j
    using laws that unfolding send_laws_def by (cases "j = i") (fastforce split: sum.splits)+
  have s': "\<exists>st'. get_stream s' i = Some st' \<and> st_out st' = fs_out fs \<and> (fs_fin_sent fs \<longrightarrow> st_fin_sent st')
      \<and> evs s' = fs_evs fs \<and> (\<forall>j. sent (conn s') j = sent (fs_conn fs) j) \<and> (\<not> fs_go fs \<longrightarrow> conn s' = fs_conn fs)
      \<and> (st_fin_sent st' \<longrightarrow> fs_fin_sent fs \<or> fs_go fs \<and> st_fin_queued st
           \<and> (\<exists>c n. q_stream_send Q c i [] True = (Inr n, conn s')))"
    using fl fin st0(4) unfolding flush_stream_def Let_def fst_conv snd_conv s0_def [symmetric] st0(1) option.case
      fs0_def [symmetric] fs_def [symmetric]
    by (auto simp: st0(1) [unfolded get_stream_def] get_stream_def modify_stream_def upd_def
        split: if_splits prod.splits sum.splits) (intro exI; assumption)
  then obtain st' where st': "get_stream s' i = Some st'" "st_out st' = fs_out fs" "fs_fin_sent fs \<longrightarrow> st_fin_sent st'"
      "evs s' = fs_evs fs" "\<forall>j. sent (conn s') j = sent (fs_conn fs) j" "\<not> fs_go fs \<longrightarrow> conn s' = fs_conn fs"
      "st_fin_sent st' \<longrightarrow> fs_fin_sent fs \<or> fs_go fs \<and> st_fin_queued st \<and> (\<exists>c n. q_stream_send Q c i [] True = (Inr n, conn s'))"
    by blast
  have "sent_all Q sent i st st' s s'" if "flushed_all sent i (st_out st) fs0 fs"
    using that st' s0 st0 unfolding flushed_all_def sent_all_def by (auto simp: fs0_def)
  moreover have "sent_until_stopped Q sent i st st' s s'" if "flushed_stopped Q sent i (st_out st) fs0 fs"
    using that st' s0 unfolding flushed_stopped_def sent_until_stopped_def by (auto simp: fs0_def)
  ultimately show ?thesis
    using ok st' s0 unfolding flushed_ok_def by (auto simp: fs0_def)
qed

lemma acked_stop [simp]: "acked (map EvWriteAck pre @ EvStreamStopSending i c # map EvWriteAck post) = pre @ post"
  by simp

lemma flush_stream_ok:
  assumes "send_laws Q sent" and "get_stream s i = Some st" and "chunks_ok (st_out st)"
    and "flush_stream Q i (s, w) = (s', w')"
  shows "\<exists>st' new. get_stream s' i = Some st' \<and> evs s' = evs s @ new
    \<and> acked new @ chunk_ids (st_out st') = chunk_ids (st_out st) \<and> chunks_ok (st_out st')
    \<and> (sent (conn s') i @ pending_bytes (st_out st') = sent (conn s) i @ pending_bytes (st_out st)
       \<or> st_fin_sent st' \<and> st_out st' = []
          \<and> (\<exists>n. sent (conn s') i = sent (conn s) i @ take n (pending_bytes (st_out st))))
    \<and> (\<forall>j. j \<noteq> i \<longrightarrow> sent (conn s') j = sent (conn s) j)"
proof -
  obtain st' where st': "get_stream s' i = Some st'" "chunks_ok (st_out st')"
      "\<forall>j. j \<noteq> i \<longrightarrow> sent (conn s') j = sent (conn s) j"
    and alt: "sent_all Q sent i st st' s s' \<or> sent_until_stopped Q sent i st st' s s'"
    using flush_stream_outcome [OF assms] by blast
  from alt have "\<exists>new. evs s' = evs s @ new \<and> acked new @ chunk_ids (st_out st') = chunk_ids (st_out st)"
  proof
    assume "sent_all Q sent i st st' s s'"
    then obtain ids where "evs s' = evs s @ map EvWriteAck ids" "ids @ chunk_ids (st_out st') = chunk_ids (st_out st)"
      unfolding sent_all_def by blast
    then show ?thesis by (intro exI [of _ "map EvWriteAck ids"]) simp
  next
    assume "sent_until_stopped Q sent i st st' s s'"
    then obtain code pre post where "pre @ post = chunk_ids (st_out st)" "st_out st' = []"
        "evs s' = evs s @ map EvWriteAck pre @ EvStreamStopSending i (stop_code code) # map EvWriteAck post"
      unfolding sent_until_stopped_def by blast
    then show ?thesis
      by (intro exI [of _ "map EvWriteAck pre @ EvStreamStopSending i (stop_code code) # map EvWriteAck post"]) simp
  qed
  moreover from alt have "sent (conn s') i @ pending_bytes (st_out st') = sent (conn s) i @ pending_bytes (st_out st)
       \<or> st_fin_sent st' \<and> st_out st' = [] \<and> (\<exists>n. sent (conn s') i = sent (conn s) i @ take n (pending_bytes (st_out st)))"
    unfolding sent_all_def sent_until_stopped_def by blast
  ultimately show ?thesis using st' by blast
qed

section \<open>The session data limit\<close>

lemma unat_add_le: "unat (a + b) \<le> unat a + unat (b :: u64)"
  by (simp add: unat_word_ariths)

text \<open>
  How many of the first \<open>n\<close> bytes of a queue are payload: those of the chunks with a request id. The preamble of a
  stream has none.
\<close>

fun payload_in :: "nat \<Rightarrow> out_chunk list \<Rightarrow> nat" where
  "payload_in n [] = 0"
| "payload_in n (c # cs) =
     (if oc_request_id c = None then 0 else min n (chunk_rest c)) + payload_in (n - chunk_rest c) cs"

lemma payload_in_0 [simp]: "payload_in 0 out = 0"
  by (induction out) simp_all

lemma flush_out_counts:
  assumes laws: "send_laws Q sent"
  shows "unat ds + unat (fs_wt_sent fs) \<le> unat md \<Longrightarrow> fs' = flush_out Q i True wt md ds out fs \<Longrightarrow>
    unat ds + unat (fs_wt_sent fs') \<le> unat md \<and> length (sent (fs_conn fs) i) \<le> length (sent (fs_conn fs') i)
    \<and> unat (fs_wt_sent fs') = unat (fs_wt_sent fs)
        + (if wt then payload_in (length (sent (fs_conn fs') i) - length (sent (fs_conn fs) i)) out else 0)"
proof (induction out arbitrary: fs)
  case (Cons front rest)
  let ?pay = "wt \<and> oc_request_id front \<noteq> None"
  define amount where "amount = chunk_amount ?pay md ds (fs_wt_sent fs) front"
  define data where "data = take amount (drop (oc_off front) (oc_data front))"
  have am: "amount \<le> chunk_rest front" by (simp add: amount_def chunk_amount_def Let_def)
  obtain r c where qs: "q_stream_send Q (fs_conn fs) i data False = (r, c)" by fastforce
  show ?case
  proof (cases "amount = 0 \<and> chunk_rest front \<noteq> 0 \<or> (\<exists>e. r = Inl e)")
    case True
    have same: "sent c i = sent (fs_conn fs) i" if "r = Inl e" for e
      using laws qs that unfolding send_laws_def by fastforce
    from True qs Cons.prems have "fs_wt_sent fs' = fs_wt_sent fs \<and> (fs_conn fs' = fs_conn fs \<or> fs_conn fs' = c \<and> (\<exists>e. r = Inl e))"
      by (auto simp: Let_def amount_def [symmetric] data_def [symmetric] simp del: not_None_eq split: qerr.split)
    with same Cons.prems(1) show ?thesis by auto
  next
    case False
    then obtain n where r: "r = Inr n" by (cases r) auto
    have "n \<le> length data" and acc: "sent c i = sent (fs_conn fs) i @ take n data"
      using laws qs r unfolding send_laws_def by fastforce+
    then have n: "n \<le> amount" "length (sent c i) = length (sent (fs_conn fs) i) + n" by (simp_all add: data_def)
    let ?wt' = "if ?pay then fs_wt_sent fs + of_nat n else fs_wt_sent fs"
    have sat: "unat (saturating_add ds (fs_wt_sent fs)) = unat ds + unat (fs_wt_sent fs)"
      using Cons.prems(1) unat_lt_u64 [of md] by (simp add: unat_saturating_add)
    have step: "unat ds + unat ?wt' \<le> unat md" "unat ?wt' = unat (fs_wt_sent fs) + (if ?pay then n else 0)"
    proof -
      have "unat ds + unat (fs_wt_sent fs) + n \<le> unat md \<and> unat (fs_wt_sent fs + of_nat n) = unat (fs_wt_sent fs) + n" if ?pay
      proof -
        have le: "unat ds + unat (fs_wt_sent fs) + n \<le> unat md"
          using n(1) that Cons.prems(1)
          by (simp add: amount_def chunk_amount_def Let_def unat_saturating_sub sat) linarith
        then have "unat (of_nat n :: u64) = n" "unat (fs_wt_sent fs) + n < 2 ^ 64"
          using unat_lt_u64 [of md] by (simp_all add: unat_of_nat take_bit_nat_eq_self)
        with le show ?thesis by (simp add: unat_word_ariths)
      qed
      with Cons.prems(1) show "unat ds + unat ?wt' \<le> unat md" "unat ?wt' = unat (fs_wt_sent fs) + (if ?pay then n else 0)"
        by (auto simp: add.assoc simp del: not_None_eq)
    qed
    show ?thesis
    proof (cases "n < chunk_rest front")
      case True
      with False r qs Cons.prems(2) have "fs_conn fs' = c \<and> fs_wt_sent fs' = ?wt'"
        by (auto simp: Let_def amount_def [symmetric] data_def [symmetric] simp del: not_None_eq)
      with step n True show ?thesis by (auto simp del: not_None_eq)
    next
      case nlt: False
      then have nr: "n = chunk_rest front" using n(1) am by simp
      obtain fs1 where fs': "fs' = flush_out Q i True wt md ds rest fs1" and fs1: "fs_conn fs1 = c" "fs_wt_sent fs1 = ?wt'"
        using nlt False r qs Cons.prems(2)
        by (auto simp: Let_def amount_def [symmetric] data_def [symmetric] simp del: not_None_eq)
      from Cons.IH [OF _ fs'] step(1) fs1 have IH: "unat ds + unat (fs_wt_sent fs') \<le> unat md"
        "length (sent c i) \<le> length (sent (fs_conn fs') i)"
        "unat (fs_wt_sent fs') = unat ?wt' + (if wt then payload_in (length (sent (fs_conn fs') i) - length (sent c i)) rest else 0)"
        by auto
      have split: "length (sent (fs_conn fs') i) - length (sent (fs_conn fs) i)
          = n + (length (sent (fs_conn fs') i) - length (sent c i))" using IH(2) n(2) by simp
      show ?thesis using IH step(2) n(2) unfolding split by (auto simp: nr simp del: not_None_eq)
    qed
  qed
qed simp

text \<open>The session counters that matter for the limit, before and after flushing the streams.\<close>

definition within_limit :: "wt_session \<Rightarrow> u64 \<Rightarrow> bool" where
  "within_limit w wt_sent \<longleftrightarrow>
     uses_session_flow_control w \<and> unat (s_fc_data_sent w) + unat wt_sent \<le> unat (s_fc_max_data_remote w)"

text \<open>
  What the connection took of the payload of a stream between two states, and what a stream that was
  cut short gives back: its final size counts for the peer, not what had been sent.
\<close>

definition payload_taken :: "('c \<Rightarrow> u64 \<Rightarrow> bytes) \<Rightarrow> 'c sys \<Rightarrow> 'c \<Rightarrow> u64 \<Rightarrow> nat" where
  "payload_taken sent s c' i =
     (case get_stream s i of
        None \<Rightarrow> 0
      | Some st \<Rightarrow>
          if is_wt_data (st_role st) then payload_in (length (sent c' i) - length (sent (conn s) i)) (st_out st) else 0)"

definition refund :: "'c quic \<Rightarrow> u64 \<Rightarrow> 'c sys \<Rightarrow> nat" where
  "refund Q i s = unat (s_fc_data_sent (sess s)) - unat (s_fc_data_sent (sess (reconcile_send_final_size Q i s)))"

fun refunded :: "'c quic \<Rightarrow> u64 list \<Rightarrow> 'c sys \<times> u64 \<Rightarrow> nat" where
  "refunded Q [] sw = 0"
| "refunded Q (i # ids) sw = refund Q i (fst sw) + refunded Q ids (flush_stream Q i sw)"

lemma refunded_none: "(\<And>c i. q_stream_send_final_size Q c i = None) \<Longrightarrow> refunded Q ids sw = 0"
  by (induction ids arbitrary: sw) (simp_all add: refund_def reconcile_send_final_size_def)

text \<open>Flushing a stream leaves the others, in the session and in the connection.\<close>

lemma flush_stream_frame:
  assumes laws: "send_laws Q sent" and fl: "flush_stream Q i (s, w) = (s', w')" and "j \<noteq> i"
  shows "get_stream s' j = get_stream s j" "sent (conn s') j = sent (conn s) j"
proof -
  have oth: "sent c' j = sent c j" if "q_stream_send Q c i d f = (r, c')" for c d f r c'
    using laws that \<open>j \<noteq> i\<close> unfolding send_laws_def by blast
  have out: "sent (fs_conn (flush_out Q i enf wt md ds out fs)) j = sent (fs_conn fs) j" for enf wt md ds out fs
  proof (induction out arbitrary: fs wt)
    case (Cons front rest)
    show ?case
      by (auto simp: Let_def Cons.IH oth split: prod.split sum.split qerr.split)
  qed simp
  have rec: "get_stream (reconcile_send_final_size Q i s) j = get_stream s j"
    using \<open>j \<noteq> i\<close> by (simp add: reconcile_send_final_size_def Let_def modify_stream_def upd_def get_stream_def split: option.split)
  note d = fl [unfolded flush_stream_def Let_def fst_conv snd_conv]
  show "get_stream s' j = get_stream s j"
    using d rec \<open>j \<noteq> i\<close>
    by (auto simp: get_stream_def modify_stream_def upd_def split: option.splits if_splits prod.splits sum.splits)
  show "sent (conn s') j = sent (conn s) j"
    using d by (auto simp: out oth reconcile_frame modify_stream_def upd_def split: option.splits if_splits prod.splits sum.splits)
qed

lemma flush_stream_counts:
  assumes laws: "send_laws Q sent" and "within_limit (sess s) w" and fl: "flush_stream Q i (s, w) = (s', w')"
  shows "within_limit (sess s') w' \<and> s_fc_max_data_remote (sess s') = s_fc_max_data_remote (sess s)
    \<and> unat (s_fc_data_sent (sess s')) + unat w' + refund Q i s
        = unat (s_fc_data_sent (sess s)) + unat w + payload_taken sent s (conn s') i"
proof -
  define s0 where "s0 = reconcile_send_final_size Q i s"
  have lim: "within_limit (sess s0) w"
    using assms(2) reconcile_frame [of Q i s]
    by (auto simp: s0_def within_limit_def uses_session_flow_control_def)
  have given: "unat (s_fc_data_sent (sess s0)) + refund Q i s = unat (s_fc_data_sent (sess s))"
    using reconcile_frame(5) [of Q i s] by (simp add: s0_def refund_def)
  have limit: "s_fc_max_data_remote (sess s0) = s_fc_max_data_remote (sess s)" by (simp add: s0_def reconcile_frame)
  show ?thesis
  proof (cases "get_stream s0 i")
    case None
    have "get_stream s i = None"
      using None reconcile_stream [of s i _ Q] by (cases "get_stream s i") (auto simp: s0_def)
    with None fl lim given limit show ?thesis
      by (simp add: flush_stream_def Let_def s0_def [symmetric] payload_taken_def)
  next
    case (Some st)
    obtain st1 where st1: "get_stream s i = Some st1" "st_out st = st_out st1" "st_role st = st_role st1"
    proof (cases "get_stream s i")
      case None
      then have "s0 = s" by (simp add: s0_def reconcile_send_final_size_def split: option.split)
      with None Some show ?thesis by simp
    next
      case (Some st2)
      with reconcile_stream [OF this, of Q] \<open>get_stream s0 i = Some st\<close> that show ?thesis by (auto simp: s0_def)
    qed
    define fs0 where "fs0 = \<lparr>fs_conn = conn s0, fs_evs = evs s0, fs_wt_sent = w, fs_out = st_out st,
        fs_send_payload = st_send_payload st, fs_fin_sent = st_fin_sent st, fs_go = False\<rparr>"
    define fs where "fs = flush_out Q i True (is_wt_data (st_role st)) (s_fc_max_data_remote (sess s0))
      (s_fc_data_sent (sess s0)) (st_out st) fs0"
    have fin: "sent c j = sent c0 j" if "q_stream_send Q c0 i [] True = (r, c)" for c0 r c j
      using laws that unfolding send_laws_def by (cases "j = i") (fastforce split: sum.splits)+
    have uses: "uses_session_flow_control (sess s0)" using lim by (simp add: within_limit_def)
    have same: "w' = fs_wt_sent fs \<and> s_fc_data_sent (sess s') = s_fc_data_sent (sess s0)
        \<and> s_fc_max_data_remote (sess s') = s_fc_max_data_remote (sess s0)
        \<and> s_peer_settings (sess s') = s_peer_settings (sess s0) \<and> sent (conn s') i = sent (fs_conn fs) i"
      using fl Some uses fin
      unfolding flush_stream_def Let_def fst_conv snd_conv s0_def [symmetric] Some option.case
      by (auto simp: fs_def fs0_def modify_stream_def upd_def split: if_splits prod.splits sum.splits)
    have "unat (s_fc_data_sent (sess s0)) + unat (fs_wt_sent fs0) \<le> unat (s_fc_max_data_remote (sess s0))"
      using lim by (simp add: within_limit_def fs0_def)
    from flush_out_counts [OF laws this fs_def]
    have counts: "unat (s_fc_data_sent (sess s0)) + unat (fs_wt_sent fs) \<le> unat (s_fc_max_data_remote (sess s0))"
      "unat (fs_wt_sent fs) = unat w + (if is_wt_data (st_role st)
         then payload_in (length (sent (fs_conn fs) i) - length (sent (conn s) i)) (st_out st) else 0)"
      by (simp_all add: fs0_def s0_def reconcile_frame)
    have "within_limit (sess s') w'" using same counts(1) uses by (simp add: within_limit_def uses_session_flow_control_def)
    with same counts(2) given limit st1 show ?thesis by (simp add: payload_taken_def)
  qed
qed

lemma flush_fold_counts:
  assumes laws: "send_laws Q sent"
  shows "within_limit (sess s) w \<Longrightarrow> distinct ids \<Longrightarrow> foldl (\<lambda>sw i. flush_stream Q i sw) (s, w) ids = (s', w') \<Longrightarrow>
    within_limit (sess s') w' \<and> s_fc_max_data_remote (sess s') = s_fc_max_data_remote (sess s)
    \<and> (\<forall>j. j \<notin> set ids \<longrightarrow> sent (conn s') j = sent (conn s) j)
    \<and> unat (s_fc_data_sent (sess s')) + unat w' + refunded Q ids (s, w)
        = unat (s_fc_data_sent (sess s)) + unat w + (\<Sum>i\<in>set ids. payload_taken sent s (conn s') i)"
proof (induction ids arbitrary: s w)
  case (Cons i ids)
  obtain s1 w1 where f: "flush_stream Q i (s, w) = (s1, w1)" by fastforce
  note one = flush_stream_counts [OF laws Cons.prems(1) f]
  note frame = flush_stream_frame [OF laws f]
  have "foldl (\<lambda>sw i. flush_stream Q i sw) (s1, w1) ids = (s', w')" using Cons.prems(3) f by simp
  from Cons.IH [OF _ _ this] one Cons.prems(2) have IH: "within_limit (sess s') w'"
    "s_fc_max_data_remote (sess s') = s_fc_max_data_remote (sess s)"
    "\<forall>j. j \<notin> set ids \<longrightarrow> sent (conn s') j = sent (conn s1) j"
    "unat (s_fc_data_sent (sess s')) + unat w' + refunded Q ids (s1, w1)
        = unat (s_fc_data_sent (sess s1)) + unat w1 + (\<Sum>i\<in>set ids. payload_taken sent s1 (conn s') i)" by auto
  have i: "sent (conn s') i = sent (conn s1) i" using IH(3) Cons.prems(2) by simp
  have others: "(\<Sum>i\<in>set ids. payload_taken sent s1 (conn s') i) = (\<Sum>i\<in>set ids. payload_taken sent s (conn s') i)"
  proof (rule sum.cong [OF refl])
    fix j assume "j \<in> set ids"
    with Cons.prems(2) have "j \<noteq> i" by auto
    with frame show "payload_taken sent s1 (conn s') j = payload_taken sent s (conn s') j"
      by (simp add: payload_taken_def split: option.split)
  qed
  have "payload_taken sent s (conn s') i = payload_taken sent s (conn s1) i" using i by (simp add: payload_taken_def split: option.split)
  with one IH(4) others f Cons.prems(2) have "unat (s_fc_data_sent (sess s')) + unat w' + refunded Q (i # ids) (s, w)
      = unat (s_fc_data_sent (sess s)) + unat w + (\<Sum>i\<in>set (i # ids). payload_taken sent s (conn s') i)" by simp
  with IH(1-3) frame(2) one show ?case by auto
qed simp

lemma flush_streams_counts:
  assumes "send_laws Q sent" and "within_limit (sess s) 0"
    and "distinct (e_order E (hm_keys (s_streams (sess s))))"
  shows "within_limit (sess (flush_streams E Q s)) 0
    \<and> s_fc_max_data_remote (sess (flush_streams E Q s)) = s_fc_max_data_remote (sess s)
    \<and> unat (s_fc_data_sent (sess (flush_streams E Q s))) + refunded Q (e_order E (hm_keys (s_streams (sess s)))) (s, 0)
      = unat (s_fc_data_sent (sess s))
        + (\<Sum>i\<in>set (e_order E (hm_keys (s_streams (sess s)))). payload_taken sent s (conn (flush_streams E Q s)) i)"
proof -
  obtain s' w' where f: "foldl (\<lambda>sw i. flush_stream Q i sw) (s, 0) (e_order E (hm_keys (s_streams (sess s)))) = (s', w')"
    by fastforce
  note c = flush_fold_counts [OF assms(1-3) f]
  then have "unat (s_fc_data_sent (sess s')) + unat w' < 2 ^ 64"
    using unat_lt_u64 [of "s_fc_max_data_remote (sess s')"] by (auto simp: within_limit_def)
  then have "unat (s_fc_data_sent (sess s') + w') = unat (s_fc_data_sent (sess s')) + unat w'"
    by (simp add: unat_word_ariths)
  with c f show ?thesis
    by (auto simp: flush_streams_def upd_def within_limit_def uses_session_flow_control_def)
qed

text \<open>The other steps of \<^verbatim>\<open>flush\<close> leave these counters alone.\<close>

definition fc_view :: "wt_session \<Rightarrow> u64 \<times> u64 \<times> peer_settings option" where
  "fc_view w = (s_fc_data_sent w, s_fc_max_data_remote w, s_peer_settings w)"

lemma within_limit_view: "fc_view w = fc_view w' \<Longrightarrow> within_limit w n = within_limit w' n"
  by (simp add: fc_view_def within_limit_def uses_session_flow_control_def)

lemma fc_view_queue: "fc_view (sess (queue_session_capsule ty v s)) = fc_view (sess s)"
  by (simp add: queue_session_capsule_def modify_stream_def upd_def fc_view_def)

lemma fc_view_upd: "(\<And>w. fc_view (f w) = fc_view w) \<Longrightarrow> fc_view (sess (upd f s)) = fc_view (sess s)"
  by (simp add: upd_def)

lemma fc_view_release: "fc_view (sess (release_opens ps s)) = fc_view (sess s)"
  by (induction ps s rule: release_opens.induct)
    (auto simp: Let_def allocate_stream_def push_ev_def insert_stream_def upd_def fc_view_def)

lemma fc_view_before:
  "fc_view (sess (release_pending_opens (flush_close_capsule (flush_replenish (flush_grant
     (flush_terminal_error Q s)))))) = fc_view (sess s)"
proof -
  have "fc_view (sess (flush_terminal_error Q s)) = fc_view (sess s)" for s
    by (simp add: flush_terminal_error_def upd_def fc_view_def split: option.split prod.split)
  moreover have "fc_view (sess (flush_grant s)) = fc_view (sess s)" for s :: "'a sys"
    by (simp add: flush_grant_def Let_def fc_view_queue) (simp add: upd_def fc_view_def)
  moreover have "fc_view (sess (replenish_data s)) = fc_view (sess s)"
    "fc_view (sess (replenish_streams b s)) = fc_view (sess s)" for b and s :: "'a sys"
    by (simp_all add: replenish_data_def replenish_streams_def Let_def fc_view_queue) (simp_all add: upd_def fc_view_def)
  moreover have "fc_view (sess (flush_close_capsule s)) = fc_view (sess s)" for s :: "'a sys"
    by (simp add: flush_close_capsule_def Let_def modify_stream_def upd_def fc_view_def split: option.split)
  moreover have "fc_view (sess (release_pending_opens s)) = fc_view (sess s)" for s :: "'a sys"
    by (simp add: release_pending_opens_def fc_view_release) (simp add: upd_def fc_view_def)
  ultimately show ?thesis by (simp add: flush_replenish_def)
qed

lemma fc_view_after:
  "fc_view (sess (flush_quic_close Q (prune_streams (signal_flow_control_blocked s)))) = fc_view (sess s)"
proof -
  have "fc_view (sess (signal_flow_control_blocked s)) = fc_view (sess s)" for s :: "'a sys"
    by (simp add: signal_flow_control_blocked_def signal_data_blocked_def signal_bidi_blocked_def
        signal_uni_blocked_def Let_def queue_session_capsule_def modify_stream_def upd_def fc_view_def)
  moreover have "fc_view (sess (prune_streams s)) = fc_view (sess s)" for s :: "'a sys"
    by (simp add: prune_streams_def Let_def upd_def fc_view_def)
  moreover have "fc_view (sess (flush_quic_close Q s)) = fc_view (sess s)" for s
    by (simp add: flush_quic_close_def Let_def upd_def fc_view_def split: option.split)
  ultimately show ?thesis by simp
qed

text \<open>What \<^verbatim>\<open>flush\<close> does before it sends, and what it needs of the parameters: closing leaves what was sent.\<close>

definition before_sending :: "'c quic \<Rightarrow> 'c sys \<Rightarrow> 'c sys" where
  "before_sending Q s =
     release_pending_opens (flush_close_capsule (flush_replenish (flush_grant (flush_terminal_error Q s))))"

definition close_keeps :: "'c quic \<Rightarrow> ('c \<Rightarrow> u64 \<Rightarrow> bytes) \<Rightarrow> bool" where
  "close_keeps Q sent \<longleftrightarrow> (\<forall>c app code msg i. sent (q_close Q c app code msg) i = sent c i)"

definition visits_once :: "env \<Rightarrow> bool" where
  "visits_once E \<longleftrightarrow> (\<forall>ids. distinct ids \<longrightarrow> distinct (e_order E ids) \<and> set (e_order E ids) = set ids)"

lemma distinct_before_sending:
  assumes "distinct (hm_keys (s_streams (sess s)))"
  shows "distinct (hm_keys (s_streams (sess (before_sending Q s))))"
proof -
  have q: "distinct (hm_keys (s_streams (sess (queue_session_capsule ty v s)))) = distinct (hm_keys (s_streams (sess s)))" for ty v and s :: "'a sys"
    by (simp add: queue_session_capsule_def modify_stream_def upd_def)
  have u: "distinct (hm_keys (s_streams (sess (upd f s)))) = distinct (hm_keys (s_streams (sess s)))"
    if "\<And>w. s_streams (f w) = s_streams w" for f and s :: "'a sys" using that by (simp add: upd_def)
  have r: "distinct (hm_keys (s_streams (sess (release_opens ps s))))" if "distinct (hm_keys (s_streams (sess s)))" for ps and s :: "'a sys"
    using that by (induction ps s rule: release_opens.induct)
      (auto simp: Let_def allocate_stream_def push_ev_def insert_stream_def upd_def distinct_update)
  have "distinct (hm_keys (s_streams (sess (flush_terminal_error Q s)))) = distinct (hm_keys (s_streams (sess s)))"
    by (simp add: flush_terminal_error_def upd_def split: option.split prod.split)
  moreover have "distinct (hm_keys (s_streams (sess (flush_grant s)))) = distinct (hm_keys (s_streams (sess s)))" for s :: "'a sys"
    by (simp add: flush_grant_def Let_def q u)
  moreover have "distinct (hm_keys (s_streams (sess (replenish_data s)))) = distinct (hm_keys (s_streams (sess s)))"
    "distinct (hm_keys (s_streams (sess (replenish_streams b s)))) = distinct (hm_keys (s_streams (sess s)))" for b and s :: "'a sys"
    by (simp_all add: replenish_data_def replenish_streams_def Let_def q u)
  moreover have "distinct (hm_keys (s_streams (sess (flush_close_capsule s)))) = distinct (hm_keys (s_streams (sess s)))" for s :: "'a sys"
    by (simp add: flush_close_capsule_def Let_def modify_stream_def upd_def split: option.split)
  moreover have "distinct (hm_keys (s_streams (sess (release_pending_opens s))))" if "distinct (hm_keys (s_streams (sess s)))" for s :: "'a sys"
    using that r by (simp add: release_pending_opens_def u)
  ultimately show ?thesis using assms by (simp add: before_sending_def flush_replenish_def)
qed

lemma conn_unsent:
  "conn (upd f s) = conn s" "conn (queue_session_capsule ty v s) = conn s" "conn (release_opens ps s) = conn s"
  "conn (replenish_data s) = conn s" "conn (replenish_streams b s) = conn s"
  "conn (flush_grant s) = conn s" "conn (flush_close_capsule s) = conn s"
proof -
  have u: "conn (upd f s) = conn s" for f and s :: "'a sys" by (simp add: upd_def)
  have q: "conn (queue_session_capsule ty v s) = conn s" for ty v and s :: "'a sys"
    by (simp add: queue_session_capsule_def modify_stream_def u)
  show "conn (release_opens ps s) = conn s"
    by (induction ps s rule: release_opens.induct) (auto simp: Let_def allocate_stream_def push_ev_def insert_stream_def u)
  show "conn (replenish_data s) = conn s" "conn (replenish_streams b s) = conn s" "conn (flush_grant s) = conn s"
    by (simp_all add: replenish_data_def replenish_streams_def flush_grant_def Let_def q u)
  show "conn (flush_close_capsule s) = conn s"
    by (simp add: flush_close_capsule_def Let_def modify_stream_def u split: option.split)
qed (simp_all add: queue_session_capsule_def modify_stream_def upd_def)

lemma sent_before_sending:
  assumes "close_keeps Q sent"
  shows "sent (conn (before_sending Q s)) i = sent (conn s) i"
proof -
  have "sent (conn (flush_terminal_error Q s)) i = sent (conn s) i"
    using assms by (simp add: flush_terminal_error_def upd_def close_keeps_def split: option.split prod.split)
  moreover have "conn (release_pending_opens s) = conn s" "conn (flush_replenish s) = conn s" for s :: "'a sys"
    by (simp_all add: release_pending_opens_def flush_replenish_def conn_unsent)
  ultimately show ?thesis by (simp add: before_sending_def conn_unsent)
qed

lemma sent_after_sending:
  assumes "close_keeps Q sent"
  shows "sent (conn (flush_quic_close Q (prune_streams (signal_flow_control_blocked s)))) i = sent (conn s) i"
proof -
  have "sent (conn (flush_quic_close Q s)) i = sent (conn s) i" for s
    using assms by (simp add: flush_quic_close_def Let_def upd_def close_keeps_def split: option.split)
  moreover have "conn (prune_streams (signal_flow_control_blocked s)) = conn s"
    by (simp add: prune_streams_def signal_flow_control_blocked_def signal_data_blocked_def signal_bidi_blocked_def
        signal_uni_blocked_def Let_def queue_session_capsule_def modify_stream_def upd_def)
  ultimately show ?thesis by simp
qed

lemma flush_counts:
  assumes laws: "send_laws Q sent" "close_keeps Q sent" "visits_once E"
    and lim: "within_limit (sess s) 0" and keys: "distinct (hm_keys (s_streams (sess s)))"
  shows "within_limit (sess (flush E Q s)) 0
    \<and> s_fc_max_data_remote (sess (flush E Q s)) = s_fc_max_data_remote (sess s)
    \<and> unat (s_fc_data_sent (sess (flush E Q s)))
        + refunded Q (e_order E (hm_keys (s_streams (sess (before_sending Q s))))) (before_sending Q s, 0)
      = unat (s_fc_data_sent (sess s))
        + (\<Sum>i\<in>set (hm_keys (s_streams (sess (before_sending Q s)))).
             payload_taken sent (before_sending Q s) (conn (flush E Q s)) i)"
proof -
  let ?s1 = "before_sending Q s"
  let ?s2 = "flush_streams E Q ?s1"
  have view: "fc_view (sess ?s1) = fc_view (sess s)" unfolding before_sending_def by (rule fc_view_before)
  have "within_limit (sess ?s1) 0" using lim within_limit_view [OF view] by blast
  moreover have ord: "distinct (e_order E (hm_keys (s_streams (sess ?s1))))"
    "set (e_order E (hm_keys (s_streams (sess ?s1)))) = set (hm_keys (s_streams (sess ?s1)))"
    using laws(3) distinct_before_sending [OF keys, of Q] unfolding visits_once_def by blast+
  ultimately have c: "within_limit (sess ?s2) 0 \<and> s_fc_max_data_remote (sess ?s2) = s_fc_max_data_remote (sess ?s1)
      \<and> unat (s_fc_data_sent (sess ?s2)) + refunded Q (e_order E (hm_keys (s_streams (sess ?s1)))) (?s1, 0)
        = unat (s_fc_data_sent (sess ?s1)) + (\<Sum>i\<in>set (hm_keys (s_streams (sess ?s1))). payload_taken sent ?s1 (conn ?s2) i)"
    using flush_streams_counts [OF laws(1), of ?s1 E] by simp
  have fl: "flush E Q s = flush_quic_close Q (prune_streams (signal_flow_control_blocked ?s2))"
    by (simp add: flush_def before_sending_def Let_def)
  have after: "fc_view (sess (flush E Q s)) = fc_view (sess ?s2)" unfolding fl by (rule fc_view_after)
  have "payload_taken sent ?s1 (conn (flush E Q s)) i = payload_taken sent ?s1 (conn ?s2) i" for i
    using sent_after_sending [OF laws(2), of ?s2 i] unfolding fl by (simp add: payload_taken_def split: option.split)
  with c view after within_limit_view [OF after] show ?thesis by (simp add: fc_view_def)
qed

section \<open>Stream limits\<close>

definition next_id :: "bool \<Rightarrow> wt_session \<Rightarrow> u64" where
  "next_id bidi w = (if bidi then s_next_bidi w else s_next_uni w)"

definition stream_limit :: "bool \<Rightarrow> wt_session \<Rightarrow> u64" where
  "stream_limit bidi w = (if bidi then s_fc_max_streams_bidi_remote w else s_fc_max_streams_uni_remote w)"

text \<open>\<open>k\<close> streams of the direction have been opened so far.\<close>

definition opened_at :: "bool \<Rightarrow> wt_session \<Rightarrow> nat \<Rightarrow> bool" where
  "opened_at bidi w k \<longleftrightarrow> next_id bidi w = first_wt_id (s_is_server w) bidi + 4 * of_nat k"

lemma unat_quarter: "k \<le> 2 ^ 60 \<Longrightarrow> unat ((4 * of_nat k :: u64) div 4) = k"
proof -
  assume k: "k \<le> 2 ^ 60"
  have "unat (of_nat k :: u64) = k" using k by (simp add: unat_of_nat take_bit_nat_eq_self)
  then have "unat (4 * of_nat k :: u64) = 4 * k" using k by (simp add: unat_word_ariths)
  then show ?thesis by (simp add: unat_div)
qed

lemma opened_div:
  "opened_at b w k \<Longrightarrow> k \<le> 2 ^ 60 \<Longrightarrow>
   (next_id b w - first_wt_id (s_is_server w) b) div 4 \<ge> l \<longleftrightarrow> unat l \<le> k"
  using unat_quarter [of k] by (simp add: opened_at_def word_le_nat_alt)

lemma allocate_views:
  "next_id b (sess (allocate_stream d r s)) = (if b = d then next_id b (sess s) + 4 else next_id b (sess s))"
  "stream_limit b (sess (allocate_stream d r s)) = stream_limit b (sess s)"
  "s_is_server (sess (allocate_stream d r s)) = s_is_server (sess s)"
  "s_pending_opens (sess (allocate_stream d r s)) = s_pending_opens (sess s)"
  "uses_session_flow_control (sess (allocate_stream d r s)) = uses_session_flow_control (sess s)"
  by (auto simp: allocate_stream_def Let_def push_ev_def insert_stream_def upd_def next_id_def stream_limit_def
      uses_session_flow_control_def)

lemma defer_views:
  "next_id b (sess (upd (\<lambda>w. w\<lparr>s_pending_opens := x w\<rparr>) s)) = next_id b (sess s)"
  "stream_limit b (sess (upd (\<lambda>w. w\<lparr>s_pending_opens := x w\<rparr>) s)) = stream_limit b (sess s)"
  "s_is_server (sess (upd (\<lambda>w. w\<lparr>s_pending_opens := x w\<rparr>) s)) = s_is_server (sess s)"
  "s_pending_opens (sess (upd (\<lambda>w. w\<lparr>s_pending_opens := x w\<rparr>) s)) = x (sess s)"
  "uses_session_flow_control (sess (upd (\<lambda>w. w\<lparr>s_pending_opens := x w\<rparr>) s)) = uses_session_flow_control (sess s)"
  by (simp_all add: upd_def next_id_def stream_limit_def uses_session_flow_control_def)

lemma release_opens_Cons:
  "release_opens ((d, r) # ps) s =
     (if uses_session_flow_control (sess s)
         \<and> stream_limit d (sess s) \<le> (next_id d (sess s) - first_wt_id (s_is_server (sess s)) d) div 4
      then release_opens ps (upd (\<lambda>w. w\<lparr>s_pending_opens := s_pending_opens w @ [(d, r)]\<rparr>) s)
      else release_opens ps (allocate_stream d r s))"
  by (simp add: Let_def stream_limit_def next_id_def)

lemma release_opens_spec:
  assumes "uses_session_flow_control (sess s)" and "opened_at b (sess s) k" and "k \<le> 2 ^ 60"
    and "unat (stream_limit b (sess s)) \<le> 2 ^ 60"
  shows "let reqs = filter (\<lambda>p. fst p = b) ps; n = min (length reqs) (unat (stream_limit b (sess s)) - k)
    in opened_at b (sess (release_opens ps s)) (k + n)
       \<and> filter (\<lambda>p. fst p = b) (s_pending_opens (sess (release_opens ps s)))
         = filter (\<lambda>p. fst p = b) (s_pending_opens (sess s)) @ drop n reqs"
  using assms
proof (induction ps arbitrary: s k)
  case (Cons p ps)
  obtain d r where p: "p = (d, r)" by (cases p)
  let ?defer = "upd (\<lambda>w. w\<lparr>s_pending_opens := s_pending_opens w @ [(d, r)]\<rparr>) s"
  let ?alloc = "allocate_stream d r s"
  show ?case
  proof (cases "d = b")
    case False
    have eq: "release_opens (p # ps) s = release_opens ps ?defer \<or> release_opens (p # ps) s = release_opens ps ?alloc"
      unfolding p release_opens_Cons by simp
    have v: "opened_at b (sess ?defer) k" "opened_at b (sess ?alloc) k"
      using Cons.prems(2) False by (auto simp: opened_at_def allocate_views defer_views)
    show ?thesis
      using eq Cons.IH [of ?defer k] Cons.IH [of ?alloc k] v Cons.prems False
      by (auto simp: p Let_def allocate_views defer_views)
  next
    case True
    show ?thesis
    proof (cases "unat (stream_limit b (sess s)) \<le> k")
      case full: True
      have "release_opens (p # ps) s = release_opens ps ?defer"
        unfolding p release_opens_Cons using opened_div [OF Cons.prems(2,3)] full True Cons.prems(1) by simp
      moreover have "opened_at b (sess ?defer) k"
        using Cons.prems(2) by (simp add: opened_at_def defer_views)
      ultimately show ?thesis
        using Cons.IH [of ?defer k] Cons.prems full True by (simp add: p Let_def defer_views)
    next
      case room: False
      have eq: "release_opens (p # ps) s = release_opens ps ?alloc"
        unfolding p release_opens_Cons using opened_div [OF Cons.prems(2,3)] room True by simp
      have k1: "opened_at b (sess ?alloc) (Suc k)"
        using Cons.prems(2) True by (simp add: opened_at_def allocate_views algebra_simps)
      have n: "min (Suc m) (l - k) = Suc (min m (l - Suc k))" if "\<not> l \<le> k" for l m :: nat using that by simp
      have "Suc k \<le> 2 ^ 60" using room Cons.prems(4) by simp
      with Cons.IH [of ?alloc "Suc k"] Cons.prems k1 room True show ?thesis
        unfolding eq by (simp add: p Let_def allocate_views n)
    qed
  qed
qed (simp add: Let_def)

section \<open>Blocked signals\<close>

text \<open>What the signals read and write, apart from the queue of the session stream.\<close>

lemma has_pending_queue:
  "has_pending_payload (sess (queue_session_capsule ty v s)) = has_pending_payload (sess s)"
proof -
  have step: "list_ex (\<lambda>(_, st). is_wt_data (st_role st) \<and> list_ex (\<lambda>c. oc_request_id c \<noteq> None) (st_out st))
        (AList.update k (push_chunk d None st) m)
      = list_ex (\<lambda>(_, st). is_wt_data (st_role st) \<and> list_ex (\<lambda>c. oc_request_id c \<noteq> None) (st_out st)) m"
    if "map_of m k = Some st" for k d st and m :: "(u64 \<times> stream) list"
    using that by (induction m) (auto simp: push_chunk_def split: if_splits)
  show ?thesis
    by (simp add: has_pending_payload_def queue_session_capsule_def modify_stream_def upd_def hm_modify_def
        step del: not_None_eq split: option.split)
qed

definition signalled :: "wt_session \<Rightarrow> bool" where
  "signalled w \<longleftrightarrow>
     \<not> (s_fc_data_sent w \<ge> s_fc_max_data_remote w \<and> s_data_blocked_at w \<noteq> Some (s_fc_max_data_remote w)
        \<and> has_pending_payload w)
     \<and> \<not> ((s_next_bidi w - first_wt_id (s_is_server w) True) div 4 \<ge> s_fc_max_streams_bidi_remote w
        \<and> list_ex fst (s_pending_opens w) \<and> s_streams_bidi_blocked_at w \<noteq> Some (s_fc_max_streams_bidi_remote w))
     \<and> \<not> ((s_next_uni w - first_wt_id (s_is_server w) False) div 4 \<ge> s_fc_max_streams_uni_remote w
        \<and> list_ex (\<lambda>p. \<not> fst p) (s_pending_opens w)
        \<and> s_streams_uni_blocked_at w \<noteq> Some (s_fc_max_streams_uni_remote w))"

lemma signal_idle: "signalled (sess s) \<Longrightarrow> signal_flow_control_blocked s = s"
  by (auto simp: signalled_def signal_flow_control_blocked_def signal_data_blocked_def signal_bidi_blocked_def
      signal_uni_blocked_def Let_def)

lemma queue_fields:
  "sess (queue_session_capsule ty v s) =
     (sess s)\<lparr>s_streams := hm_modify CONNECT_ID (push_chunk (session_capsule ty v) None) (s_streams (sess s))\<rparr>"
  by (simp add: queue_session_capsule_def modify_stream_def upd_def)

lemma has_pending_cong: "s_streams w' = s_streams w \<Longrightarrow> has_pending_payload w' = has_pending_payload w"
  by (simp add: has_pending_payload_def)

lemma signal_done:
  assumes "uses_session_flow_control (sess s)" and "\<not> closed s"
  shows "signalled (sess (signal_flow_control_blocked s))"
proof -
  have q: "has_pending_payload ((sess s)\<lparr>s_streams := hm_modify CONNECT_ID (push_chunk (session_capsule ty v) None)
      (s_streams (sess s))\<rparr>) = has_pending_payload (sess s)" for ty v and s :: "'a sys"
    using has_pending_queue [of ty v s] by (simp add: queue_fields)
  define P where "P s1 s2 \<longleftrightarrow> has_pending_payload (sess s2) = has_pending_payload (sess s1)
      \<and> s_fc_data_sent (sess s2) = s_fc_data_sent (sess s1) \<and> s_fc_max_data_remote (sess s2) = s_fc_max_data_remote (sess s1)
      \<and> s_next_bidi (sess s2) = s_next_bidi (sess s1) \<and> s_next_uni (sess s2) = s_next_uni (sess s1)
      \<and> s_is_server (sess s2) = s_is_server (sess s1) \<and> s_pending_opens (sess s2) = s_pending_opens (sess s1)
      \<and> s_fc_max_streams_bidi_remote (sess s2) = s_fc_max_streams_bidi_remote (sess s1)
      \<and> s_fc_max_streams_uni_remote (sess s2) = s_fc_max_streams_uni_remote (sess s1)" for s1 s2 :: "'a sys"
  have hp: "has_pending_payload (sess (upd f (queue_session_capsule ty v s))) = has_pending_payload (sess s)"
    if "\<And>w. s_streams (f w) = s_streams w" for f ty v and s :: "'a sys"
    using has_pending_cong [OF that] has_pending_queue by (simp add: upd_def)
  have d: "P s (signal_data_blocked s)" "P s (signal_bidi_blocked s)" "P s (signal_uni_blocked s)" for s
    by (simp_all add: P_def signal_data_blocked_def signal_bidi_blocked_def signal_uni_blocked_def Let_def hp)
      (simp_all add: upd_def queue_fields)
  have at: "s_data_blocked_at (sess (signal_bidi_blocked s)) = s_data_blocked_at (sess s)"
    "s_data_blocked_at (sess (signal_uni_blocked s)) = s_data_blocked_at (sess s)"
    "s_streams_bidi_blocked_at (sess (signal_uni_blocked s)) = s_streams_bidi_blocked_at (sess s)" for s :: "'a sys"
    by (simp_all add: signal_bidi_blocked_def signal_uni_blocked_def Let_def) (simp_all add: upd_def queue_fields)
  have set: "s_data_blocked_at (sess (signal_data_blocked s)) = (if s_fc_data_sent (sess s) \<ge> s_fc_max_data_remote (sess s)
        \<and> has_pending_payload (sess s) then Some (s_fc_max_data_remote (sess s)) else s_data_blocked_at (sess s))"
    "s_streams_bidi_blocked_at (sess (signal_bidi_blocked s)) =
       (if (s_next_bidi (sess s) - first_wt_id (s_is_server (sess s)) True) div 4 \<ge> s_fc_max_streams_bidi_remote (sess s)
         \<and> list_ex fst (s_pending_opens (sess s)) then Some (s_fc_max_streams_bidi_remote (sess s))
        else s_streams_bidi_blocked_at (sess s))"
    "s_streams_uni_blocked_at (sess (signal_uni_blocked s)) =
       (if (s_next_uni (sess s) - first_wt_id (s_is_server (sess s)) False) div 4 \<ge> s_fc_max_streams_uni_remote (sess s)
         \<and> list_ex (\<lambda>p. \<not> fst p) (s_pending_opens (sess s)) then Some (s_fc_max_streams_uni_remote (sess s))
        else s_streams_uni_blocked_at (sess s))" for s :: "'a sys"
    by (auto simp: signal_data_blocked_def signal_bidi_blocked_def signal_uni_blocked_def Let_def upd_def queue_fields)
  let ?d = "signal_data_blocked s" and ?b = "signal_bidi_blocked (signal_data_blocked s)"
  have "P s ?d" "P ?d ?b" "P ?b (signal_uni_blocked ?b)" using d by blast+
  then show ?thesis
    using assms set(1) [of s] set(2) [of ?d] set(3) [of ?b] at(1) [of ?d] at(2,3) [of ?b]
    unfolding P_def signal_flow_control_blocked_def signalled_def by (auto split: if_splits)
qed

section \<open>Properties\<close>

text \<open>
  Claim C22. Sending is reliable and in order. Unless the connection says that the peer stopped the
  stream, the bytes it has accepted followed by the bytes still queued are the bytes accepted before
  followed by those queued before, so none is lost, repeated or reordered; the events are the
  acknowledgements of the writes that left, in their order, and the end of the stream is sent only
  after everything else, when it was asked for. When the peer stopped the stream, a prefix has been
  accepted, that is reported with the application's code, and every write is acknowledged, once and
  in order. Other streams are not touched.
\<close>

theorem flush_stream_in_order:
  assumes "send_laws Q sent" and "get_stream s i = Some st" and "chunks_ok (st_out st)"
    and "flush_stream Q i (s, w) = (s', w')"
  shows "\<exists>st'. get_stream s' i = Some st' \<and> chunks_ok (st_out st')
    \<and> ((\<exists>ids. evs s' = evs s @ map EvWriteAck ids \<and> ids @ chunk_ids (st_out st') = chunk_ids (st_out st))
         \<and> sent (conn s') i @ pending_bytes (st_out st') = sent (conn s) i @ pending_bytes (st_out st)
         \<and> (st_fin_sent st' \<longrightarrow> st_fin_sent st \<or> st_fin_queued st \<and> st_out st' = []
              \<and> (\<exists>c n. q_stream_send Q c i [] True = (Inr n, conn s')))
       \<or> st_fin_sent st' \<and> st_out st' = []
         \<and> (\<exists>code pre post. stopped_by Q i code (conn s') \<and> pre @ post = chunk_ids (st_out st)
              \<and> evs s' = evs s @ map EvWriteAck pre @ EvStreamStopSending i (stop_code code) # map EvWriteAck post)
         \<and> (\<exists>n. sent (conn s') i = sent (conn s) i @ take n (pending_bytes (st_out st))))
    \<and> (\<forall>j. j \<noteq> i \<longrightarrow> sent (conn s') j = sent (conn s) j)"
  using flush_stream_outcome [OF assms] unfolding sent_all_def sent_until_stopped_def .

definition mini_sent :: "mini \<Rightarrow> u64 \<Rightarrow> bytes" where
  "mini_sent c i = concat (map (\<lambda>(_, bs, _). bs) (filter (\<lambda>(j, _). j = i) (mi_out c)))"

lemma mini_send_laws: "send_laws mini_quic mini_sent"
  by (auto simp: send_laws_def mini_quic_def mini_send_def mini_sent_def)

lemma mini_never_stopped: "\<not> stopped_by mini_quic i code c"
  by (simp add: stopped_by_def mini_quic_def mini_send_def)

theorem flush_stream_in_order_witness:
  "\<exists>s' w' st'. flush_stream mini_quic 4 ((session_start (new_client [] [] None [] []) mini_idle)
       \<lparr>sess := (new_client [] [] None [] [])\<lparr>s_streams := [(4, push_chunk [7, 8] (Some 1) (Stream_new (WtData True)))]\<rparr>\<rparr>, 0)
     = (s', w') \<and> get_stream s' 4 = Some st'
     \<and> mini_sent (conn s') 4 @ pending_bytes (st_out st') = [7, 8]"
proof -
  let ?st = "push_chunk [7, 8] (Some 1) (Stream_new (WtData True))"
  let ?s = "(session_start (new_client [] [] None [] []) mini_idle)\<lparr>sess := (new_client [] [] None [] [])
     \<lparr>s_streams := [(4, ?st)]\<rparr>\<rparr>"
  obtain s' w' where f: "flush_stream mini_quic 4 (?s, 0) = (s', w')" by fastforce
  have g: "get_stream ?s 4 = Some ?st" by (simp add: get_stream_def)
  have ck: "chunks_ok (st_out ?st)" by (simp add: chunks_ok_def push_chunk_def Stream_new_def)
  have "mini_sent (conn ?s) 4 = []" by (simp add: session_start_def mini_idle_def mini_sent_def)
  moreover have "pending_bytes (st_out ?st) = [7, 8]" by (simp add: push_chunk_def Stream_new_def)
  ultimately show ?thesis
    using flush_stream_in_order [OF mini_send_laws g ck f] f mini_never_stopped by fastforce
qed

text \<open>
  Claim C23. A flush respects the peer's data limit, in bytes and not only in its own books. With
  session flow control in force and the counter within the limit, the counter grows in a flush by
  exactly the payload bytes that the connection accepted, on however many streams and in
  whatever portions, less what streams that were cut short give back (nothing, if there are
  none); after the flush it is still within the limit, which is the same. The equation is between
  natural numbers: no counter wraps around.
\<close>

theorem flush_respects_data_limit:
  assumes "send_laws Q sent" and "close_keeps Q sent" and "visits_once E"
    and "uses_session_flow_control (sess s)" and "s_fc_data_sent (sess s) \<le> s_fc_max_data_remote (sess s)"
    and "distinct (hm_keys (s_streams (sess s)))"
  shows "let s1 = before_sending Q s; s' = flush E Q s; ids = e_order E (hm_keys (s_streams (sess s1)));
             returned = refunded Q ids (s1, 0)
    in unat (s_fc_data_sent (sess s')) + returned
         = unat (s_fc_data_sent (sess s))
           + (\<Sum>i\<in>set (hm_keys (s_streams (sess s1))). payload_taken sent s1 (conn s') i)
       \<and> s_fc_data_sent (sess s') \<le> s_fc_max_data_remote (sess s')
       \<and> s_fc_max_data_remote (sess s') = s_fc_max_data_remote (sess s)
       \<and> ((\<forall>c i. q_stream_send_final_size Q c i = None) \<longrightarrow> returned = 0)"
proof -
  have "within_limit (sess s) 0" using assms(4,5) by (simp add: within_limit_def word_le_nat_alt)
  from flush_counts [OF assms(1-3) this assms(6)] show ?thesis
    using refunded_none [of Q] by (auto simp: Let_def within_limit_def word_le_nat_alt)
qed

lemma mini_close_keeps: "close_keeps mini_quic mini_sent"
  by (simp add: close_keeps_def mini_quic_def mini_sent_def)

lemma mini_visits_once: "visits_once (mini_env hs)"
  by (simp add: visits_once_def mini_env_def)

text \<open>Five bytes are queued and the peer's limit is three: at most three leave.\<close>

theorem flush_respects_data_limit_witness:
  "length (mini_sent (conn (flush (mini_env []) mini_quic (session_start ((new_client [] [] None [] [])
      \<lparr>s_peer_settings := Some (PeerSettings_default\<lparr>wt_max_sessions := 1\<rparr>), s_fc_max_data_remote := 3,
       s_streams := [(4, push_chunk [1, 2, 3, 4, 5] (Some 1) (Stream_new (WtData True)))]\<rparr>) mini_idle))) 4) \<le> 3"
proof -
  let ?w = "(new_client [] [] None [] [])\<lparr>s_peer_settings := Some (PeerSettings_default\<lparr>wt_max_sessions := 1\<rparr>),
     s_fc_max_data_remote := 3, s_streams := [(4, push_chunk [1, 2, 3, 4, 5] (Some 1) (Stream_new (WtData True)))]\<rparr>"
  let ?s = "session_start ?w mini_idle"
  have s: "uses_session_flow_control (sess ?s)" "s_fc_data_sent (sess ?s) \<le> s_fc_max_data_remote (sess ?s)"
    "distinct (hm_keys (s_streams (sess ?s)))" "s_fc_data_sent (sess ?s) = 0" "s_fc_max_data_remote (sess ?s) = 3"
    by (simp_all add: session_start_def uses_session_flow_control_def PeerSettings_default_def new_client_def)
  have b: "before_sending mini_quic ?s = ?s"
    by (simp add: before_sending_def release_pending_opens_def flush_close_capsule_def flush_replenish_def
        flush_grant_def flush_terminal_error_def session_start_def new_client_def)
  have fin: "\<forall>c i. q_stream_send_final_size mini_quic c i = None" by (simp add: mini_quic_def)
  define f where "f = flush (mini_env []) mini_quic ?s"
  have limit: "unat (s_fc_data_sent (sess f)) + refunded mini_quic (e_order (mini_env []) (hm_keys (s_streams (sess ?s)))) (?s, 0)
      = unat (s_fc_data_sent (sess ?s)) + (\<Sum>i\<in>set (hm_keys (s_streams (sess ?s))). payload_taken mini_sent ?s (conn f) i)"
    "s_fc_data_sent (sess f) \<le> s_fc_max_data_remote (sess f)"
    "s_fc_max_data_remote (sess f) = s_fc_max_data_remote (sess ?s)"
    "refunded mini_quic (e_order (mini_env []) (hm_keys (s_streams (sess ?s)))) (?s, 0) = 0"
    using flush_respects_data_limit [OF mini_send_laws mini_close_keeps mini_visits_once s(1-3), unfolded b Let_def, of "[]"] fin
    unfolding f_def by blast+
  have "payload_taken mini_sent ?s (conn f) 4 = min (length (mini_sent (conn f) 4)) 5"
    by (simp add: payload_taken_def get_stream_def session_start_def push_chunk_def Stream_new_def chunk_rest_def
        mini_idle_def mini_sent_def)
  moreover have "hm_keys (s_streams (sess ?s)) = [4]" by (simp add: session_start_def)
  ultimately have "min (length (mini_sent (conn f) 4)) 5 = unat (s_fc_data_sent (sess f))"
    using limit(1,4) s(4) by simp
  moreover have "unat (s_fc_data_sent (sess f)) \<le> 3"
    using limit(2,3) s(5) by (simp add: word_le_nat_alt)
  ultimately show ?thesis unfolding f_def by simp
qed

text \<open>
  Claim C26. Stream opens obey the peer's stream limits exactly: with session flow control in
  force, of the requests waiting for a direction as many are opened as the limit leaves room for,
  no more and no fewer, the oldest first, and the others stay queued in their order.
\<close>

theorem opens_exactly_within_limit:
  assumes "s_ready (sess s)" and "\<not> closed s" and "uses_session_flow_control (sess s)"
    and "opened_at b (sess s) k" and "k \<le> 2 ^ 60" and "unat (stream_limit b (sess s)) \<le> 2 ^ 60"
  shows "let reqs = filter (\<lambda>p. fst p = b) (s_pending_opens (sess s));
             n = min (length reqs) (unat (stream_limit b (sess s)) - k)
    in opened_at b (sess (release_pending_opens s)) (k + n)
       \<and> filter (\<lambda>p. fst p = b) (s_pending_opens (sess (release_pending_opens s))) = drop n reqs"
proof -
  let ?s = "upd (\<lambda>w. w\<lparr>s_pending_opens := []\<rparr>) s"
  have "uses_session_flow_control (sess ?s)" "opened_at b (sess ?s) k" "unat (stream_limit b (sess ?s)) \<le> 2 ^ 60"
    "stream_limit b (sess ?s) = stream_limit b (sess s)" "s_pending_opens (sess ?s) = []"
    using assms(3,4,6) by (simp_all add: defer_views opened_at_def)
  with release_opens_spec [of ?s b k "s_pending_opens (sess s)"] assms(1,2,5) show ?thesis
    by (simp add: release_pending_opens_def Let_def)
qed

theorem opens_exactly_within_limit_witness:
  "s_pending_opens (sess (release_pending_opens (session_start ((new_client [] [] None [] [])
      \<lparr>s_ready := True, s_peer_settings := Some (PeerSettings_default\<lparr>wt_max_sessions := 1\<rparr>),
       s_fc_max_streams_bidi_remote := 2, s_pending_opens := [(True, 5), (True, 6), (True, 7)]\<rparr>) mini_idle)))
   = [(True, 7)]"
proof -
  let ?s = "session_start ((new_client [] [] None [] [])
      \<lparr>s_ready := True, s_peer_settings := Some (PeerSettings_default\<lparr>wt_max_sessions := 1\<rparr>),
       s_fc_max_streams_bidi_remote := 2, s_pending_opens := [(True, 5), (True, 6), (True, 7)]\<rparr>) mini_idle"
  have all: "filter (\<lambda>p. fst p = True) (s_pending_opens (sess (release_pending_opens ?s))) = [(True, 7)]"
    using opens_exactly_within_limit [of ?s True 0]
    by (simp add: Let_def session_start_def new_client_def uses_session_flow_control_def PeerSettings_default_def
        opened_at_def next_id_def first_wt_id_def stream_limit_def)
  have "filter (\<lambda>p. fst p = False) (s_pending_opens (sess (release_pending_opens ?s))) = []"
    using opens_exactly_within_limit [of ?s False 0]
    by (simp add: Let_def session_start_def new_client_def uses_session_flow_control_def PeerSettings_default_def
        opened_at_def next_id_def first_wt_id_def stream_limit_def)
  then have "filter (\<lambda>p. fst p) (s_pending_opens (sess (release_pending_opens ?s)))
      = s_pending_opens (sess (release_pending_opens ?s))"
    by (intro filter_True) (auto simp: filter_empty_conv)
  with all show ?thesis by simp
qed

text \<open>
  A blocked signal is sent once per limit: signalling a second time, with nothing
  changed in between, queues no further capsule and changes nothing.
\<close>

theorem blocked_signal_idempotent:
  "signal_flow_control_blocked (signal_flow_control_blocked s) = signal_flow_control_blocked s"
proof (cases "uses_session_flow_control (sess s) \<and> \<not> closed s")
  case True
  then show ?thesis using signal_idle [OF signal_done] by blast
qed (auto simp: signal_flow_control_blocked_def)

text \<open>
  Claim C29. Flow-control credit only grows: a credit capsule either raises the limit it names to
  the value it carries, strictly, leaving the other limits alone, or ends the session with the
  flow-control error; a truncated value, trailing bytes or a stream count above \<open>2^60\<close> do the latter.
\<close>

theorem credit_strictly_increases:
  assumes "ty = WT_MAX_DATA_CAPSULE \<or> ty = WT_MAX_STREAMS_BIDI_CAPSULE \<or> ty = WT_MAX_STREAMS_UNI_CAPSULE"
    and "\<not> closed s" and "apply_capsule ty val s = (go, s')"
  shows "(go \<and> (\<exists>v. read_varint val = Some (v, length val)
      \<and> (if ty = WT_MAX_DATA_CAPSULE
         then s_fc_max_data_remote (sess s) < v \<and> sess s' = (sess s)\<lparr>s_fc_max_data_remote := v\<rparr>
         else v \<le> push_bit 60 1 \<and>
          (if ty = WT_MAX_STREAMS_BIDI_CAPSULE
           then s_fc_max_streams_bidi_remote (sess s) < v \<and> sess s' = (sess s)\<lparr>s_fc_max_streams_bidi_remote := v\<rparr>
           else s_fc_max_streams_uni_remote (sess s) < v \<and> sess s' = (sess s)\<lparr>s_fc_max_streams_uni_remote := v\<rparr>))))
    \<or> (\<not> go \<and> closed s' \<and> (\<exists>msg. s_terminal_error (sess s') = Some (0x045d4487, msg)))"
proof -
  have err: "closed (flow_error m s) \<and> s_terminal_error (sess (flow_error m s)) = Some (0x045d4487, as_bytes m)" for m
    using assms(2) by (simp add: flow_error_def Let_def mark_closed_def push_ev_def upd_def split: prod.split)
  have ty: "is_fc_capsule ty" "ty \<noteq> WT_CLOSE_SESSION_CAPSULE" "ty \<noteq> WT_DRAIN_SESSION_CAPSULE"
    using assms(1) by (auto simp: is_fc_capsule_def wt_consts)
  have distinct: "WT_MAX_STREAMS_BIDI_CAPSULE \<noteq> WT_MAX_DATA_CAPSULE" "WT_MAX_STREAMS_UNI_CAPSULE \<noteq> WT_MAX_DATA_CAPSULE"
    "WT_MAX_STREAMS_UNI_CAPSULE \<noteq> WT_MAX_STREAMS_BIDI_CAPSULE" "WT_MAX_STREAMS_BIDI_CAPSULE \<noteq> WT_DATA_BLOCKED_CAPSULE"
    "WT_MAX_STREAMS_UNI_CAPSULE \<noteq> WT_DATA_BLOCKED_CAPSULE"
    by (simp_all add: wt_consts)
  from assms(1,3) ty distinct err show ?thesis
    by (auto simp: apply_capsule_def apply_credit_def Let_def upd_def not_le not_less
        split: option.splits prod.splits if_splits)
qed

theorem credit_strictly_increases_witness:
  "s_fc_max_data_remote (sess (snd (apply_capsule WT_MAX_DATA_CAPSULE [0x41, 0]
     (session_start (new_client [] [] None [] []) mini_idle)))) = 0x100"
proof -
  let ?s = "session_start (new_client [] [] None [] []) mini_idle"
  obtain go s' where a: "apply_capsule WT_MAX_DATA_CAPSULE [0x41, 0] ?s = (go, s')" by fastforce
  have r: "read_varint [0x41, 0] = Some (0x100, 2)" by code_simp
  have "\<not> closed ?s" by (simp add: session_start_def new_client_def)
  moreover have "go"
    using a r by (auto simp: apply_capsule_def apply_credit_def Let_def session_start_def new_client_def is_fc_capsule_def
        wt_consts split: if_splits)
  ultimately show ?thesis using credit_strictly_increases [OF disjI1 [OF refl] _ a] a r by auto
qed

end
