(* ===== verification/Session_Wire.thy ===== *)
theory Session_Wire
  imports Session_Flow
begin

text \<open>
  What crosses the wire: the frame parser turns any chunking of a stream back into its frames, and
  the close capsule one side queues is the close the other side reports.
\<close>

section \<open>The frame parser against its specification\<close>

text \<open>The frames of a byte string, and the bytes of an incomplete frame at its end.\<close>

function frames_of :: "bytes \<Rightarrow> (u64 \<times> bytes) list \<times> bytes" where
  "frames_of buf =
     (case vi.split buf of
        None \<Rightarrow> ([], buf)
      | Some (ty, p, rest) \<Rightarrow> (case frames_of rest of (fs, r) \<Rightarrow> ((ty, p) # fs, r)))"
  by pat_completeness auto
termination
  by (relation "measure length") (auto dest: vi.split_shorter)

declare frames_of.simps [simp del]

text \<open>Taking every complete frame out of a parser, and feeding it the chunks of a stream.\<close>

function drain_frames ::
  "(nat \<Rightarrow> nat option) \<Rightarrow> parser_memory \<Rightarrow> frame_parser
    \<Rightarrow> (u64 \<times> bytes) list \<times> parser_memory \<times> frame_parser" where
  "drain_frames alloc m fp =
     (case next_frame alloc m fp of
        (None, m1, fp1) \<Rightarrow> ([], m1, fp1)
      | (Some (ty, p), m1, fp1) \<Rightarrow>
          (case drain_frames alloc (buffer_drop m1 p) fp1 of (fs, r) \<Rightarrow> ((ty, pb_data p) # fs, r)))"
  by pat_completeness auto
termination
  by (relation "measure (\<lambda>(_, _, fp). length (pb_data (fp_buf fp)))")
    (auto dest!: next_frame_shrinks [OF sym])

declare drain_frames.simps [simp del]

fun feed ::
  "(nat \<Rightarrow> nat option) \<Rightarrow> parser_memory \<Rightarrow> frame_parser \<Rightarrow> bytes list
    \<Rightarrow> (u64 \<times> bytes) list \<times> parser_memory \<times> frame_parser" where
  "feed alloc m fp [] = ([], m, fp)"
| "feed alloc m fp (c # cs) =
     (case push_bytes alloc m fp c of
        (m1, fp1) \<Rightarrow>
         (case drain_frames alloc m1 fp1 of
            (fs, m2, fp2) \<Rightarrow> (case feed alloc m2 fp2 cs of (fs', r) \<Rightarrow> (fs @ fs', r))))"

lemma extend_data: "extend_from_slice alloc m b bs = (True, m', b') \<Longrightarrow> pb_data b' = pb_data b @ bs"
  by (auto simp: extend_from_slice_def Let_def split: if_splits option.splits prod.splits bool.splits)

lemma copy_range_data: "copy_range alloc m b lo hi = (Some c, m') \<Longrightarrow> pb_data c = drop lo (take hi (pb_data b))"
  by (auto simp: copy_range_def dest!: extend_data split: prod.splits bool.splits)

lemma buffer_consume_data:
  "buffer_consume m b n = (m', b') \<Longrightarrow> n \<le> length (pb_data b) \<Longrightarrow> pb_data b' = drop n (pb_data b)"
  by (auto simp: buffer_consume_def buffer_clear_def split: if_splits)

lemma next_frame_Some:
  assumes "next_frame alloc m fp = (Some (ty, p), m', fp')"
  shows "vi.split (pb_data (fp_buf fp)) = Some (ty, pb_data p, pb_data (fp_buf fp')) \<and> fp_error fp' = fp_error fp
    \<and> length (pb_data p) \<le> MAX_CONTROL_FRAME"
proof -
  obtain n1 len n2 m1 b2 where
    r: "read_varint (pb_data (fp_buf fp)) = Some (ty, n1)" "read_varint (drop n1 (pb_data (fp_buf fp))) = Some (len, n2)"
    and le: "n1 + n2 + unat len \<le> length (pb_data (fp_buf fp))" and max: "len \<le> of_nat MAX_CONTROL_FRAME"
    and c: "copy_range alloc m (fp_buf fp) (n1 + n2) (n1 + n2 + unat len) = (Some p, m1)"
    and b: "buffer_consume m1 (fp_buf fp) (n1 + n2 + unat len) = (m', b2)" and fp': "fp' = fp\<lparr>fp_buf := b2\<rparr>"
    using assms by (auto simp: next_frame_def Let_def not_less split: if_splits option.splits prod.splits)
  have "take (unat len) (drop (n1 + n2) xs) = drop (n1 + n2) (take (n1 + n2 + unat len) xs)" for xs :: bytes
    by (simp add: drop_take)
  moreover have "unat len \<le> MAX_CONTROL_FRAME" using max by (simp add: word_le_nat_alt MAX_CONTROL_FRAME_def)
  ultimately show ?thesis
    using r le fp' copy_range_data [OF c] buffer_consume_data [OF b le]
    by (simp add: vi.split_def)
qed

lemma next_frame_None:
  "next_frame alloc m fp = (None, m', fp') \<Longrightarrow> \<not> fp_error fp' \<Longrightarrow>
   vi.split (pb_data (fp_buf fp)) = None \<and> fp' = fp \<and> \<not> fp_error fp"
  by (auto simp: next_frame_def vi.split_def Let_def split: if_splits option.splits prod.splits)

lemma drain_frames_error: "drain_frames alloc m fp = (fs, m', fp') \<Longrightarrow> fp_error fp \<Longrightarrow> fp_error fp'"
  by (subst (asm) drain_frames.simps) (auto simp: next_frame_def)

lemma drain_frames_spec:
  "drain_frames alloc m fp = (fs, m', fp') \<Longrightarrow> \<not> fp_error fp' \<Longrightarrow>
   frames_of (pb_data (fp_buf fp)) = (fs, pb_data (fp_buf fp')) \<and> \<not> fp_error fp"
proof (induction alloc m fp arbitrary: fs m' fp' rule: drain_frames.induct)
  case (1 alloc m fp)
  obtain r m1 fp1 where n: "next_frame alloc m fp = (r, m1, fp1)" by (metis prod_cases3)
  show ?case
  proof (cases r)
    case None
    with n "1.prems" have "fs = []" "fp' = fp1" by (auto simp: drain_frames.simps [of alloc m fp])
    with next_frame_None [of alloc m fp m1 fp1] n None "1.prems"(2) show ?thesis
      by (simp add: frames_of.simps [of "pb_data (fp_buf fp)"])
  next
    case (Some tp)
    obtain ty p where tp: "tp = (ty, p)" by (cases tp)
    obtain fs1 where d: "drain_frames alloc (buffer_drop m1 p) fp1 = (fs1, m', fp')" and fs: "fs = (ty, pb_data p) # fs1"
      using "1.prems"(1) n Some tp by (auto simp: drain_frames.simps [of alloc m fp] split: prod.splits)
    have nf: "next_frame alloc m fp = (Some (ty, p), m1, fp1)" using n Some tp by simp
    have "frames_of (pb_data (fp_buf fp1)) = (fs1, pb_data (fp_buf fp')) \<and> \<not> fp_error fp1"
      by (rule "1.IH" [OF n [symmetric] Some tp [symmetric] refl d "1.prems"(2)])
    with next_frame_Some [OF nf] fs show ?thesis
      by (simp add: frames_of.simps [of "pb_data (fp_buf fp)"])
  qed
qed

lemma push_bytes_spec:
  "push_bytes alloc m fp c = (m', fp') \<Longrightarrow> \<not> fp_error fp' \<Longrightarrow>
   \<not> fp_error fp \<and> pb_data (fp_buf fp') = pb_data (fp_buf fp) @ c"
  by (auto simp: push_bytes_def dest: extend_data split: if_splits prod.splits bool.splits)

lemma push_bytes_error: "push_bytes alloc m fp c = (m', fp') \<Longrightarrow> fp_error fp \<Longrightarrow> fp_error fp'"
  by (simp add: push_bytes_def)

lemma feed_error: "feed alloc m fp cs = (fs, m', fp') \<Longrightarrow> fp_error fp \<Longrightarrow> fp_error fp'"
  by (induction alloc m fp cs arbitrary: fs rule: feed.induct)
    (auto split: prod.splits dest: push_bytes_error drain_frames_error)

lemma frames_of_append:
  "frames_of a = (fs, r) \<Longrightarrow> frames_of (a @ b) = (case frames_of (r @ b) of (fs', r') \<Rightarrow> (fs @ fs', r'))"
proof (induction a arbitrary: fs r rule: frames_of.induct)
  case (1 a)
  show ?case
  proof (cases "vi.split a")
    case None
    with "1.prems" have "fs = []" "r = a" by (simp_all add: frames_of.simps [of a])
    then show ?thesis by (simp split: prod.split)
  next
    case (Some tpr)
    obtain ty p rest where s: "vi.split a = Some (ty, p, rest)" using Some by (cases tpr) auto
    obtain fs1 where f: "frames_of rest = (fs1, r)" and fs: "fs = (ty, p) # fs1"
      using "1.prems" s by (auto simp: frames_of.simps [of a] split: prod.splits)
    have "frames_of (rest @ b) = (case frames_of (r @ b) of (fs', r') \<Rightarrow> (fs1 @ fs', r'))"
      using "1.IH" [OF s refl refl f] .
    with vi.split_append [OF s, of b] fs show ?thesis
      by (simp add: frames_of.simps [of "a @ b"] split: prod.splits)
  qed
qed

lemma feed_spec:
  "feed alloc m fp cs = (fs, m', fp') \<Longrightarrow> \<not> fp_error fp' \<Longrightarrow>
   frames_of (pb_data (fp_buf fp)) = ([], pb_data (fp_buf fp)) \<Longrightarrow>
   frames_of (pb_data (fp_buf fp) @ concat cs) = (fs, pb_data (fp_buf fp'))"
proof (induction alloc m fp cs arbitrary: fs rule: feed.induct)
  case (1 alloc m fp)
  then show ?case by auto
next
  case (2 alloc m fp c cs)
  obtain m1 fp1 where p: "push_bytes alloc m fp c = (m1, fp1)" by fastforce
  obtain fs1 m2 fp2 where d: "drain_frames alloc m1 fp1 = (fs1, m2, fp2)" by (metis prod_cases3)
  obtain fs2 where f: "feed alloc m2 fp2 cs = (fs2, m', fp')" and fs: "fs = fs1 @ fs2"
    using "2.prems"(1) p d by (auto split: prod.splits)
  have e2: "\<not> fp_error fp2" using feed_error [OF f] "2.prems"(2) by blast
  note ds = drain_frames_spec [OF d e2]
  have pd: "pb_data (fp_buf fp1) = pb_data (fp_buf fp) @ c" using push_bytes_spec [OF p] ds by blast
  have idle: "frames_of r = ([], r)" if "frames_of a = (gs, r)" for a gs r
    using that
  proof (induction a arbitrary: gs rule: frames_of.induct)
    case (1 a)
    then show ?case
      by (cases "vi.split a") (auto simp: frames_of.simps [of a] frames_of.simps [of r] split: prod.splits)
  qed
  have i2: "frames_of (pb_data (fp_buf fp2)) = ([], pb_data (fp_buf fp2))" using idle ds by blast
  with "2.IH" [OF p [symmetric] d [symmetric] refl f "2.prems"(2)]
  have rest: "frames_of (pb_data (fp_buf fp2) @ concat cs) = (fs2, pb_data (fp_buf fp'))" by simp
  have "frames_of (pb_data (fp_buf fp) @ concat (c # cs)) = (fs, pb_data (fp_buf fp'))"
    using frames_of_append [of "pb_data (fp_buf fp1)" fs1 "pb_data (fp_buf fp2)" "concat cs"] ds rest fs
    by (simp add: pd)
  then show ?case .
qed

lemma frames_of_frames:
  "list_all (\<lambda>(ty, p). ty < 2 ^ 62 \<and> length p < 2 ^ 62) fs \<Longrightarrow>
   frames_of (concat (map (\<lambda>(ty, p). frame ty p) fs)) = (fs, [])"
proof (induction fs)
  case Nil
  have "vi.split [] = None" by (simp add: vi.split_def)
  then show ?case by (simp add: frames_of.simps)
next
  case (Cons f fs)
  obtain ty p where f: "f = (ty, p)" by (cases f)
  have "unat (of_nat (length p) :: u64) = length p"
    using Cons.prems f by (simp add: unat_of_nat take_bit_nat_eq_self)
  then have "(of_nat (length p) :: u64) < 2 ^ 62" using Cons.prems f by (simp add: word_less_nat_alt)
  then have "vi.split (frame ty p @ concat (map (\<lambda>(ty, p). frame ty p) fs))
      = Some (ty, p, concat (map (\<lambda>(ty, p). frame ty p) fs))"
    unfolding frame_tlv using Cons.prems f by (intro vi.split_tlv) auto
  with Cons f show ?case by (subst frames_of.simps) simp
qed

section \<open>Room in the budget\<close>

lemma pow2_from_le: "0 < p \<Longrightarrow> pow2_from p n \<le> max p (2 * n)"
  by (induction p n rule: pow2_from.induct) (auto simp: pow2_from.simps)

lemma next_pow2_le: "n \<le> 2 ^ 20 \<Longrightarrow> \<exists>c. checked_next_power_of_two n = Some c \<and> c \<le> max 1 (2 * n)"
  using pow2_from_le [of 1 n] by (auto simp: checked_next_power_of_two_def)

lemma pm_fits_mono: "pm_fits m a \<Longrightarrow> b \<le> a \<Longrightarrow> pm_fits m b"
  by (induction m a rule: pm_fits.induct) auto

lemma reserve_fits:
  "pm_ok m \<Longrightarrow> pm_fits m (n + k) \<Longrightarrow> \<exists>m'. reserve m n = (True, m') \<and> pm_ok m' \<and> pm_fits m' k"
proof -
  assume ok: "pm_ok m" and fits: "pm_fits m (n + k)"
  obtain b m' where r: "reserve m n = (b, m')" by fastforce
  have "fst (reserve m n)" using reserve_iff_fits [OF ok, of n] pm_fits_mono [OF fits] by simp
  with r have b by simp
  have "pm_fits m' k" using fits r \<open>b\<close>
  proof (induction m n arbitrary: m' rule: reserve.induct)
    case (2 limit used parent n)
    then show ?case by (auto split: if_splits prod.splits bool.splits)
  qed (auto split: if_splits)
  with r \<open>b\<close> reserve_taken [OF ok] show ?thesis by auto
qed

text \<open>
  A buffer with room for \<open>N\<close> bytes: the budget takes a reallocation to hold them and the copy of
  a payload beside it.
\<close>

definition roomy :: "nat \<Rightarrow> parser_memory \<Rightarrow> parser_buffer \<Rightarrow> bool" where
  "roomy N m b \<longleftrightarrow>
     pm_ok m \<and> pb_ok b \<and> pb_cap b \<le> pm_used m \<and> pb_cap b \<le> 2 * N + 1 \<and> N \<le> 2 ^ 20
     \<and> pm_fits m (4 * N + 2 - pb_cap b)"

lemma release_fits:
  "pm_ok m \<Longrightarrow> n \<le> pm_used m \<Longrightarrow> pm_fits m k \<Longrightarrow> pm_fits (release m n) (n + k)"
  by (induction m n rule: release.induct) auto

lemma extend_roomy:
  assumes "roomy N m b" and "length (pb_data b) + length bs \<le> N"
  shows "\<exists>m' b'. extend_from_slice Some m b bs = (True, m', b') \<and> roomy N m' b' \<and> pb_data b' = pb_data b @ bs"
proof (cases "pb_cap b < length (pb_data b) + length bs")
  case False
  with assms show ?thesis by (auto simp: extend_from_slice_def Let_def roomy_def pb_ok_def usize_max_def)
next
  case True
  let ?n = "length (pb_data b) + length bs"
  obtain c where c: "checked_next_power_of_two ?n = Some c" "c \<le> max 1 (2 * ?n)" "?n \<le> c"
    using next_pow2_le [of ?n] checked_next_power_of_two_ge [of ?n] assms by (auto simp: roomy_def)
  have k: "pm_fits m (c + (4 * N + 2 - pb_cap b - c))"
    using assms True c pm_fits_mono [of m "4 * N + 2 - pb_cap b"] by (auto simp: roomy_def)
  obtain m1 where r: "reserve m c = (True, m1)" "pm_ok m1" "pm_fits m1 (4 * N + 2 - pb_cap b - c)"
    using reserve_fits [OF _ k] assms by (auto simp: roomy_def)
  let ?b = "\<lparr>pb_data = pb_data b @ bs, pb_cap = c\<rparr>"
  have e: "extend_from_slice Some m b bs = (True, release m1 (pb_cap b), ?b)"
    using True c r assms by (simp add: extend_from_slice_def Let_def roomy_def usize_max_def)
  have u: "pb_cap b \<le> pm_used m1" using reserve_used [OF r(1)] assms by (simp add: roomy_def)
  have "pm_fits (release m1 (pb_cap b)) (4 * N + 2 - c)"
    using release_fits [OF r(2) u r(3)] pm_fits_mono True c assms by (fastforce simp: roomy_def)
  moreover have "pm_ok (release m1 (pb_cap b))" "pm_used (release m1 (pb_cap b)) + pb_cap b = pm_used m + c"
    using release_given [OF r(2) u] release_used [OF u] reserve_used [OF r(1)] u by auto
  ultimately have "roomy N (release m1 (pb_cap b)) ?b"
    using c True assms by (auto simp: roomy_def pb_ok_def)
  with e show ?thesis by simp
qed

lemma roomy_new: "roomy N m ParserBuffer_new \<longleftrightarrow> pm_ok m \<and> N \<le> 2 ^ 20 \<and> pm_fits m (4 * N + 2)"
  by (auto simp: roomy_def ParserBuffer_new_def pb_ok_def)

text \<open>Taking one frame out: the copy fits, and once it is dropped the buffer is roomy again.\<close>

lemma copy_roomy:
  assumes "roomy N m b" and "length (pb_data b) \<le> N" and "hi \<le> length (pb_data b)"
  shows "\<exists>v m1. copy_range Some m b lo hi = (Some v, m1) \<and> release m1 (pb_cap v) = m \<and> pm_ok m1
    \<and> pm_used m1 = pm_used m + pb_cap v \<and> pb_data v = drop lo (take hi (pb_data b))"
proof -
  let ?d = "drop lo (take hi (pb_data b))"
  have l: "length ?d \<le> N" using assms(2,3) by simp
  show ?thesis
  proof (cases "?d = []")
    case True
    have "extend_from_slice Some m ParserBuffer_new [] = (True, m, ParserBuffer_new)"
      by (simp add: extend_from_slice_def ParserBuffer_new_def)
    with True assms(1) show ?thesis by (simp add: copy_range_def roomy_def ParserBuffer_new_def)
  next
    case False
    obtain c where c: "checked_next_power_of_two (length ?d) = Some c" "c \<le> max 1 (2 * length ?d)"
      using next_pow2_le [of "length ?d"] l assms(1) by (auto simp: roomy_def)
    have "c \<le> 2 * N + 1" using c(2) l by (cases "length ?d") auto
    then have "pm_fits m (c + 0)"
      using assms(1) pm_fits_mono [of m "4 * N + 2 - pb_cap b"] by (auto simp: roomy_def)
    then obtain m1 where r: "reserve m c = (True, m1)" "pm_ok m1"
      using reserve_fits [of m c 0] assms(1) by (auto simp: roomy_def)
    have ne: "0 < length ?d" "\<not> usize_max < length ?d" using False l assms(1) by (auto simp: roomy_def usize_max_def)
    have "extend_from_slice Some m ParserBuffer_new ?d = (True, m1, \<lparr>pb_data = ?d, pb_cap = c\<rparr>)"
      unfolding extend_from_slice_def Let_def using ne c(1) r(1) by (simp add: ParserBuffer_new_def del: length_drop length_take)
    with r release_reserve [OF r(1)] reserve_used [OF r(1)] show ?thesis by (simp add: copy_range_def)
  qed
qed

lemma release_release:
  "pm_ok m \<Longrightarrow> a + b \<le> pm_used m \<Longrightarrow> release (release m a) b = release m (a + b)"
  by (induction m a rule: release.induct) auto

lemma consume_roomy:
  assumes "roomy N m b" and "release m1 c = m" and "pm_ok m1" and "pm_used m1 = pm_used m + c"
    and "buffer_consume m1 b n = (m2, b2)"
  shows "roomy N (release m2 c) b2"
proof (cases "n = length (pb_data b)")
  case True
  have le: "pb_cap b \<le> pm_used m" using assms(1) by (simp add: roomy_def)
  have "release m2 c = release m (pb_cap b)" "b2 = ParserBuffer_new"
    using True assms(2-5) release_release [of m1 c "pb_cap b"] release_release [of m1 "pb_cap b" c] le
    by (auto simp: buffer_consume_def buffer_clear_def add.commute)
  moreover have "pm_fits (release m (pb_cap b)) (pb_cap b + (4 * N + 2 - pb_cap b))"
    by (rule release_fits) (use assms(1) in \<open>auto simp: roomy_def\<close>)
  ultimately show ?thesis
    using assms(1) release_given [of m "pb_cap b"] by (auto simp: roomy_def pb_ok_def ParserBuffer_new_def)
next
  case False
  with assms show ?thesis by (auto simp: buffer_consume_def roomy_def pb_ok_def)
qed

lemma next_frame_roomy:
  assumes "roomy N m (fp_buf fp)" and "length (pb_data (fp_buf fp)) \<le> N" and "\<not> fp_error fp"
    and hdr: "\<And>ty n1 len n2. read_varint (pb_data (fp_buf fp)) = Some (ty, n1) \<Longrightarrow>
      read_varint (drop n1 (pb_data (fp_buf fp))) = Some (len, n2) \<Longrightarrow> len \<le> of_nat MAX_CONTROL_FRAME"
    and "next_frame Some m fp = (r, m', fp')"
  shows "\<not> fp_error fp' \<and> (case r of None \<Rightarrow> m' = m \<and> fp' = fp | Some (ty, p) \<Rightarrow> roomy N (buffer_drop m' p) (fp_buf fp'))"
proof (cases "next_frame Some m fp = (None, m, fp)")
  case True
  with assms(3,5) show ?thesis by simp
next
  case False
  then obtain ty n1 len n2 where
    rd: "read_varint (pb_data (fp_buf fp)) = Some (ty, n1)" "read_varint (drop n1 (pb_data (fp_buf fp))) = Some (len, n2)"
    using assms(3) by (auto simp: next_frame_def split: option.splits)
  have len: "\<not> of_nat MAX_CONTROL_FRAME < len" using hdr [OF rd] by simp
  have le: "n1 + n2 + unat len \<le> length (pb_data (fp_buf fp))"
    using False rd len assms(3) by (auto simp: next_frame_def Let_def split: if_splits)
  obtain v m1 where c: "copy_range Some m (fp_buf fp) (n1 + n2) (n1 + n2 + unat len) = (Some v, m1)"
    and rel: "release m1 (pb_cap v) = m" "pm_ok m1" "pm_used m1 = pm_used m + pb_cap v"
    using copy_roomy [OF assms(1,2) le] by blast
  obtain m2 b2 where b: "buffer_consume m1 (fp_buf fp) (n1 + n2 + unat len) = (m2, b2)" by fastforce
  have "r = Some (ty, v)" "m' = m2" "fp' = fp\<lparr>fp_buf := b2\<rparr>"
    using assms(3,5) rd len le c b by (auto simp: next_frame_def Let_def)
  with consume_roomy [OF assms(1) rel b] assms(3) show ?thesis by simp
qed

section \<open>Reassembly\<close>

abbreviation frames_bytes :: "(u64 \<times> bytes) list \<Rightarrow> bytes" where
  "frames_bytes fs \<equiv> concat (map (\<lambda>(ty, p). frame ty p) fs)"

definition small_frames :: "(u64 \<times> bytes) list \<Rightarrow> bool" where
  "small_frames fs \<longleftrightarrow> list_all (\<lambda>(ty, p). ty < 2 ^ 62 \<and> length p \<le> MAX_CONTROL_FRAME) fs"

lemma split_frames_bytes:
  assumes "small_frames ((ty, p) # fs)"
  shows "vi.split (frames_bytes ((ty, p) # fs)) = Some (ty, p, frames_bytes fs)"
proof -
  have "unat (of_nat (length p) :: u64) = length p"
    using assms by (simp add: unat_of_nat take_bit_nat_eq_self small_frames_def MAX_CONTROL_FRAME_def)
  then have "(of_nat (length p) :: u64) < 2 ^ 62"
    using assms by (simp add: word_less_nat_alt small_frames_def MAX_CONTROL_FRAME_def)
  then show ?thesis
    unfolding list.map concat.simps prod.case frame_tlv using assms
    by (intro vi.split_tlv) (auto simp: small_frames_def MAX_CONTROL_FRAME_def)
qed

lemma header_small:
  assumes "buf @ later = frames_bytes fs" and "small_frames fs"
    and "read_varint buf = Some (ty, n1)" and "read_varint (drop n1 buf) = Some (len, n2)"
  shows "len \<le> of_nat MAX_CONTROL_FRAME"
proof (cases fs)
  case Nil
  with assms(1,3) show ?thesis by simp
next
  case (Cons f fs')
  obtain ty0 p where f: "f = (ty0, p)" by (cases f)
  have small: "ty0 < 2 ^ 62" "length p \<le> MAX_CONTROL_FRAME" using assms(2) Cons f by (simp_all add: small_frames_def)
  have len: "(of_nat (length p) :: u64) < 2 ^ 62" "(of_nat (length p) :: u64) \<le> of_nat MAX_CONTROL_FRAME"
    using small(2) by (simp_all add: word_less_nat_alt word_le_nat_alt unat_of_nat take_bit_nat_eq_self MAX_CONTROL_FRAME_def)
  have all: "buf @ later = put_varint ty0 [] @ put_varint (of_nat (length p)) [] @ p @ frames_bytes fs'"
    using assms(1) Cons f by (simp add: frame_tlv vi.tlv_def)
  have "read_varint (buf @ later) = Some (ty0, varint_len ty0)" unfolding all using small(1) by simp
  then have n1: "n1 = varint_len ty0" using read_varint_append [OF assms(3), of later] by simp
  have "drop n1 (buf @ later) = put_varint (of_nat (length p)) [] @ p @ frames_bytes fs'" unfolding all n1 by simp
  then have "read_varint (drop n1 buf @ later) = Some (of_nat (length p), varint_len (of_nat (length p)))"
    using read_varint_len(2) [OF assms(3)] len(1) by simp
  with read_varint_append [OF assms(4), of later] len(2) show ?thesis by simp
qed

lemma drain_frames_roomy:
  "drain_frames alloc m fp = (gs, m', fp') \<Longrightarrow> alloc = Some \<Longrightarrow> roomy N m (fp_buf fp) \<Longrightarrow>
   length (pb_data (fp_buf fp)) \<le> N \<Longrightarrow> \<not> fp_error fp \<Longrightarrow> pb_data (fp_buf fp) @ later = frames_bytes fs \<Longrightarrow>
   small_frames fs \<Longrightarrow>
   roomy N m' (fp_buf fp') \<and> \<not> fp_error fp' \<and> length (pb_data (fp_buf fp')) \<le> length (pb_data (fp_buf fp))
   \<and> (\<exists>fs'. pb_data (fp_buf fp') @ later = frames_bytes fs' \<and> small_frames fs')"
proof (induction alloc m fp arbitrary: gs m' fp' fs rule: drain_frames.induct)
  case (1 alloc m fp)
  note room = "1.prems"(3) and len = "1.prems"(4) and err = "1.prems"(5) and all = "1.prems"(6) and small = "1.prems"(7)
  obtain r m1 fp1 where n: "next_frame Some m fp = (r, m1, fp1)" by (metis prod_cases3)
  note nr = next_frame_roomy [OF room len err header_small [OF all small] n]
  show ?case
  proof (cases r)
    case None
    then have "m' = m" "fp' = fp" using "1.prems"(1,2) n nr by (auto simp: drain_frames.simps [of _ m fp])
    with room err all small show ?thesis by blast
  next
    case (Some tp)
    obtain ty p where tp: "tp = (ty, p)" by (cases tp)
    have nf: "next_frame Some m fp = (Some (ty, p), m1, fp1)" using n Some tp by simp
    note ns = next_frame_Some [OF nf]
    have sp: "vi.split (frames_bytes fs) = Some (ty, pb_data p, pb_data (fp_buf fp1) @ later)"
      using vi.split_append [OF conjunct1 [OF ns], of later] all by simp
    then obtain fs1 where fs: "pb_data (fp_buf fp1) @ later = frames_bytes fs1" "small_frames fs1"
    proof (cases fs)
      case Nil
      with sp show ?thesis by (simp add: vi.split_def)
    next
      case (Cons f fs2)
      obtain ty0 p0 where f: "f = (ty0, p0)" by (cases f)
      with Cons small sp split_frames_bytes [of ty0 p0 fs2]
      show ?thesis by (intro that [of fs2]) (auto simp: small_frames_def)
    qed
    obtain gs1 where d: "drain_frames alloc (buffer_drop m1 p) fp1 = (gs1, m', fp')"
      using "1.prems"(1,2) nf by (auto simp: drain_frames.simps [of _ m fp] split: prod.splits)
    have lt: "length (pb_data (fp_buf fp1)) < length (pb_data (fp_buf fp))"
      using vi.split_shorter [OF conjunct1 [OF ns]] .
    have "roomy N (buffer_drop m1 p) (fp_buf fp1)" "\<not> fp_error fp1" using nr Some tp by auto
    with "1.IH" [OF n [symmetric, folded "1.prems"(2)] Some tp [symmetric] refl d "1.prems"(2) _ _ _ fs] lt len
    show ?thesis by (metis (no_types, lifting) le_trans less_imp_le)
  qed
qed

lemma feed_roomy:
  "feed alloc m fp cs = (gs, m', fp') \<Longrightarrow> alloc = Some \<Longrightarrow> roomy N m (fp_buf fp) \<Longrightarrow>
   length (pb_data (fp_buf fp)) + length (concat cs) \<le> N \<Longrightarrow> \<not> fp_error fp \<Longrightarrow>
   pb_data (fp_buf fp) @ concat cs = frames_bytes fs \<Longrightarrow> small_frames fs \<Longrightarrow> \<not> fp_error fp'"
proof (induction alloc m fp cs arbitrary: gs fs rule: feed.induct)
  case (1 alloc m fp)
  then show ?case by simp
next
  case (2 alloc m fp c cs)
  obtain b1 m1 where x: "extend_from_slice Some m (fp_buf fp) c = (True, m1, b1)" "roomy N m1 b1"
      "pb_data b1 = pb_data (fp_buf fp) @ c"
    using extend_roomy [OF "2.prems"(3), of c] "2.prems"(4) by auto
  let ?fp1 = "fp\<lparr>fp_buf := b1\<rparr>"
  have p: "push_bytes alloc m fp c = (m1, ?fp1)" using x(1) "2.prems"(2,5) by (simp add: push_bytes_def)
  obtain gs1 m2 fp2 where d: "drain_frames alloc m1 ?fp1 = (gs1, m2, fp2)" by (metis prod_cases3)
  obtain gs2 where f: "feed alloc m2 fp2 cs = (gs2, m', fp')"
    using "2.prems"(1) p d by (auto split: prod.splits)
  have all: "pb_data (fp_buf ?fp1) @ concat cs = frames_bytes fs" using "2.prems"(6) x(3) by simp
  obtain fs' where dr: "roomy N m2 (fp_buf fp2)" "\<not> fp_error fp2"
      "length (pb_data (fp_buf fp2)) \<le> length (pb_data (fp_buf fp)) + length c"
      "pb_data (fp_buf fp2) @ concat cs = frames_bytes fs'" "small_frames fs'"
    using drain_frames_roomy [OF d "2.prems"(2) _ _ _ all "2.prems"(7), of N] x(2,3) "2.prems"(4,5) by auto
  show ?case
    by (rule "2.IH" [OF p [symmetric] d [symmetric] refl f "2.prems"(2) dr(1) _ dr(2,4,5)])
      (use dr(3) "2.prems"(4) in simp)
qed

text \<open>
  Claim C24. Reassembly does not depend on how the stream was cut: whatever chunks the bytes of a
  sequence of frames arrive in (each payload within \<^verbatim>\<open>MAX_CONTROL_FRAME\<close>), the frame parser hands out
  exactly these frames, in order, ends with an empty buffer and latches no error, given room in the
  budget for the bytes received.
\<close>

theorem frame_parser_reassembles:
  assumes "concat chunks = frames_bytes fs" and "small_frames fs"
    and "pm_ok m" and "pm_fits m (4 * length (concat chunks) + 2)" and "length (concat chunks) \<le> 2 ^ 20"
  shows "\<exists>m' fp'. feed Some m FrameParser_new chunks = (fs, m', fp') \<and> \<not> fp_error fp' \<and> pb_data (fp_buf fp') = []"
proof -
  obtain gs m' fp' where f: "feed Some m FrameParser_new chunks = (gs, m', fp')" by (metis prod_cases3)
  have r: "roomy (length (concat chunks)) m (fp_buf FrameParser_new)"
    using assms(3-5) by (simp add: FrameParser_new_def roomy_new)
  have new: "pb_data (fp_buf FrameParser_new) = []" "\<not> fp_error FrameParser_new"
    by (simp_all add: FrameParser_new_def ParserBuffer_new_def)
  have e: "\<not> fp_error fp'"
    using feed_roomy [OF f refl r _ _ _ assms(2)] new assms(1) by simp
  have "frames_of [] = ([], [])" using frames_of_frames [of "[]"] by simp
  then have "frames_of (concat chunks) = (gs, pb_data (fp_buf fp'))"
    using feed_spec [OF f e] new(1) by simp
  moreover have "frames_of (concat chunks) = (fs, [])"
    unfolding assms(1) using assms(2)
    by (intro frames_of_frames) (auto simp: small_frames_def MAX_CONTROL_FRAME_def list_all_iff)
  ultimately show ?thesis using f e by simp
qed

theorem frame_parser_reassembles_witness:
  "\<exists>m' fp'. feed Some (ParserMemory_new 1000) FrameParser_new [[0], [2, 7], [8, 4, 1], [9, 13, 0]]
     = ([(0, [7, 8]), (4, [9]), (13, [])], m', fp') \<and> \<not> fp_error fp' \<and> pb_data (fp_buf fp') = []"
  by (rule frame_parser_reassembles)
    (simp_all add: frame_def put_varint_def small_frames_def MAX_CONTROL_FRAME_def ParserMemory_new_def usize_max_def)

section \<open>The close capsule\<close>

lemma capsule_step_whole:
  assumes "\<not> closed s" and "e_alloc E = Some"
    and "roomy N (memory s) (s_capsule_buf (sess s))" and "length (vi.tlv ty val) \<le> N" and "ty < 2 ^ 62" and "length val \<le> MAX_CONTROL_FRAME" and "pb_data (s_capsule_buf (sess s)) = vi.tlv ty val"
  shows "\<exists>v m2 b2. capsule_step E s = (case apply_capsule ty val (set_capsule_buf m2 b2 s) of
      (go, s') \<Rightarrow> (go, drop_buffer v s'))"
proof -
  let ?buf = "pb_data (s_capsule_buf (sess s))"
  let ?n1 = "varint_len ty" and ?n2 = "varint_len (of_nat (length val))"
  have len: "unat (of_nat (length val) :: u64) = length val" "(of_nat (length val) :: u64) < 2 ^ 62"
    "\<not> (of_nat (length val) :: u64) > of_nat MAX_CONTROL_FRAME"
    using assms(6) by (simp_all add: unat_of_nat take_bit_nat_eq_self word_less_nat_alt MAX_CONTROL_FRAME_def)
  have r1: "read_varint ?buf = Some (ty, ?n1)" using assms(5,7) by (simp add: vi.tlv_def)
  have dr: "drop ?n1 ?buf = put_varint (of_nat (length val)) [] @ val"
    using assms(7) by (simp add: vi.tlv_def)
  have r2: "read_varint (drop ?n1 ?buf) = Some (of_nat (length val), ?n2)" unfolding dr using len(2) by simp
  have tot: "length ?buf = ?n1 + ?n2 + length val" using assms(7) by (simp add: vi.tlv_def)
  obtain m1 v where c: "copy_range Some (memory s) (s_capsule_buf (sess s)) (?n1 + ?n2) (?n1 + ?n2 + length val) = (Some v, m1)"
    and v: "pb_data v = drop (?n1 + ?n2) ?buf"
    using copy_roomy [OF assms(3), of "?n1 + ?n2 + length val" "?n1 + ?n2"] assms(4,7) tot by auto
  have "drop (?n1 + ?n2) ?buf = drop ?n2 (drop ?n1 ?buf)" by (simp add: add.commute)
  then have "pb_data v = val" unfolding v dr by simp
  moreover obtain m2 b2 where
    "buffer_consume m1 (s_capsule_buf (sess s)) (?n1 + ?n2 + length val) = (m2, b2)" by fastforce
  ultimately have "capsule_step E s = (case apply_capsule ty val (set_capsule_buf m2 b2 s) of
      (go, s') \<Rightarrow> (go, drop_buffer v s'))"
    using r1 r2 len tot c assms(2) by (simp add: capsule_step_def Let_def)
  then show ?thesis by blast
qed

text \<open>The payload of the DATA frame that \<^verbatim>\<open>flush\<close> queues for a close request.\<close>

definition close_payload :: "u32 \<Rightarrow> bytes \<Rightarrow> bytes" where
  "close_payload code reason = vi.tlv WT_CLOSE_SESSION_CAPSULE (u32_to_be_bytes code @ reason)"

lemma close_capsule_frame: "close_capsule code reason = frame FRAME_DATA (close_payload code reason)"
  by (simp add: close_capsule_def close_payload_def vi.tlv_def Let_def
      put_varint_append [of "4 + of_nat (length reason)" "put_varint WT_CLOSE_SESSION_CAPSULE []"])

lemma u32_to_be_bytes_length [simp]: "length (u32_to_be_bytes c) = 4"
  by (simp add: u32_to_be_bytes_def)

lemma truncate_close_reason_short [simp]: "length r \<le> WT_MAX_CLOSE_REASON \<Longrightarrow> truncate_close_reason r = r"
  by (simp add: truncate_close_reason_def)

lemma apply_close_capsule:
  assumes "\<not> closed s" and "length reason \<le> WT_MAX_CLOSE_REASON"
  shows "apply_capsule WT_CLOSE_SESSION_CAPSULE (u32_to_be_bytes code @ reason) s = (True, mark_closed code reason True s)"
proof -
  let ?v = "u32_to_be_bytes code @ reason"
  have "u32_from_be_bytes (?v ! 0) (?v ! 1) (?v ! 2) (?v ! 3) = code"
    using u32_be_roundtrip [of code] by (simp add: u32_to_be_bytes_def)
  with assms show ?thesis by (simp add: apply_capsule_def Let_def)
qed

text \<open>
  Claim C25. A close crosses the wire intact: the capsule that \<^verbatim>\<open>flush\<close> queues for a close request is
  one DATA frame, and the session that receives its payload closes at once, reporting exactly the
  code and the reason of the request, as closed by the peer, and no other event.
\<close>

theorem close_capsule_delivered:
  assumes "length reason \<le> WT_MAX_CLOSE_REASON" and "\<not> closed s" and "e_alloc E = Some"
    and "s_capsule_buf (sess s) = ParserBuffer_new" and "pm_ok (memory s)" and "pm_fits (memory s) 4200"
  shows "vi.split (close_capsule code reason) = Some (FRAME_DATA, close_payload code reason, [])
    \<and> closed (scan_capsules E (close_payload code reason) s)
    \<and> evs (scan_capsules E (close_payload code reason) s) = evs s @ [EvClosed code reason True]"
proof -
  let ?v = "u32_to_be_bytes code @ reason" and ?p = "close_payload code reason"
  have v: "length ?v \<le> 1028" using assms(1) by (simp add: wt_consts)
  have vl: "varint_len x \<le> 8" for x by (simp add: varint_len_def)
  have pl: "length ?p \<le> 1044" using v vl [of WT_CLOSE_SESSION_CAPSULE] vl [of "of_nat (length ?v)"]
    by (simp add: close_payload_def vi.tlv_def)
  have "unat (of_nat (length ?p) :: u64) = length ?p"
    using pl by (simp add: unat_of_nat take_bit_nat_eq_self)
  then have "(of_nat (length ?p) :: u64) < 2 ^ 62" using pl by (simp add: word_less_nat_alt)
  then have wire: "vi.split (close_capsule code reason) = Some (FRAME_DATA, ?p, [])"
    unfolding close_capsule_frame frame_tlv using vi.split_tlv [of FRAME_DATA ?p "[]"] pl
    by (simp add: wt_consts)
  have "roomy 1044 (memory s) ParserBuffer_new"
    using assms(5) pm_fits_mono [OF assms(6)] by (simp add: roomy_new)
  then obtain m b where x: "extend_from_slice Some (memory s) ParserBuffer_new ?p = (True, m, b)" "roomy 1044 m b"
      "pb_data b = ?p"
    using extend_roomy [of 1044 "memory s" ParserBuffer_new ?p] pl by (auto simp: ParserBuffer_new_def)
  let ?s1 = "set_capsule_buf m b s"
  have s1: "\<not> closed ?s1" "memory ?s1 = m" "s_capsule_buf (sess ?s1) = b" "evs ?s1 = evs s"
    using assms(2) by (simp_all add: set_capsule_buf_def upd_def)
  obtain w m2 b2 where step: "capsule_step E ?s1 = (case apply_capsule WT_CLOSE_SESSION_CAPSULE ?v (set_capsule_buf m2 b2 ?s1) of
      (go, s') \<Rightarrow> (go, drop_buffer w s'))"
    using capsule_step_whole [OF s1(1) assms(3), of 1044 WT_CLOSE_SESSION_CAPSULE ?v] x s1 v pl
    by (auto simp: close_payload_def wt_consts MAX_CONTROL_FRAME_def)
  let ?s2 = "set_capsule_buf m2 b2 ?s1"
  have s2: "\<not> closed ?s2" "evs ?s2 = evs s" using assms(2) by (simp_all add: set_capsule_buf_def upd_def)
  have "scan_capsules E ?p s = capsule_loop E ?s1" using assms(2-4) x(1) by (simp add: scan_capsules_def)
  also have "\<dots> = capsule_loop E (drop_buffer w (mark_closed code reason True ?s2))"
    using s1(1) step apply_close_capsule [OF s2(1) assms(1)] by (subst capsule_loop.simps) simp
  also have "\<dots> = drop_buffer w (mark_closed code reason True ?s2)"
    using s2(1) by (subst capsule_loop.simps) (simp add: drop_buffer_def set_memory_def upd_def mark_closed_def push_ev_def split: prod.split)
  finally show ?thesis
    using wire s2 by (simp add: drop_buffer_def set_memory_def upd_def mark_closed_def push_ev_def split: prod.split)
qed

theorem close_capsule_delivered_witness:
  "closed (scan_capsules (mini_env []) (close_payload 7 [0x68, 0x69]) (session_start (new_client [] [] None [] []) mini_idle))"
  using close_capsule_delivered [of "[0x68, 0x69]" "session_start (new_client [] [] None [] []) mini_idle" "mini_env []" 7]
  by (simp add: wt_consts mini_env_def session_start_def new_client_def ParserMemory_new_def usize_max_def)

end
