(* ===== verification/Tls.thy ===== *)
theory Tls
  imports Rust_Std
begin

text \<open>
  \<^verbatim>\<open>crates/native/src/tls.rs\<close>: the TLS profile of the client and the check of a pinned certificate.
  A BoringSSL context under construction is the record of what has been set on it; whether a setter
  fails, and what BoringSSL reads from a certificate, are parameters (\<open>ssl_api\<close>, \<open>x509\<close>).
\<close>

section \<open>The context\<close>

datatype cert_verification = PkiDefault | Hashes "bytes list" | Insecure

datatype ssl_version = TLS1_2 | TLS1_3

text \<open>
  What decides on the peer's certificate: the default of a new context, BoringSSL's own check of the
  chain and the name, nothing, or the pinned hashes.
\<close>

datatype ctx_verify = VerifyUntouched | VerifyPeer | VerifyNone | VerifyPinned "bytes list"

record ssl_ctx =
  ctx_min_proto :: "ssl_version option"
  ctx_max_proto :: "ssl_version option"
  ctx_curves :: string
  ctx_sigalgs :: string
  ctx_grease :: bool
  ctx_permute :: bool
  ctx_verify :: ctx_verify
  ctx_roots :: "bytes list"
  ctx_ip :: "bytes option"

definition ssl_ctx_new :: ssl_ctx where
  "ssl_ctx_new =
     \<lparr>ctx_min_proto = None, ctx_max_proto = None, ctx_curves = [], ctx_sigalgs = [], ctx_grease = False,
      ctx_permute = False, ctx_verify = VerifyUntouched, ctx_roots = [], ctx_ip = None\<rparr>"

text \<open>The answers of BoringSSL: \<open>Some e\<close> is a failure with the message \<open>e\<close>.\<close>

record ssl_api =
  ssl_new :: "string option"
  ssl_set_min :: "ssl_version option \<Rightarrow> string option"
  ssl_set_max :: "ssl_version option \<Rightarrow> string option"
  ssl_set_curves :: "string \<Rightarrow> string option"
  ssl_set_sigalgs :: "string \<Rightarrow> string option"
  ssl_native_certs :: "bytes list"
  ssl_from_der :: "bytes \<Rightarrow> bool"
  ssl_add_cert :: "bytes list \<Rightarrow> bytes \<Rightarrow> bool"
  ssl_set_ip :: "bytes \<Rightarrow> bool"

definition CHROME_SIGALGS :: string where
  "CHROME_SIGALGS =
     ''ecdsa_secp256r1_sha256:rsa_pss_rsae_sha256:rsa_pkcs1_sha256:ecdsa_secp384r1_sha384:'' @
     ''rsa_pss_rsae_sha384:rsa_pkcs1_sha384:rsa_pss_rsae_sha512:rsa_pkcs1_sha512:rsa_pkcs1_sha1''"

text \<open>\<open>setter f e b\<close> is a call that either fails with the message \<open>e\<close> or makes the change \<open>f\<close>.\<close>

definition setter :: "string \<Rightarrow> ('b \<Rightarrow> 'b) \<Rightarrow> string option \<Rightarrow> 'b \<Rightarrow> string + 'b" where
  "setter what f err b = (case err of Some e \<Rightarrow> Inl (what @ '': '' @ e) | None \<Rightarrow> Inr (f b))"

definition build_client_tls :: "ssl_api \<Rightarrow> cert_verification \<Rightarrow> string + ssl_ctx" where
  "build_client_tls B verify =
     try_then (setter ''SslContextBuilder'' id (ssl_new B) ssl_ctx_new) (\<lambda>b.
     try_then (setter ''set_min_proto_version'' (ctx_min_proto_update (\<lambda>_. Some TLS1_3)) (ssl_set_min B (Some TLS1_3)) b) (\<lambda>b.
     try_then (setter ''set_max_proto_version'' (ctx_max_proto_update (\<lambda>_. Some TLS1_3)) (ssl_set_max B (Some TLS1_3)) b) (\<lambda>b.
     try_then (setter ''set_curves_list'' (ctx_curves_update (\<lambda>_. ''X25519:P-256:P-384'')) (ssl_set_curves B ''X25519:P-256:P-384'') b) (\<lambda>b.
     try_then (setter ''set_sigalgs_list'' (ctx_sigalgs_update (\<lambda>_. CHROME_SIGALGS)) (ssl_set_sigalgs B CHROME_SIGALGS) b) (\<lambda>b.
       let b = b\<lparr>ctx_grease := True\<rparr>;
           b = b\<lparr>ctx_permute := True\<rparr>
       in Inr (case verify of
                 PkiDefault \<Rightarrow> b
               | Insecure \<Rightarrow> b\<lparr>ctx_verify := VerifyNone\<rparr>
               | Hashes hs \<Rightarrow> b\<lparr>ctx_verify := VerifyPinned hs\<rparr>))))))"

section \<open>A pinned certificate\<close>

datatype ssl_alert = CERTIFICATE_UNKNOWN | BAD_CERTIFICATE | CERTIFICATE_EXPIRED

datatype time_ordering = TimeLess | TimeEqual | TimeGreater

datatype pkey_id = EC | OtherKey

datatype nid = X9_62_PRIME256V1 | OtherCurve

text \<open>
  What BoringSSL reads from a certificate: its digest, its times (compared, and subtracted into days
  and seconds), its key and the curve of the key. Each reading may fail.
\<close>

record ('x, 't) x509 =
  x_digest :: "'x \<Rightarrow> bytes option"
  x_now :: "'t option"
  x_not_before :: "'x \<Rightarrow> 't"
  x_not_after :: "'x \<Rightarrow> 't"
  x_compare :: "'t \<Rightarrow> 't \<Rightarrow> time_ordering option"
  x_diff :: "'t \<Rightarrow> 't \<Rightarrow> (32 word \<times> 32 word) option"
  x_public_key :: "'x \<Rightarrow> pkey_id option"
  x_ec_curve :: "'x \<Rightarrow> nid option option"

definition MAX_PINNED_VALIDITY_SECS :: int where [wt_consts]: "MAX_PINNED_VALIDITY_SECS = 14 * 24 * 60 * 60"

text \<open>The days and seconds are 32-bit; the sum is taken in 64 bits, where it cannot overflow.\<close>

definition span_secs :: "32 word \<times> 32 word \<Rightarrow> int" where
  "span_secs d = sint (scast (fst d) * 86400 + scast (snd d) :: 64 word)"

definition verify_pinned_cert_validity :: "('x, 't) x509 \<Rightarrow> 'x \<Rightarrow> unit option" where
  "verify_pinned_cert_validity X cert =
     (case x_now X of
        None \<Rightarrow> None
      | Some now \<Rightarrow>
         (let not_before = x_not_before X cert;
              not_after = x_not_after X cert
          in case x_compare X not_before now of
               None \<Rightarrow> None
             | Some o1 \<Rightarrow>
                if o1 = TimeGreater then None
                else
                  (case x_compare X not_after now of
                     None \<Rightarrow> None
                   | Some o2 \<Rightarrow>
                      if o2 = TimeLess then None
                      else
                        (case x_diff X not_before not_after of
                           None \<Rightarrow> None
                         | Some span \<Rightarrow>
                            if \<not> (0 \<le> span_secs span \<and> span_secs span \<le> MAX_PINNED_VALIDITY_SECS) then None
                            else Some ()))))"

definition is_ecdsa_p256 :: "('x, 't) x509 \<Rightarrow> 'x \<Rightarrow> bool" where
  "is_ecdsa_p256 X cert =
     (case x_public_key X cert of
        None \<Rightarrow> False
      | Some i \<Rightarrow>
         if i \<noteq> EC then False
         else (case x_ec_curve X cert of Some curve \<Rightarrow> curve = Some X9_62_PRIME256V1 | None \<Rightarrow> False))"

text \<open>The callback BoringSSL runs on the peer's certificate when hashes are pinned.\<close>

definition pinned_callback :: "('x, 't) x509 \<Rightarrow> bytes list \<Rightarrow> 'x option \<Rightarrow> ssl_alert + unit" where
  "pinned_callback X hs peer =
     (case peer of
        None \<Rightarrow> Inl CERTIFICATE_UNKNOWN
      | Some cert \<Rightarrow>
         (case x_digest X cert of
            None \<Rightarrow> Inl CERTIFICATE_UNKNOWN
          | Some digest \<Rightarrow>
              if \<not> list_ex (\<lambda>h. digest = h) hs then Inl BAD_CERTIFICATE
              else
                (case verify_pinned_cert_validity X cert of
                   None \<Rightarrow> Inl CERTIFICATE_EXPIRED
                 | Some _ \<Rightarrow> if \<not> is_ecdsa_p256 X cert then Inl BAD_CERTIFICATE else Inr ())))"

section \<open>What a pinned certificate has to be\<close>

text \<open>The sum of days and seconds is exact: 64 bits always suffice.\<close>

lemma sint_bounds32: "- (2 ^ 31) \<le> sint (w :: 32 word)" "sint (w :: 32 word) < 2 ^ 31"
  using sint_ge [of w] sint_lt [of w] by simp_all

lemma sint_word_of_int_self:
  assumes "- (2 ^ (LENGTH('a) - 1)) \<le> k" and "k < 2 ^ (LENGTH('a) - 1)"
  shows "sint (word_of_int k :: 'a::len word) = k"
  unfolding sint_sbintrunc' using assms by (rule signed_take_bit_int_eq_self)

lemma span_secs_exact: "span_secs (d, s) = sint d * 86400 + sint s"
proof -
  have eq: "(scast d * 86400 + scast s :: 64 word) = word_of_int (sint d * 86400 + sint s)"
    unfolding scast_eq wi_hom_add [symmetric] wi_hom_mult [symmetric] by simp
  have "- (2 ^ (LENGTH(64) - 1)) \<le> sint d * 86400 + sint s" "sint d * 86400 + sint s < 2 ^ (LENGTH(64) - 1)"
    using sint_bounds32 [of d] sint_bounds32 [of s] by simp_all
  then show ?thesis
    unfolding span_secs_def fst_conv snd_conv eq by (rule sint_word_of_int_self)
qed

text \<open>
  The documented behaviour of BoringSSL's times, for a reading \<open>secs\<close> of a time as a number of
  seconds: comparisons never fail and follow it, and a difference is split into whole days and the
  rest of the seconds, of the same sign.
\<close>

definition clock_laws :: "('x, 't) x509 \<Rightarrow> ('t \<Rightarrow> int) \<Rightarrow> bool" where
  "clock_laws X secs \<longleftrightarrow>
     (\<forall>a b. x_compare X a b =
        Some (if secs a < secs b then TimeLess else if secs a = secs b then TimeEqual else TimeGreater))
     \<and> (\<forall>a b d s. x_diff X a b = Some (d, s) \<longrightarrow> sint d * 86400 + sint s = secs b - secs a)
     \<and> (\<forall>a b. \<bar>secs b - secs a\<bar> < 2 ^ 31 * 86400 \<longrightarrow> x_diff X a b \<noteq> None)"

definition pinned_valid :: "int \<Rightarrow> int \<Rightarrow> int \<Rightarrow> bool" where
  "pinned_valid now nb na \<longleftrightarrow> nb \<le> now \<and> now \<le> na \<and> na - nb \<le> 14 * 24 * 60 * 60"

lemma verify_pinned_cert_validity_iff:
  assumes laws: "clock_laws X secs" and now: "x_now X = Some now"
  shows "verify_pinned_cert_validity X cert = Some ()
    \<longleftrightarrow> pinned_valid (secs now) (secs (x_not_before X cert)) (secs (x_not_after X cert))"
proof -
  let ?nb = "x_not_before X cert" and ?na = "x_not_after X cert"
  have cmp: "x_compare X a b =
      Some (if secs a < secs b then TimeLess else if secs a = secs b then TimeEqual else TimeGreater)" for a b
    using laws by (simp add: clock_laws_def)
  have diff: "span_secs p = secs ?na - secs ?nb" if "x_diff X ?nb ?na = Some p" for p
    using laws that span_secs_exact [of "fst p" "snd p"] by (cases p) (simp add: clock_laws_def)
  have some: "x_diff X ?nb ?na \<noteq> None" if "0 \<le> secs ?na - secs ?nb" "secs ?na - secs ?nb \<le> 14 * 24 * 60 * 60"
  proof -
    have "\<bar>secs ?na - secs ?nb\<bar> < 2 ^ 31 * 86400" using that by simp
    then show ?thesis using laws unfolding clock_laws_def by blast
  qed
  show ?thesis
    using diff some
    by (cases "x_diff X ?nb ?na")
      (auto simp: verify_pinned_cert_validity_def now cmp pinned_valid_def MAX_PINNED_VALIDITY_SECS_def Let_def)
qed

lemma is_ecdsa_p256_iff:
  "is_ecdsa_p256 X cert \<longleftrightarrow>
     x_public_key X cert = Some EC \<and> x_ec_curve X cert = Some (Some X9_62_PRIME256V1)"
  by (auto simp: is_ecdsa_p256_def split: option.splits)

lemma pinned_callback_iff:
  "pinned_callback X hs peer = Inr () \<longleftrightarrow>
     (\<exists>cert digest. peer = Some cert \<and> x_digest X cert = Some digest \<and> digest \<in> set hs
        \<and> verify_pinned_cert_validity X cert = Some () \<and> is_ecdsa_p256 X cert)"
  by (auto simp: pinned_callback_def list_ex_iff split: option.splits if_splits)

text \<open>
  Claim C19. With hashes pinned, the client accepts a server exactly when the server sent a certificate
  whose SHA-256 digest is one of the hashes, the present moment lies between its two dates (both
  included), the dates are at most two weeks apart, and its key is an ECDSA key on P-256. The
  arithmetic on the dates cannot overflow.
\<close>

theorem pinned_callback_exact:
  assumes "clock_laws X secs" and "x_now X = Some now"
  shows "pinned_callback X hs peer = Inr () \<longleftrightarrow>
    (\<exists>cert digest. peer = Some cert \<and> x_digest X cert = Some digest \<and> digest \<in> set hs
       \<and> secs (x_not_before X cert) \<le> secs now \<and> secs now \<le> secs (x_not_after X cert)
       \<and> secs (x_not_after X cert) - secs (x_not_before X cert) \<le> 14 * 24 * 60 * 60
       \<and> x_public_key X cert = Some EC \<and> x_ec_curve X cert = Some (Some X9_62_PRIME256V1))"
  unfolding pinned_callback_iff verify_pinned_cert_validity_iff [OF assms] is_ecdsa_p256_iff pinned_valid_def
  by blast

text \<open>A model of the readings: a certificate is its digest and its two dates, in seconds.\<close>

definition mini_x509 :: "(bytes \<times> int \<times> int, int) x509" where
  "mini_x509 =
     \<lparr>x_digest = (\<lambda>(d, _, _). Some d), x_now = Some 1000, x_not_before = (\<lambda>(_, nb, _). nb),
      x_not_after = (\<lambda>(_, _, na). na),
      x_compare = (\<lambda>a b. Some (if a < b then TimeLess else if a = b then TimeEqual else TimeGreater)),
      x_diff = (\<lambda>a b. let n = b - a; p = (word_of_int (n div 86400), word_of_int (n mod 86400)) in
         if sint (fst p) * 86400 + sint (snd p) = n then Some p else None),
      x_public_key = (\<lambda>_. Some EC), x_ec_curve = (\<lambda>_. Some (Some X9_62_PRIME256V1))\<rparr>"

lemma mini_clock_laws: "clock_laws mini_x509 (\<lambda>t. t)"
proof -
  have "sint (word_of_int (n div 86400) :: 32 word) * 86400 + sint (word_of_int (n mod 86400) :: 32 word) = n"
    if "\<bar>n\<bar> < 2 ^ 31 * 86400" for n :: int
  proof -
    have "- (2 ^ 31) \<le> n div 86400" "n div 86400 < 2 ^ 31" "0 \<le> n mod 86400" "n mod 86400 < 86400"
      using that by auto
    then have "sint (word_of_int (n div 86400) :: 32 word) = n div 86400"
      "sint (word_of_int (n mod 86400) :: 32 word) = n mod 86400"
      by (simp_all add: sint_word_of_int_self)
    then show ?thesis by simp
  qed
  then show ?thesis
    by (auto simp: clock_laws_def mini_x509_def Let_def split: if_splits)
qed

theorem pinned_callback_exact_witness:
  "pinned_callback mini_x509 [[1, 2]] (Some ([1, 2], 1000, 1210600)) = Inr ()
   \<and> pinned_callback mini_x509 [[1, 2]] (Some ([1, 2], 1000, 1210601)) \<noteq> Inr ()"
proof -
  have now: "x_now mini_x509 = Some 1000" by (simp add: mini_x509_def)
  show ?thesis
    unfolding pinned_callback_exact [OF mini_clock_laws now] by (simp add: mini_x509_def)
qed

end
