(* ===== verification/Net_Addr.thy ===== *)
theory Net_Addr
  imports Rust_Std
begin

text \<open>
  IP and socket addresses of the Rust standard library, with the textual form the sources rely on:
  \<^verbatim>\<open>IpAddr::to_string\<close> and \<^verbatim>\<open>str::parse::<IpAddr>\<close>, written after the recursive-descent parser of
  \<^verbatim>\<open>std::net\<close>. The main fact is that parsing inverts printing.
\<close>

section \<open>Addresses\<close>

text \<open>The octets of an address, most significant first: 4 or 16 of them.\<close>

datatype ip_addr = IpV4 bytes | IpV6 bytes

record sock_addr =
  sa_ip :: ip_addr
  sa_port :: u16

definition ip_wf :: "ip_addr \<Rightarrow> bool" where
  "ip_wf ip = (case ip of IpV4 o4 \<Rightarrow> length o4 = 4 | IpV6 o16 \<Rightarrow> length o16 = 16)"

section \<open>Printing\<close>

definition show_ipv4 :: "bytes \<Rightarrow> string" where
  "show_ipv4 o4 = join ''.'' (map (\<lambda>b. show_dec (unat b)) o4)"

fun segments :: "bytes \<Rightarrow> nat list" where
  "segments (a # b # rest) = (unat a * 256 + unat b) # segments rest"
| "segments _ = []"

definition fmt_subslice :: "nat list \<Rightarrow> string" where
  "fmt_subslice gs = join '':'' (map (digits_base 16) gs)"

text \<open>The first longest run of zeros: the loop carries the position, the current run and the longest one.\<close>

fun zero_span :: "nat list \<Rightarrow> nat \<Rightarrow> nat \<times> nat \<Rightarrow> nat \<times> nat \<Rightarrow> nat \<times> nat" where
  "zero_span [] i cur longest = longest"
| "zero_span (g # gs) i (st, n) longest =
     (if g = 0 then
        (let cur = (if n = 0 then i else st, n + 1)
         in zero_span gs (i + 1) cur (if snd cur > snd longest then cur else longest))
      else zero_span gs (i + 1) (0, 0) longest)"

definition show_ipv6 :: "bytes \<Rightarrow> string" where
  "show_ipv6 o16 =
     (if take 12 o16 = replicate 10 0 @ [255, 255] then ''::ffff:'' @ show_ipv4 (drop 12 o16)
      else
        (let gs = segments o16; (st, n) = zero_span gs 0 (0, 0) (0, 0)
         in if n > 1 then fmt_subslice (take st gs) @ ''::'' @ fmt_subslice (drop (st + n) gs)
            else fmt_subslice gs))"

definition show_ip :: "ip_addr \<Rightarrow> string" where
  "show_ip ip = (case ip of IpV4 o4 \<Rightarrow> show_ipv4 o4 | IpV6 o16 \<Rightarrow> show_ipv6 o16)"

section \<open>Parsing\<close>

text \<open>\<^verbatim>\<open>char::to_digit\<close>: digits, then letters of either case.\<close>

definition to_digit :: "nat \<Rightarrow> char \<Rightarrow> nat option" where
  "to_digit radix c =
     (let n = of_char c :: nat;
          d = (if 48 \<le> n \<and> n \<le> 57 then n - 48
               else if 97 \<le> n \<and> n \<le> 122 then n - 87
               else if 65 \<le> n \<and> n \<le> 90 then n - 55 else radix)
      in if d < radix then Some d else None)"

type_synonym 'a reader = "string \<Rightarrow> ('a \<times> string) option"

text \<open>
  Reading a number consumes every digit there is and then checks what it has: too many digits, a value
  that does not fit or a forbidden leading zero all fail, and a failing reader consumes nothing.
\<close>

definition read_number :: "nat \<Rightarrow> nat \<Rightarrow> bool \<Rightarrow> nat \<Rightarrow> nat reader" where
  "read_number radix max_digits allow_zero_prefix bound s =
     (let ds = takeWhile (\<lambda>c. to_digit radix c \<noteq> None) s;
          v = foldl (\<lambda>v c. v * radix + the (to_digit radix c)) 0 ds
      in if ds = [] \<or> length ds > max_digits \<or> v \<ge> bound
            \<or> (\<not> allow_zero_prefix \<and> hd ds = CHR ''0'' \<and> length ds > 1)
         then None else Some (v, drop (length ds) s))"

definition read_separator :: "char \<Rightarrow> nat \<Rightarrow> 'a reader \<Rightarrow> 'a reader" where
  "read_separator sep i p s =
     (if i > 0 then (case s of c # cs \<Rightarrow> if c = sep then p cs else None | [] \<Rightarrow> None) else p s)"

fun read_octets :: "nat \<Rightarrow> nat \<Rightarrow> nat list reader" where
  "read_octets 0 i s = Some ([], s)"
| "read_octets (Suc n) i s =
     (case read_separator CHR ''.'' i (read_number 10 3 False 256) s of
        None \<Rightarrow> None
      | Some (b, s') \<Rightarrow>
         (case read_octets n (Suc i) s' of None \<Rightarrow> None | Some (bs, r) \<Rightarrow> Some (b # bs, r)))"

definition read_ipv4_addr :: "nat list reader" where
  "read_ipv4_addr = read_octets 4 0"

text \<open>
  \<open>read_groups n i\<close> reads up to \<open>n\<close> groups, the first of them being the \<open>i\<close>-th; it says whether they
  end in an embedded IPv4 address.
\<close>

fun read_groups :: "nat \<Rightarrow> nat \<Rightarrow> string \<Rightarrow> nat list \<times> bool \<times> string" where
  "read_groups 0 i s = ([], False, s)"
| "read_groups (Suc n) i s =
     (case (if n > 0 then read_separator CHR '':'' i read_ipv4_addr s else None) of
        Some (bs, r) \<Rightarrow> ([bs ! 0 * 256 + bs ! 1, bs ! 2 * 256 + bs ! 3], True, r)
      | None \<Rightarrow>
         (case read_separator CHR '':'' i (read_number 16 4 True 65536) s of
            Some (g, s') \<Rightarrow> (case read_groups n (Suc i) s' of (gs, v4, r) \<Rightarrow> (g # gs, v4, r))
          | None \<Rightarrow> ([], False, s)))"

definition read_ipv6_addr :: "nat list reader" where
  "read_ipv6_addr s =
     (case read_groups 8 0 s of
        (head, v4, r) \<Rightarrow>
          if length head = 8 then Some (head, r)
          else if v4 then None
          else if take 2 r \<noteq> ''::'' then None
          else
            (case read_groups (8 - (length head + 1)) 0 (drop 2 r) of
               (tail, _, r') \<Rightarrow> Some (head @ replicate (8 - length head - length tail) 0 @ tail, r')))"

definition octets_of_groups :: "nat list \<Rightarrow> bytes" where
  "octets_of_groups gs = concat (map (\<lambda>g. [of_nat (g div 256), of_nat g]) gs)"

definition parse_ip :: "string \<Rightarrow> ip_addr option" where
  "parse_ip s =
     (case (case read_ipv4_addr s of
              Some (bs, r) \<Rightarrow> Some (IpV4 (map of_nat bs), r)
            | None \<Rightarrow>
               (case read_ipv6_addr s of
                  Some (gs, r) \<Rightarrow> Some (IpV6 (octets_of_groups gs), r)
                | None \<Rightarrow> None)) of
        Some (ip, r) \<Rightarrow> if r = [] then Some ip else None
      | None \<Rightarrow> None)"

section \<open>Reading what was printed\<close>

text \<open>Digits of a base up to sixteen.\<close>

lemma to_digit_digit:
  assumes "d < 16" and "radix \<le> 16"
  shows "to_digit radix (''0123456789abcdef'' ! d) = (if d < radix then Some d else None)"
proof -
  have "d \<in> {0, 1, 2, 3, 4, 5, 6, 7, 8, 9, 10, 11, 12, 13, 14, 15}" using assms(1)
    unfolding insert_iff empty_iff by presburger
  with assms(2) show ?thesis by (elim insertE) (auto simp: to_digit_def)
qed

definition digit_char :: "nat \<Rightarrow> char" where
  "digit_char d = ''0123456789abcdef'' ! d"

lemma digits_base_step:
  assumes "2 \<le> b" and "b \<le> 16"
  shows "digits_base b n = (if n < b then [digit_char n] else digits_base b (n div b) @ [digit_char (n mod b)])"
proof -
  have "n mod b < 16" using assms by (meson less_le_trans mod_less_divisor zero_less_numeral order_less_le_trans)
  then show ?thesis using assms by (subst digits_base.simps) (simp add: digit_char_def)
qed

lemma digits_base_induct [consumes 2, case_names small step]:
  assumes "2 \<le> b" and "b \<le> (16::nat)"
    and "\<And>n. n < b \<Longrightarrow> P n [digit_char n]"
    and "\<And>n ds. b \<le> n \<Longrightarrow> P (n div b) ds \<Longrightarrow> P n (ds @ [digit_char (n mod b)])"
  shows "P n (digits_base b n)"
proof (induction n rule: less_induct)
  case (less n)
  show ?case
  proof (cases "n < b")
    case False
    then have "n div b < n" using assms(1) by (intro div_less_dividend) auto
    with less have "P (n div b) (digits_base b (n div b))" by blast
    with False assms show ?thesis by (subst digits_base_step) auto
  qed (use assms in \<open>subst digits_base_step, auto\<close>)
qed

lemma to_digit_digit_char:
  assumes "d < b" and "b \<le> 16" shows "to_digit b (digit_char d) = Some d"
  using assms by (simp add: digit_char_def to_digit_digit)

lemma digits_base_chars:
  assumes "2 \<le> b" and "b \<le> 16"
  shows "digits_base b n \<noteq> [] \<and> (\<forall>c \<in> set (digits_base b n). to_digit b c \<noteq> None)"
  using assms
  by (rule digits_base_induct [where P = "\<lambda>n ds. ds \<noteq> [] \<and> (\<forall>c \<in> set ds. to_digit b c \<noteq> None)"])
    (use assms in \<open>auto simp: to_digit_digit_char\<close>)

lemma digits_base_value:
  assumes "2 \<le> b" and "b \<le> 16"
  shows "foldl (\<lambda>v c. v * b + the (to_digit b c)) 0 (digits_base b n) = n"
  using assms
  by (rule digits_base_induct [where P = "\<lambda>n ds. foldl (\<lambda>v c. v * b + the (to_digit b c)) 0 ds = n"])
    (use assms in \<open>auto simp: to_digit_digit_char\<close>)

lemma digits_base_length:
  assumes "2 \<le> b" and "b \<le> 16" and "n < b ^ k" and "0 < k"
  shows "length (digits_base b n) \<le> k"
proof -
  have "\<forall>k. 0 < k \<longrightarrow> n < b ^ k \<longrightarrow> length (digits_base b n) \<le> k"
    using assms(1,2)
  proof (rule digits_base_induct [where P = "\<lambda>n ds. \<forall>k. 0 < k \<longrightarrow> n < b ^ k \<longrightarrow> length ds \<le> k"])
    fix n and ds :: string
    assume step: "b \<le> n" "\<forall>k. 0 < k \<longrightarrow> n div b < b ^ k \<longrightarrow> length ds \<le> k"
    show "\<forall>k. 0 < k \<longrightarrow> n < b ^ k \<longrightarrow> length (ds @ [digit_char (n mod b)]) \<le> k"
    proof (intro allI impI)
      fix k assume k: "0 < k" "n < b ^ k"
      with step(1) assms(1) obtain j where j: "k = Suc j" "0 < j" by (cases k; cases "k - 1") auto
      with k assms(1) have "n div b < b ^ j" by (simp add: less_mult_imp_div_less mult.commute)
      with step(2) j show "length (ds @ [digit_char (n mod b)]) \<le> k" by auto
    qed
  qed auto
  with assms(3,4) show ?thesis by blast
qed

lemma digits_base_no_zero_prefix:
  assumes "2 \<le> b" and "b \<le> 16"
  shows "0 < n \<longrightarrow> digits_base b n \<noteq> [] \<and> hd (digits_base b n) \<noteq> CHR ''0''"
  using assms
proof (rule digits_base_induct [where P = "\<lambda>n ds. 0 < n \<longrightarrow> ds \<noteq> [] \<and> hd ds \<noteq> CHR ''0''"])
  fix n assume n: "n < b"
  have "digit_char n \<noteq> CHR ''0''" if "0 < n"
    using to_digit_digit_char [OF n assms(2)] to_digit_digit_char [of 0 b] assms that
    by (auto simp: digit_char_def)
  then show "0 < n \<longrightarrow> [digit_char n] \<noteq> [] \<and> hd [digit_char n] \<noteq> CHR ''0''" by simp
next
  fix n and ds :: string assume step: "b \<le> n" "0 < n div b \<longrightarrow> ds \<noteq> [] \<and> hd ds \<noteq> CHR ''0''"
  then have "0 < n div b" using assms(1) by (simp add: div_greater_zero_iff)
  with step show "0 < n \<longrightarrow> ds @ [digit_char (n mod b)] \<noteq> [] \<and> hd (ds @ [digit_char (n mod b)]) \<noteq> CHR ''0''"
    by simp
qed

lemma read_number_digits:
  assumes "2 \<le> b" and "b \<le> 16" and "n < b ^ k" and "0 < k" and "n < bound"
    and stop: "r = [] \<or> to_digit b (hd r) = None"
  shows "read_number b k z bound (digits_base b n @ r) = Some (n, r)"
proof -
  let ?ds = "digits_base b n"
  have ds: "takeWhile (\<lambda>c. to_digit b c \<noteq> None) (?ds @ r) = ?ds"
    using digits_base_chars [OF assms(1,2), of n] stop
    by (cases r) (auto simp: takeWhile_append intro!: takeWhile_eq_all_conv [THEN iffD2])
  have zero: "\<not> (hd ?ds = CHR ''0'' \<and> length ?ds > 1)"
  proof (cases "n = 0")
    case True
    then show ?thesis using assms(1,2) by (simp add: digits_base_step)
  qed (use digits_base_no_zero_prefix [OF assms(1,2), of n] in simp)
  show ?thesis
    using digits_base_chars [OF assms(1,2), of n] digits_base_length [OF assms(1-4)] zero assms(5)
    unfolding read_number_def Let_def ds digits_base_value [OF assms(1,2)] by auto
qed

text \<open>A joined list, with the separator before every item but the very first one.\<close>

fun separated :: "char \<Rightarrow> nat \<Rightarrow> string list \<Rightarrow> string" where
  "separated sep i [] = []"
| "separated sep i (x # xs) = (if i > 0 then [sep] else []) @ x @ separated sep (Suc i) xs"

lemma separated_pos: "0 < i \<Longrightarrow> 0 < j \<Longrightarrow> separated sep i xs = separated sep j xs"
proof (induction xs arbitrary: i j)
  case (Cons x xs)
  from Cons.IH [of "Suc i" "Suc j"] Cons.prems show ?case by simp
qed simp

lemma join_separated: "join [sep] xs = separated sep 0 xs"
proof (induction xs rule: induct_list012)
  case (3 x y zs)
  have "separated sep (Suc (Suc 0)) zs = separated sep (Suc 0) zs" by (rule separated_pos) simp_all
  with 3 show ?case by simp
qed simp_all

lemma set_separated: "c \<in> set (separated sep i xs) \<Longrightarrow> c = sep \<or> (\<exists>x \<in> set xs. c \<in> set x)"
  by (induction xs arbitrary: i) (auto split: if_splits)

lemma separated_head: "separated sep (Suc i) xs = [] \<or> hd (separated sep (Suc i) xs) = sep"
  by (cases xs) auto

lemma to_digit_punctuation [simp]:
  "to_digit 10 CHR ''.'' = None" "to_digit 10 CHR '':'' = None" "to_digit 16 CHR ''.'' = None"
  "to_digit 16 CHR '':'' = None"
  by (simp_all add: to_digit_def)

lemma read_number_nothing [simp]:
  "read_number b k z m [] = None" "to_digit b c = None \<Longrightarrow> read_number b k z m (c # s) = None"
  by (simp_all add: read_number_def)

lemma unat_u8_less: "unat (b :: u8) < 256"
  using unsigned_less [of b] by simp

lemma read_separator_separated [simp]:
  "read_separator sep i p (separated sep i (x # xs) @ r) = p (x @ separated sep (Suc i) xs @ r)"
  by (simp add: read_separator_def)

lemma read_octets_printed:
  assumes "r = [] \<or> to_digit 10 (hd r) = None"
  shows "read_octets (length bs) i (separated CHR ''.'' i (map (\<lambda>b. show_dec (unat (b :: u8))) bs) @ r)
    = Some (map unat bs, r)"
proof (induction bs arbitrary: i)
  case (Cons b bs)
  let ?rest = "separated CHR ''.'' (Suc i) (map (\<lambda>b. show_dec (unat b)) bs) @ r"
  have "?rest = [] \<or> to_digit 10 (hd ?rest) = None"
    using separated_head [of "CHR ''.''" i "map (\<lambda>b. show_dec (unat b)) bs"] assms
    by (metis append_Nil hd_append2 to_digit_punctuation(1))
  moreover note unat_u8_less [of b]
  ultimately have "read_number 10 3 False 256 (show_dec (unat b) @ ?rest) = Some (unat b, ?rest)"
    unfolding show_dec_def by (intro read_number_digits) simp_all
  then show ?case using Cons.IH [of "Suc i"] by (simp del: separated.simps)
qed simp

lemma read_ipv4_printed: "length o4 = 4 \<Longrightarrow> read_ipv4_addr (show_ipv4 o4) = Some (map unat o4, [])"
  using read_octets_printed [of "[]" o4 0]
  by (simp add: read_ipv4_addr_def show_ipv4_def join_separated)

lemma read_octets_needs_dot: "CHR ''.'' \<notin> set s \<Longrightarrow> 0 < i \<Longrightarrow> read_octets (Suc n) i s = None"
  by (cases s) (auto simp: read_separator_def)

lemma read_ipv4_needs_dot:
  assumes "CHR ''.'' \<notin> set s"
  shows "read_ipv4_addr s = None"
proof (cases "read_number 10 3 False 256 s")
  case (Some p)
  then obtain k where "snd p = drop k s" by (auto simp: read_number_def Let_def split: if_splits)
  then have "CHR ''.'' \<notin> set (snd p)" using assms by (auto dest: in_set_dropD)
  with Some show ?thesis
    using read_octets_needs_dot [of "snd p" "Suc 0" 2]
    by (cases p) (simp add: read_ipv4_addr_def read_separator_def numeral_eq_Suc)
qed (simp add: read_ipv4_addr_def read_separator_def numeral_eq_Suc)

text \<open>Groups without an embedded address, up to the end of the text or a double colon.\<close>

definition groups_stop :: "string \<Rightarrow> bool" where
  "groups_stop r \<longleftrightarrow> CHR ''.'' \<notin> set r \<and> (r = [] \<or> take 2 r = ''::'')"

lemma no_dot_groups: "CHR ''.'' \<notin> set (separated CHR '':'' i (map (digits_base 16) gs))"
proof
  assume "CHR ''.'' \<in> set (separated CHR '':'' i (map (digits_base 16) gs))"
  then obtain g where "CHR ''.'' \<in> set (digits_base 16 g)" using set_separated by fastforce
  then show False using digits_base_chars [of 16 g] by fastforce
qed

lemma read_separator_needs_dot: "CHR ''.'' \<notin> set s \<Longrightarrow> read_separator CHR '':'' i read_ipv4_addr s = None"
  by (cases s) (simp_all add: read_separator_def read_ipv4_needs_dot)

lemma read_groups_stop: "groups_stop r \<Longrightarrow> read_groups n i r = ([], False, r)"
proof (cases n)
  case (Suc m)
  assume r: "groups_stop r"
  then have "read_separator CHR '':'' i (read_number 16 4 True 65536) r = None"
    by (cases r; cases "tl r") (auto simp: groups_stop_def read_separator_def)
  with r Suc show ?thesis
    by (simp add: groups_stop_def read_separator_needs_dot)
qed simp

lemma read_groups_printed:
  assumes "\<forall>g \<in> set gs. g < 65536" and "length gs \<le> n" and "groups_stop r"
  shows "read_groups n i (separated CHR '':'' i (map (digits_base 16) gs) @ r) = (gs, False, r)"
  using assms
proof (induction gs arbitrary: n i)
  case Nil
  then show ?case by (simp add: read_groups_stop)
next
  case (Cons g gs)
  then obtain m where m: "n = Suc m" "length gs \<le> m" by (cases n) auto
  let ?all = "separated CHR '':'' i (map (digits_base 16) (g # gs)) @ r"
  let ?rest = "separated CHR '':'' (Suc i) (map (digits_base 16) gs) @ r"
  have "?rest = [] \<or> to_digit 16 (hd ?rest) = None"
    using separated_head [of "CHR '':''" i "map (digits_base 16) gs"] Cons.prems(3)
    by (cases r) (auto simp: groups_stop_def hd_append)
  then have "read_number 16 4 True 65536 (digits_base 16 g @ ?rest) = Some (g, ?rest)"
    using Cons.prems(1) by (intro read_number_digits) simp_all
  moreover have "read_separator CHR '':'' i read_ipv4_addr ?all = None"
    using Cons.prems(3) no_dot_groups [of i "g # gs"] by (intro read_separator_needs_dot) (auto simp: groups_stop_def)
  moreover have "read_groups m (Suc i) ?rest = (gs, False, r)"
    using Cons.IH [of m "Suc i"] Cons.prems m by simp
  moreover have "read_separator CHR '':'' i (read_number 16 4 True 65536) ?all = Some (g, ?rest)"
    using calculation(1) by (simp del: separated.simps)
  ultimately show ?case using m(2) unfolding m(1) by (auto simp del: separated.simps)
qed

section \<open>The round trip\<close>

text \<open>A run of zeros, and that the loop finds one.\<close>

definition zero_run :: "nat list \<Rightarrow> nat \<times> nat \<Rightarrow> bool" where
  "zero_run gs p \<longleftrightarrow> fst p + snd p \<le> length gs \<and> (\<forall>j. fst p \<le> j \<longrightarrow> j < fst p + snd p \<longrightarrow> gs ! j = 0)"

lemma zero_span_run:
  assumes "zero_run (pre @ gs) cur" and "snd cur = 0 \<or> fst cur + snd cur = length pre" and "zero_run (pre @ gs) longest"
  shows "zero_run (pre @ gs) (zero_span gs (length pre) cur longest)"
  using assms
proof (induction gs arbitrary: pre cur longest)
  case (Cons g gs)
  obtain st n where cur: "cur = (st, n)" by fastforce
  show ?case
  proof (cases "g = 0")
    case True
    let ?cur = "(if n = 0 then length pre else st, n + 1)"
    have "zero_run (pre @ g # gs) ?cur"
      using Cons.prems(1,2) True cur by (auto simp: zero_run_def nth_append less_Suc_eq)
    moreover have "fst ?cur + snd ?cur = length (pre @ [g])" using Cons.prems(2) cur by auto
    ultimately have "zero_run (pre @ g # gs) (zero_span gs (Suc (length pre)) ?cur
        (if n + 1 > snd longest then ?cur else longest))"
      using Cons.IH [of "pre @ [g]" ?cur "if n + 1 > snd longest then ?cur else longest"] Cons.prems(3) by simp
    with True cur show ?thesis by (simp only: zero_span.simps Let_def snd_conv if_True Suc_eq_plus1) simp
  next
    case False
    have "zero_run (pre @ g # gs) (0, 0)" by (simp add: zero_run_def)
    with Cons.IH [of "pre @ [g]" "(0, 0)" longest] Cons.prems(3) False cur show ?thesis by simp
  qed
qed simp

lemma zero_run_split:
  assumes "zero_run gs (st, n)"
  shows "take st gs @ replicate n 0 @ drop (st + n) gs = gs"
proof -
  have "replicate n 0 = take n (drop st gs)"
    using assms by (intro nth_equalityI) (auto simp: zero_run_def)
  then show ?thesis
    by (metis append_take_drop_id drop_drop add.commute)
qed

lemma length_segments: "length (segments os) = length os div 2"
  by (induction os rule: segments.induct) auto

lemma segments_bound: "g \<in> set (segments os) \<Longrightarrow> g < 65536"
proof (induction os rule: segments.induct)
  case (1 a b rest)
  with unat_u8_less [of a] unat_u8_less [of b] show ?case by auto
qed auto

lemma octets_of_segments: "even (length os) \<Longrightarrow> octets_of_groups (segments os) = os"
proof (induction os rule: segments.induct)
  case (1 a b rest)
  have "(unat a * 256 + unat b) div 256 = unat a" using unat_u8_less [of b] by simp
  moreover have "(of_nat (unat a * 256 + unat b) :: u8) = b"
  proof -
    have "(256 :: u8) = 0" by (simp add: word_uint_eq_iff)
    then have "a * 256 = 0" by (simp only: mult_zero_right)
    then show ?thesis by simp
  qed
  ultimately show ?case using 1 by (simp add: octets_of_groups_def)
qed (auto simp: octets_of_groups_def)

lemma map_of_nat_unat [simp]: "map (of_nat \<circ> unat) (bs :: bytes) = bs"
  by (simp add: map_idI)

lemma read_ipv6_plain:
  assumes "length gs = 8" and "\<forall>g \<in> set gs. g < 65536"
  shows "read_ipv6_addr (fmt_subslice gs) = Some (gs, [])"
  using read_groups_printed [of gs 8 "[]" 0] assms
  by (simp add: read_ipv6_addr_def fmt_subslice_def join_separated groups_stop_def)

lemma read_ipv6_compressed:
  assumes "length gs = 8" and bound: "\<forall>g \<in> set gs. g < 65536" and run: "zero_run gs (st, n)" and "1 < n"
  shows "read_ipv6_addr (fmt_subslice (take st gs) @ ''::'' @ fmt_subslice (drop (st + n) gs)) = Some (gs, [])"
proof -
  let ?tail = "drop (st + n) gs"
  have st: "st + n \<le> 8" using run assms(1) by (simp add: zero_run_def)
  have "groups_stop (''::'' @ fmt_subslice ?tail)"
    using no_dot_groups [of 0 ?tail] by (simp add: groups_stop_def fmt_subslice_def join_separated)
  moreover have "\<forall>g \<in> set (take st gs). g < 65536" "\<forall>g \<in> set ?tail. g < 65536"
    using bound by (auto dest: in_set_takeD in_set_dropD)
  ultimately have
    "read_groups 8 0 (fmt_subslice (take st gs) @ ''::'' @ fmt_subslice ?tail) = (take st gs, False, ''::'' @ fmt_subslice ?tail)"
    "read_groups (7 - st) 0 (fmt_subslice ?tail) = (?tail, False, [])"
    using read_groups_printed [of "take st gs" 8 "''::'' @ fmt_subslice ?tail" 0]
      read_groups_printed [of ?tail "7 - st" "[]" 0] st assms(1,4)
    by (simp_all add: fmt_subslice_def join_separated groups_stop_def)
  moreover have "take st gs @ replicate (8 - st - length ?tail) 0 @ ?tail = gs"
    using zero_run_split [OF run] st assms(1) by simp
  ultimately show ?thesis
    using st assms(1,4) by (simp add: read_ipv6_addr_def)
qed

lemma read_ipv4_no_digit: "to_digit 10 c = None \<Longrightarrow> read_ipv4_addr (c # s) = None"
  by (simp add: read_ipv4_addr_def read_separator_def numeral_eq_Suc)

lemma read_ipv6_mapped:
  assumes "length o4 = 4"
  shows "read_ipv6_addr (''::ffff:'' @ show_ipv4 o4)
    = Some ([0, 0, 0, 0, 0, 65535, unat (o4 ! 0) * 256 + unat (o4 ! 1), unat (o4 ! 2) * 256 + unat (o4 ! 3)], [])"
proof -
  let ?v = "'':'' @ show_ipv4 o4"
  have f: "to_digit 10 CHR ''f'' = None" by (simp add: to_digit_def)
  have ffff: "digits_base 16 65535 = ''ffff''" by (simp add: digits_base_step digit_char_def)
  have num: "read_number 16 4 True 65536 (''ffff'' @ ?v) = Some (65535, ?v)"
    unfolding ffff [symmetric] by (rule read_number_digits) simp_all
  have tail: "read_groups (Suc 5) 1 ?v
      = ([unat (o4 ! 0) * 256 + unat (o4 ! 1), unat (o4 ! 2) * 256 + unat (o4 ! 3)], True, [])"
    unfolding read_groups.simps using read_ipv4_printed [OF assms] assms by (simp add: read_separator_def)
  have "read_groups (Suc 6) 0 (''ffff'' @ ?v)
      = ([65535, unat (o4 ! 0) * 256 + unat (o4 ! 1), unat (o4 ! 2) * 256 + unat (o4 ! 3)], True, [])"
    unfolding read_groups.simps using num tail [unfolded Suc_numeral]
    by (simp add: read_separator_def read_ipv4_no_digit f)
  moreover have "read_groups (Suc 7) 0 (''::ffff'' @ ?v) = ([], False, ''::ffff'' @ ?v)"
    unfolding read_groups.simps by (simp add: read_separator_def read_ipv4_no_digit)
  moreover have "replicate 5 (0::nat) = [0, 0, 0, 0, 0]" by (simp add: numeral_eq_Suc)
  ultimately show ?thesis
    by (simp add: read_ipv6_addr_def del: read_groups.simps)
qed

lemma length_four: "length xs = 4 \<Longrightarrow> \<exists>a b c d. xs = [a, b, c, d]"
  by (auto simp: numeral_eq_Suc length_Suc_conv)

lemma read_ipv6_printed:
  assumes "length os = 16"
  shows "read_ipv6_addr (show_ipv6 os) = Some (segments os, []) \<and> read_ipv4_addr (show_ipv6 os) = None"
proof (cases "take 12 os = replicate 10 0 @ [255, 255]")
  case True
  from assms have "length (drop 12 os) = 4" by simp
  then obtain a b c d where o4: "drop 12 os = [a, b, c, d]" using length_four by blast
  from True o4 have "os = (replicate 10 0 @ [255, 255]) @ [a, b, c, d]"
    using append_take_drop_id [of 12 os] by simp
  moreover have "replicate 10 (0 :: u8) = [0, 0, 0, 0, 0, 0, 0, 0, 0, 0]" by (simp add: numeral_eq_Suc)
  ultimately have "segments os = [0, 0, 0, 0, 0, 65535, unat a * 256 + unat b, unat c * 256 + unat d]"
    by (simp only: append.simps segments.simps) simp
  then show ?thesis
    using read_ipv6_mapped [of "drop 12 os"] True o4 by (simp add: show_ipv6_def read_ipv4_no_digit)
next
  case False
  let ?gs = "segments os"
  obtain st n where span: "zero_span ?gs 0 (0, 0) (0, 0) = (st, n)" by fastforce
  have "zero_run ?gs (st, n)"
    using zero_span_run [of "[]" ?gs "(0, 0)" "(0, 0)"] span by (simp add: zero_run_def)
  moreover have len: "length ?gs = 8" using assms by (simp add: length_segments)
  moreover have bound: "\<forall>g \<in> set ?gs. g < 65536" by (auto dest: segments_bound)
  ultimately have "read_ipv6_addr (show_ipv6 os) = Some (?gs, [])"
    using read_ipv6_plain [of ?gs] read_ipv6_compressed [of ?gs st n] False span by (simp add: show_ipv6_def Let_def)
  moreover have "CHR ''.'' \<notin> set (show_ipv6 os)"
    using False span no_dot_groups [of 0] by (simp add: show_ipv6_def fmt_subslice_def join_separated Let_def)
  ultimately show ?thesis by (simp add: read_ipv4_needs_dot)
qed

lemma parse_show_ip:
  assumes "ip_wf ip"
  shows "parse_ip (show_ip ip) = Some ip"
proof (cases ip)
  case (IpV4 o4)
  with assms show ?thesis
    by (simp add: parse_ip_def show_ip_def ip_wf_def read_ipv4_printed)
next
  case (IpV6 os)
  with assms read_ipv6_printed [of os] show ?thesis
    by (simp add: parse_ip_def show_ip_def ip_wf_def octets_of_segments)
qed

end
