(* ===== verification/Retry_Token.thy ===== *)
theory Retry_Token
  imports Net_Addr
begin

text \<open>
  The stateless Retry token of \<^verbatim>\<open>crates/native/src/server.rs\<close>: HMAC-SHA256, the constant-time
  comparison, minting and validation. SHA-256 itself (BoringSSL) is a parameter, of which only
  the length of its output matters here.
\<close>

definition TOKEN_TAG_LEN :: nat where [wt_consts]: "TOKEN_TAG_LEN = 16"

definition addr_identity :: "sock_addr \<Rightarrow> bytes" where
  "addr_identity src =
     (case sa_ip src of IpV4 a \<Rightarrow> a | IpV6 a \<Rightarrow> a) @ u16_to_be_bytes (sa_port src)"

definition HMAC_BLOCK :: nat where "HMAC_BLOCK = 64"

definition hmac_sha256 :: "(bytes \<Rightarrow> bytes) \<Rightarrow> bytes \<Rightarrow> bytes \<Rightarrow> bytes" where
  "hmac_sha256 sha256 secret data =
     (let key = (if length secret > HMAC_BLOCK
                 then sha256 secret @ replicate (HMAC_BLOCK - 32) 0
                 else secret @ replicate (HMAC_BLOCK - length secret) 0);
          ipad = map2 (XOR) (replicate HMAC_BLOCK 0x36) key;
          opad = map2 (XOR) (replicate HMAC_BLOCK 0x5c) key;
          inner_hash = sha256 (ipad @ data)
      in sha256 (opad @ inner_hash))"

definition constant_time_eq :: "bytes \<Rightarrow> bytes \<Rightarrow> bool" where
  "constant_time_eq a b =
     (if length a \<noteq> length b then False
      else foldl (\<lambda>diff (x, y). diff OR (x XOR y)) 0 (zip a b) = 0)"

definition TOKEN_MAGIC :: bytes where "TOKEN_MAGIC = as_bytes ''rwt1''"

definition mint_token :: "(bytes \<Rightarrow> bytes) \<Rightarrow> bytes \<Rightarrow> bytes \<Rightarrow> sock_addr \<Rightarrow> bytes" where
  "mint_token sha256 secret orig_dcid src =
     (let mac_input = addr_identity src @ orig_dcid;
          tag = hmac_sha256 sha256 secret mac_input
      in TOKEN_MAGIC @ orig_dcid @ take TOKEN_TAG_LEN tag)"

definition strip_prefix :: "bytes \<Rightarrow> bytes \<Rightarrow> bytes option" where
  "strip_prefix p xs = (if take (length p) xs = p then Some (drop (length p) xs) else None)"

definition validate_token :: "(bytes \<Rightarrow> bytes) \<Rightarrow> bytes \<Rightarrow> sock_addr \<Rightarrow> bytes \<Rightarrow> bytes option" where
  "validate_token sha256 secret src token =
     (case strip_prefix TOKEN_MAGIC token of
        None \<Rightarrow> None
      | Some rest \<Rightarrow>
         (if length rest < TOKEN_TAG_LEN then None
          else
            (let orig_dcid = take (length rest - TOKEN_TAG_LEN) rest;
                 tag = drop (length rest - TOKEN_TAG_LEN) rest;
                 mac_input = addr_identity src @ orig_dcid;
                 expected = hmac_sha256 sha256 secret mac_input
             in if \<not> constant_time_eq (take TOKEN_TAG_LEN expected) tag then None
                else Some orig_dcid)))"

section \<open>The comparison\<close>

lemma or_zero_iff: "a OR b = 0 \<longleftrightarrow> a = 0 \<and> b = (0 :: u8)"
  by (auto intro!: bit_word_eqI simp: bit_eq_iff bit_or_iff)

lemma xor_zero_iff: "a XOR b = 0 \<longleftrightarrow> a = (b :: u8)"
  by (metis xor.assoc xor_self_eq xor.left_neutral xor.right_neutral)

lemma foldl_diff:
  "length a = length b \<Longrightarrow>
   foldl (\<lambda>diff (x, y). diff OR (x XOR y)) d (zip a b) = (0 :: u8) \<longleftrightarrow> d = 0 \<and> a = b"
proof (induction a arbitrary: b d)
  case (Cons x a)
  then obtain y b' where "b = y # b'" by (cases b) auto
  with Cons show ?case by (auto simp: or_zero_iff xor_zero_iff)
qed simp

lemma constant_time_eq_iff: "constant_time_eq a b \<longleftrightarrow> a = b"
  by (auto simp: constant_time_eq_def foldl_diff)

section \<open>Minting and validating\<close>

lemma validate_token_iff:
  assumes "\<And>x. length (sha256 x) = 32"
  shows "validate_token sha256 secret src token = Some dcid \<longleftrightarrow> token = mint_token sha256 secret dcid src"
proof -
  have tag: "length (take TOKEN_TAG_LEN (hmac_sha256 sha256 secret x)) = TOKEN_TAG_LEN" for x
    by (simp add: hmac_sha256_def Let_def assms TOKEN_TAG_LEN_def)
  show ?thesis
  proof
    assume v: "validate_token sha256 secret src token = Some dcid"
    then obtain rest where r: "strip_prefix TOKEN_MAGIC token = Some rest" "TOKEN_TAG_LEN \<le> length rest"
      "dcid = take (length rest - TOKEN_TAG_LEN) rest"
      "take TOKEN_TAG_LEN (hmac_sha256 sha256 secret (addr_identity src @ dcid))
         = drop (length rest - TOKEN_TAG_LEN) rest"
      by (auto simp: validate_token_def Let_def constant_time_eq_iff split: option.splits if_splits)
    then have "token = TOKEN_MAGIC @ rest"
      by (auto simp: strip_prefix_def split: if_splits) (metis append_take_drop_id)
    moreover have "rest = dcid @ take TOKEN_TAG_LEN (hmac_sha256 sha256 secret (addr_identity src @ dcid))"
      using r by (metis append_take_drop_id)
    ultimately show "token = mint_token sha256 secret dcid src" by (simp add: mint_token_def Let_def)
  next
    assume "token = mint_token sha256 secret dcid src"
    then show "validate_token sha256 secret src token = Some dcid"
      using tag [of "addr_identity src @ dcid"]
      by (simp add: validate_token_def mint_token_def strip_prefix_def Let_def constant_time_eq_iff)
  qed
qed

section \<open>Properties\<close>

text \<open>
  The constant-time comparison decides equality of byte strings: it has no false
  positive and no false negative.
\<close>

theorem constant_time_eq_correct: "constant_time_eq a b \<longleftrightarrow> a = b"
  by (rule constant_time_eq_iff)

text \<open>
  Claim C27. A Retry token is accepted for a source address exactly when it is the token the
  server would mint for that address and the connection id it carries: a token that is truncated,
  altered in any byte, or bound to an address with another tag is refused, and an echoed token
  gives back the original destination connection id.
\<close>

theorem validate_token_exact:
  assumes "\<And>x. length (sha256 x) = 32"
  shows "validate_token sha256 secret src token = Some dcid \<longleftrightarrow> token = mint_token sha256 secret dcid src"
  using assms by (rule validate_token_iff)

theorem validate_token_exact_witness:
  "validate_token (\<lambda>x. replicate 32 (of_nat (length x))) [1, 2, 3] \<lparr>sa_ip = IpV4 [127, 0, 0, 1], sa_port = 4433\<rparr>
     (mint_token (\<lambda>x. replicate 32 (of_nat (length x))) [1, 2, 3] [9, 8] \<lparr>sa_ip = IpV4 [127, 0, 0, 1], sa_port = 4433\<rparr>)
   = Some [9, 8]"
  using validate_token_exact [of "\<lambda>x. replicate 32 (of_nat (length x))" "[1, 2, 3]"
      "\<lparr>sa_ip = IpV4 [127, 0, 0, 1], sa_port = 4433\<rparr>" _ "[9, 8]"] by simp

end
