(* ===== verification/Config.thy ===== *)
theory Config
  imports Tls Retry_Token
begin

text \<open>
  \<^verbatim>\<open>crates/native/src/config.rs\<close>: the QUIC configurations of the client and of the server. A
  configuration is the record of what has been set on it; whether \<^verbatim>\<open>quiche\<close> or BoringSSL refuses a
  setting is a parameter.
\<close>

definition H3_ALPN :: bytes where "H3_ALPN = as_bytes ''h3''"

record client_config_params =
  cp_verify :: cert_verification
  cp_expected_ip :: "ip_addr option"
  cp_max_idle_timeout_ms :: u64
  cp_max_udp_payload_size :: nat
  cp_initial_max_data :: u64
  cp_initial_max_stream_data :: u64
  cp_initial_max_streams_bidi :: u64
  cp_initial_max_streams_uni :: u64
  cp_dgram_recv_queue :: nat
  cp_dgram_send_queue :: nat

definition client_config_default :: client_config_params where
  "client_config_default =
     \<lparr>cp_verify = PkiDefault, cp_expected_ip = None, cp_max_idle_timeout_ms = 30000,
      cp_max_udp_payload_size = 1350, cp_initial_max_data = 10 * 1024 * 1024,
      cp_initial_max_stream_data = 1024 * 1024, cp_initial_max_streams_bidi = 256,
      cp_initial_max_streams_uni = 256, cp_dgram_recv_queue = 1024, cp_dgram_send_queue = 1024\<rparr>"

record quic_config =
  qc_ssl :: ssl_ctx
  qc_cert_chain :: "string option"
  qc_priv_key :: "string option"
  qc_alpn :: "bytes list"
  qc_max_idle_timeout :: u64
  qc_max_recv_udp_payload_size :: nat
  qc_max_send_udp_payload_size :: nat
  qc_initial_max_data :: u64
  qc_initial_max_stream_data_bidi_local :: u64
  qc_initial_max_stream_data_bidi_remote :: u64
  qc_initial_max_stream_data_uni :: u64
  qc_initial_max_streams_bidi :: u64
  qc_initial_max_streams_uni :: u64
  qc_disable_active_migration :: bool
  qc_dgram :: "(nat \<times> nat) option"

text \<open>
  What \<^verbatim>\<open>quiche\<close> answers; \<open>qa_defaults\<close> is the configuration before anything is set on it, which
  then takes over the TLS context it is made from.
\<close>

record quic_api =
  qa_ssl :: ssl_api
  qa_with_ctx :: "ssl_ctx \<Rightarrow> string option"
  qa_defaults :: quic_config
  qa_set_alpn :: "bytes list \<Rightarrow> string option"
  qa_load_cert :: "string \<Rightarrow> string option"
  qa_load_key :: "string \<Rightarrow> string option"

section \<open>The trust of the client\<close>

text \<open>The roots of the system that parse and that the store takes, one after the other.\<close>

fun load_roots :: "ssl_api \<Rightarrow> bytes list \<Rightarrow> ssl_ctx \<times> nat \<Rightarrow> ssl_ctx \<times> nat" where
  "load_roots B [] (b, loaded) = (b, loaded)"
| "load_roots B (der # rest) (b, loaded) =
     (if ssl_from_der B der \<and> ssl_add_cert B (ctx_roots b) der
      then load_roots B rest (b\<lparr>ctx_roots := ctx_roots b @ [der]\<rparr>, loaded + 1)
      else load_roots B rest (b, loaded))"

definition ip_octets :: "ip_addr \<Rightarrow> bytes" where
  "ip_octets ip = (case ip of IpV4 o4 \<Rightarrow> o4 | IpV6 o6 \<Rightarrow> o6)"

definition apply_pki :: "ssl_api \<Rightarrow> client_config_params \<Rightarrow> ssl_ctx \<Rightarrow> string + ssl_ctx" where
  "apply_pki B p builder =
     (if cp_verify p \<noteq> PkiDefault then Inr builder
      else
        (case load_roots B (ssl_native_certs B) (builder, 0) of
           (builder, loaded) \<Rightarrow>
             if loaded = 0 then Inl ''system certificate store contains no usable roots''
             else
               (case cp_expected_ip p of
                  None \<Rightarrow> Inr builder
                | Some ip \<Rightarrow>
                    if \<not> ssl_set_ip B (ip_octets ip) then Inl ''failed to configure certificate IP verification''
                    else Inr (builder\<lparr>ctx_ip := Some (ip_octets ip)\<rparr>))))"

section \<open>Building a configuration\<close>

definition transport_limits :: "client_config_params \<Rightarrow> quic_config \<Rightarrow> quic_config" where
  "transport_limits p config =
     config\<lparr>qc_max_idle_timeout := cp_max_idle_timeout_ms p,
            qc_max_recv_udp_payload_size := cp_max_udp_payload_size p,
            qc_max_send_udp_payload_size := cp_max_udp_payload_size p,
            qc_initial_max_data := cp_initial_max_data p,
            qc_initial_max_stream_data_bidi_local := cp_initial_max_stream_data p,
            qc_initial_max_stream_data_bidi_remote := cp_initial_max_stream_data p,
            qc_initial_max_stream_data_uni := cp_initial_max_stream_data p,
            qc_initial_max_streams_bidi := cp_initial_max_streams_bidi p,
            qc_initial_max_streams_uni := cp_initial_max_streams_uni p,
            qc_disable_active_migration := True,
            qc_dgram := Some (cp_dgram_recv_queue p, cp_dgram_send_queue p)\<rparr>"

definition config_of_ctx :: "quic_api \<Rightarrow> ssl_ctx \<Rightarrow> string + quic_config" where
  "config_of_ctx A ctx = setter ''quiche config'' (qc_ssl_update (\<lambda>_. ctx)) (qa_with_ctx A ctx) (qa_defaults A)"

text \<open>
  \<^verbatim>\<open>Config::verify_peer\<close> sets the mode of the context the configuration took over, with no callback: it
  replaces whatever was to decide on the peer's certificate before.
\<close>

definition verify_peer :: "bool \<Rightarrow> quic_config \<Rightarrow> quic_config" where
  "verify_peer on config =
     config\<lparr>qc_ssl := (qc_ssl config)\<lparr>ctx_verify := (if on then VerifyPeer else VerifyNone)\<rparr>\<rparr>"

definition build_config :: "quic_api \<Rightarrow> client_config_params \<Rightarrow> string + quic_config" where
  "build_config A p =
     try_then (build_client_tls (qa_ssl A) (cp_verify p)) (\<lambda>builder.
     try_then (apply_pki (qa_ssl A) p builder) (\<lambda>builder.
     try_then (config_of_ctx A builder) (\<lambda>config.
     try_then (setter ''set_application_protos'' (qc_alpn_update (\<lambda>_. [H3_ALPN])) (qa_set_alpn A [H3_ALPN]) config) (\<lambda>config.
       let config = (case cp_verify p of PkiDefault \<Rightarrow> verify_peer True config | _ \<Rightarrow> config)
       in Inr (transport_limits p config)))))"

definition build_server_config :: "quic_api \<Rightarrow> string \<Rightarrow> string \<Rightarrow> string + quic_config" where
  "build_server_config A cert_path key_path =
     (let B = qa_ssl A in
     try_then (setter ''SslContextBuilder'' id (ssl_new B) ssl_ctx_new) (\<lambda>b.
     try_then (setter ''set_min_proto_version'' (ctx_min_proto_update (\<lambda>_. Some TLS1_3)) (ssl_set_min B (Some TLS1_3)) b) (\<lambda>b.
     try_then (setter ''set_max_proto_version'' (ctx_max_proto_update (\<lambda>_. Some TLS1_3)) (ssl_set_max B (Some TLS1_3)) b) (\<lambda>b.
     try_then (config_of_ctx A b) (\<lambda>config.
     try_then (setter (''failed to load certificate '' @ cert_path) (qc_cert_chain_update (\<lambda>_. Some cert_path)) (qa_load_cert A cert_path) config) (\<lambda>config.
     try_then (setter (''failed to load private key '' @ key_path) (qc_priv_key_update (\<lambda>_. Some key_path)) (qa_load_key A key_path) config) (\<lambda>config.
     try_then (setter ''set_application_protos'' (qc_alpn_update (\<lambda>_. [H3_ALPN])) (qa_set_alpn A [H3_ALPN]) config) (\<lambda>config.
       Inr (transport_limits client_config_default config)))))))))"

section \<open>What a configuration guarantees\<close>

lemma setter_Inr [simp]: "setter what f err b = Inr b' \<longleftrightarrow> err = None \<and> b' = f b"
  by (auto simp: setter_def split: option.splits)

lemma load_roots_sound:
  "load_roots B ders (b, n) = (b', n') \<Longrightarrow>
     \<exists>taken. b' = b\<lparr>ctx_roots := ctx_roots b @ taken\<rparr> \<and> n' = n + length taken
       \<and> set taken \<subseteq> {der \<in> set ders. ssl_from_der B der}"
proof (induction B ders "(b, n)" arbitrary: b n rule: load_roots.induct)
  case (1 B b n)
  then show ?case by (intro exI [of _ "[]"]) simp
next
  case (2 B der rest b n)
  show ?case
  proof (cases "ssl_from_der B der \<and> ssl_add_cert B (ctx_roots b) der")
    case True
    with "2.prems" have "load_roots B rest (b\<lparr>ctx_roots := ctx_roots b @ [der]\<rparr>, n + 1) = (b', n')" by simp
    from "2.hyps"(1) [OF True this] obtain taken where
      "b' = b\<lparr>ctx_roots := ctx_roots b @ [der] @ taken\<rparr>" "n' = n + 1 + length taken"
      "set taken \<subseteq> {der \<in> set rest. ssl_from_der B der}" by auto
    with True show ?thesis by (intro exI [of _ "der # taken"]) auto
  next
    case False
    with "2.prems" have "load_roots B rest (b, n) = (b', n')" by auto
    from "2.hyps"(2) [OF False this] show ?thesis by auto
  qed
qed

text \<open>The client profile as it is before the peer's certificate is considered.\<close>

definition chrome_ctx :: ssl_ctx where
  "chrome_ctx =
     ssl_ctx_new\<lparr>ctx_min_proto := Some TLS1_3, ctx_max_proto := Some TLS1_3,
       ctx_curves := ''X25519:P-256:P-384'', ctx_sigalgs := CHROME_SIGALGS, ctx_grease := True, ctx_permute := True\<rparr>"

lemma build_client_tls_Inr:
  "build_client_tls B verify = Inr b \<Longrightarrow>
     b = (case verify of
            PkiDefault \<Rightarrow> chrome_ctx
          | Insecure \<Rightarrow> chrome_ctx\<lparr>ctx_verify := VerifyNone\<rparr>
          | Hashes hs \<Rightarrow> chrome_ctx\<lparr>ctx_verify := VerifyPinned hs\<rparr>)"
  by (auto simp: build_client_tls_def try_then_Inr chrome_ctx_def Let_def split: cert_verification.splits)

lemma apply_pki_Inr:
  assumes "apply_pki B p b = Inr b'" and "ctx_roots b = []" and "ctx_ip b = None"
  shows "if cp_verify p = PkiDefault
    then \<exists>roots. roots \<noteq> [] \<and> set roots \<subseteq> {der \<in> set (ssl_native_certs B). ssl_from_der B der}
      \<and> b' = b\<lparr>ctx_roots := roots, ctx_ip := map_option ip_octets (cp_expected_ip p)\<rparr>
    else b' = b"
proof (cases "cp_verify p = PkiDefault")
  case True
  obtain b1 n where load: "load_roots B (ssl_native_certs B) (b, 0) = (b1, n)" by fastforce
  from load_roots_sound [OF load] assms(2) obtain taken where
    taken: "b1 = b\<lparr>ctx_roots := taken\<rparr>" "n = length taken"
      "set taken \<subseteq> {der \<in> set (ssl_native_certs B). ssl_from_der B der}" by auto
  from assms(1) True load taken have "taken \<noteq> [] \<and> b' = b1\<lparr>ctx_ip := map_option ip_octets (cp_expected_ip p)\<rparr>"
    using assms(3) by (auto simp: apply_pki_def split: option.splits if_splits)
  with True taken show ?thesis by auto
qed (use assms(1) in \<open>simp add: apply_pki_def\<close>)

text \<open>
  A client configuration always speaks TLS 1.3 and HTTP/3 only, and who the server is gets
  checked as the caller asked: by the system's own roots (at least one of them, all usable) with the
  literal address the caller named, by the pinned hashes and nothing else, or, only when the caller
  said so, not at all.
\<close>

lemma build_config_trust:
  assumes "build_config A p = Inr c"
  shows "ctx_min_proto (qc_ssl c) = Some TLS1_3 \<and> ctx_max_proto (qc_ssl c) = Some TLS1_3 \<and> qc_alpn c = [H3_ALPN]
    \<and> (case cp_verify p of
         PkiDefault \<Rightarrow>
           ctx_verify (qc_ssl c) = VerifyPeer \<and> ctx_roots (qc_ssl c) \<noteq> []
           \<and> set (ctx_roots (qc_ssl c)) \<subseteq> {der \<in> set (ssl_native_certs (qa_ssl A)). ssl_from_der (qa_ssl A) der}
           \<and> ctx_ip (qc_ssl c) = map_option ip_octets (cp_expected_ip p)
       | Hashes hs \<Rightarrow> ctx_verify (qc_ssl c) = VerifyPinned hs
       | Insecure \<Rightarrow> ctx_verify (qc_ssl c) = VerifyNone)"
proof -
  from assms obtain b0 b1 where tls: "build_client_tls (qa_ssl A) (cp_verify p) = Inr b0"
    and pki: "apply_pki (qa_ssl A) p b0 = Inr b1"
    and c: "c = transport_limits p
        (case cp_verify p of
           PkiDefault \<Rightarrow> verify_peer True ((qa_defaults A)\<lparr>qc_ssl := b1, qc_alpn := [H3_ALPN]\<rparr>)
         | _ \<Rightarrow> (qa_defaults A)\<lparr>qc_ssl := b1, qc_alpn := [H3_ALPN]\<rparr>)"
    by (auto simp: build_config_def config_of_ctx_def try_then_Inr Let_def)
  note b0 = build_client_tls_Inr [OF tls]
  have "ctx_roots b0 = []" "ctx_ip b0 = None"
    by (simp_all add: b0 chrome_ctx_def ssl_ctx_new_def split: cert_verification.split)
  note b1 = apply_pki_Inr [OF pki this]
  show ?thesis
    using b0 b1 by (cases "cp_verify p") (auto simp: c transport_limits_def verify_peer_def chrome_ctx_def ssl_ctx_new_def)
qed

definition mini_quic_api :: quic_api where
  "mini_quic_api =
     \<lparr>qa_ssl = \<lparr>ssl_new = None, ssl_set_min = (\<lambda>_. None), ssl_set_max = (\<lambda>_. None), ssl_set_curves = (\<lambda>_. None),
        ssl_set_sigalgs = (\<lambda>_. None), ssl_native_certs = [[1], [2]], ssl_from_der = (\<lambda>d. d = [2]),
        ssl_add_cert = (\<lambda>_ _. True), ssl_set_ip = (\<lambda>_. True)\<rparr>,
      qa_with_ctx = (\<lambda>_. None),
      qa_defaults = \<lparr>qc_ssl = ssl_ctx_new, qc_cert_chain = None, qc_priv_key = None, qc_alpn = [],
        qc_max_idle_timeout = 0, qc_max_recv_udp_payload_size = 0,
        qc_max_send_udp_payload_size = 0, qc_initial_max_data = 0, qc_initial_max_stream_data_bidi_local = 0,
        qc_initial_max_stream_data_bidi_remote = 0, qc_initial_max_stream_data_uni = 0,
        qc_initial_max_streams_bidi = 0, qc_initial_max_streams_uni = 0, qc_disable_active_migration = False,
        qc_dgram = None\<rparr>,
      qa_set_alpn = (\<lambda>_. None), qa_load_cert = (\<lambda>_. None), qa_load_key = (\<lambda>_. None)\<rparr>"

lemmas mini_config_simps =
  mini_quic_api_def build_config_def build_client_tls_def apply_pki_def config_of_ctx_def
  transport_limits_def verify_peer_def setter_def client_config_default_def ssl_ctx_new_def Let_def

end
