(* ===== verification/Driver.thy ===== *)
theory Driver
  imports Session_Wire Config
begin

text \<open>
  \<^verbatim>\<open>crates/native/src/driver.rs\<close>: the thread that drives one client session. Its inputs are
  explicit: a \<open>wake\<close> is what one return of \<^verbatim>\<open>poll\<close> finds (the datagrams of the socket, the
  commands of the channel, the back-pressure counter as the JavaScript thread leaves it), and the
  record \<open>net\<close> holds the operations of \<^verbatim>\<open>quiche\<close> and of the socket that only the event loops use.

  The Rust loop collects the events of an iteration in a fresh vector; the operations only push, so
  the model keeps one log per session and the batch of an iteration is what the iteration added.
  The loops that run until \<^verbatim>\<open>quiche\<close> has nothing left get a number of rounds that may depend on
  the connection (\<open>rounds\<close>). Debug output is left out.
\<close>

section \<open>The network\<close>

datatype io_err = WouldBlock | Interrupted | IoOther string

text \<open>
  \<open>n_send_to sent p\<close> is the error of sending the datagram \<open>p\<close> after those in \<open>sent\<close>, if any;
  \<open>n_debug\<close> and \<open>n_display\<close> render errors.
\<close>

record 'c net =
  n_recv :: "'c \<Rightarrow> bytes \<Rightarrow> sock_addr \<Rightarrow> sock_addr \<Rightarrow> (qerr + nat) \<times> 'c"
  n_send :: "'c \<Rightarrow> (qerr + bytes \<times> sock_addr) \<times> 'c"
  n_is_draining :: "'c \<Rightarrow> bool"
  n_send_to :: "(bytes \<times> sock_addr) list \<Rightarrow> bytes \<times> sock_addr \<Rightarrow> io_err option"
  n_debug :: "qerr \<Rightarrow> string"
  n_display :: "io_err \<Rightarrow> string"

section \<open>Shared state and commands\<close>

definition MAX_INFLIGHT_BATCHES :: int where [wt_consts]: "MAX_INFLIGHT_BATCHES = 128"

record driver_shared =
  ds_max_datagram_size :: nat
  ds_ready :: bool
  ds_closed :: bool
  ds_inflight :: int

definition shared_default :: driver_shared where
  "shared_default = \<lparr>ds_max_datagram_size = 0, ds_ready = False, ds_closed = False, ds_inflight = 0\<rparr>"

datatype command =
    OpenStream u64 bool
  | Write u64 bytes u64
  | Fin u64
  | ResetStream u64 u64
  | StopSending u64 u64
  | SetPaused u64 bool
  | SendDatagram bytes u64
  | Close u32 bytes
  | Drain
  | GetStats u64
  | ExportKeyingMaterial u64 bytes bytes u32
  | Shutdown

record 'c driver =
  d_sys :: "'c sys"
  d_shared :: driver_shared
  d_batches :: "ev list list"
  d_sent :: "(bytes \<times> sock_addr) list"

definition emit :: "ev list \<Rightarrow> 'c driver \<Rightarrow> 'c driver" where
  "emit batch d = d\<lparr>d_batches := d_batches d @ [batch]\<rparr>"

definition store_closed :: "'c driver \<Rightarrow> 'c driver" where
  "store_closed d = d\<lparr>d_shared := (d_shared d)\<lparr>ds_closed := True\<rparr>\<rparr>"

section \<open>One wake\<close>

datatype poll_result = PollOk bool | PollErr io_err

text \<open>\<open>PollOk e\<close>: the poll returned, and \<open>e\<close> says whether the set of events is empty.\<close>

record wake =
  w_poll :: poll_result
  w_recv :: "(io_err + bytes \<times> sock_addr) list"
  w_cmds :: "command list"
  w_inflight :: int

text \<open>The datagrams of the socket; when the list is used up the socket would block.\<close>

fun recv_packets ::
  "'c net \<Rightarrow> sock_addr \<Rightarrow> (io_err + bytes \<times> sock_addr) list \<Rightarrow> bool \<times> 'c sys \<Rightarrow> bool \<times> 'c sys" where
  "recv_packets N local_addr [] (got, s) = (got, s)"
| "recv_packets N local_addr (Inr (pkt, src) # rest) (got, s) =
     (if pkt = [] then recv_packets N local_addr rest (got, s)
      else
        (case n_recv N (conn s) pkt src local_addr of
           (r, c) \<Rightarrow>
            (let s = s\<lparr>conn := c\<rparr>;
                 s = (case r of
                        Inr _ \<Rightarrow> s
                      | Inl QDone \<Rightarrow> s
                      | Inl e \<Rightarrow> push_ev (EvError (''quic recv: '' @ n_debug N e)) s)
             in recv_packets N local_addr rest (True, s))))"
| "recv_packets N local_addr (Inl WouldBlock # rest) (got, s) = (got, s)"
| "recv_packets N local_addr (Inl e # rest) (got, s) =
     (got, push_ev (EvError (''socket recv: '' @ n_display N e)) s)"

fun run_command :: "'c quic \<Rightarrow> command \<Rightarrow> 'c sys \<Rightarrow> 'c sys" where
  "run_command Q (OpenStream request_id bidi) s = open_stream bidi request_id s"
| "run_command Q (Write i data request_id) s = stream_write i data request_id s"
| "run_command Q (Fin i) s = stream_fin i s"
| "run_command Q (ResetStream i code) s = stream_reset Q i code s"
| "run_command Q (StopSending i code) s = stream_stop_sending Q i code s"
| "run_command Q (SetPaused i p) s = set_paused i p s"
| "run_command Q (SendDatagram data request_id) s = send_datagram Q data request_id s"
| "run_command Q (Close code reason) s = close code reason s"
| "run_command Q Drain s = send_drain s"
| "run_command Q (GetStats request_id) s = push_ev (build_stats Q (conn s) request_id) s"
| "run_command Q (ExportKeyingMaterial request_id label ctx len) s =
     (case build_keying_material Q (conn s) request_id label ctx len of
        (e, c) \<Rightarrow> push_ev e (s\<lparr>conn := c\<rparr>))"
| "run_command Q Shutdown s = s"

fun drain_commands :: "'c quic \<Rightarrow> command list \<Rightarrow> 'c sys \<Rightarrow> bool \<times> 'c sys" where
  "drain_commands Q [] s = (False, s)"
| "drain_commands Q (cmd # rest) s =
     (if cmd = Shutdown then (True, s) else drain_commands Q rest (run_command Q cmd s))"

text \<open>Draining the send queue; only a full socket buffer stops it early.\<close>

fun flush_send ::
  "nat \<Rightarrow> 'c net \<Rightarrow> 'c \<Rightarrow> (bytes \<times> sock_addr) list \<Rightarrow> ('c \<times> (bytes \<times> sock_addr) list) option" where
  "flush_send 0 N c sent = None"
| "flush_send (Suc n) N c sent =
     (case n_send N c of
        (Inl _, c') \<Rightarrow> Some (c', sent)
      | (Inr p, c') \<Rightarrow>
         (case n_send_to N sent p of
            None \<Rightarrow> flush_send n N c' (sent @ [p])
          | Some WouldBlock \<Rightarrow> Some (c', sent)
          | Some _ \<Rightarrow> flush_send n N c' sent))"

fun on_readables ::
  "('c \<Rightarrow> nat) \<Rightarrow> env \<Rightarrow> 'c quic \<Rightarrow> bool \<Rightarrow> u64 list \<Rightarrow> 'c sys \<Rightarrow> 'c sys outcome" where
  "on_readables rounds E Q backpressured [] s = Done s"
| "on_readables rounds E Q backpressured (i # ids) s =
     (case on_readable (rounds (conn s)) E Q i backpressured s of
        Done s' \<Rightarrow> on_readables rounds E Q backpressured ids s'
      | Panicked \<Rightarrow> Panicked
      | OutOfFuel \<Rightarrow> OutOfFuel)"

definition closure_info :: "'c quic \<Rightarrow> 'c \<Rightarrow> u32 \<times> bytes \<times> bool \<times> string option" where
  "closure_info Q c =
     (case q_peer_error Q c of
        Some (is_app, error_code, reason) \<Rightarrow>
          (if is_app then (ucast error_code, reason, True, None)
           else (0, [], True,
                 Some (''connection terminated by peer transport error '' @ show_hex (unat error_code))))
      | None \<Rightarrow>
         (case q_local_error Q c of
            Some (is_app, error_code, reason) \<Rightarrow>
              (if is_app then (ucast error_code, reason, False, None)
               else (0, [], False,
                     Some (''connection closed by transport error '' @ show_hex (unat error_code))))
          | None \<Rightarrow>
             (if q_is_timed_out Q c then (0, [], False, Some ''connection timed out'')
              else (0, [], True, Some ''connection closed abnormally''))))"

text \<open>The session part of a terminated connection: report how it ended, unless that was done.\<close>

definition report_closure :: "'c quic \<Rightarrow> 'c sys \<Rightarrow> 'c sys" where
  "report_closure Q s =
     (if closed s then s
      else
        (case local_close_info s of
           Some (code, reason) \<Rightarrow> mark_closed code reason False s
         | None \<Rightarrow>
            (case closure_info Q (conn s) of
               (code, reason, remote, err) \<Rightarrow>
                 mark_closed code reason remote
                   (case err of Some msg \<Rightarrow> push_ev (EvError msg) s | None \<Rightarrow> s))))"

datatype 'd loop_next = Continue 'd | Return 'd | PanicAt string 'd | Stuck

definition emit_nonempty :: "ev list \<Rightarrow> 'c driver \<Rightarrow> 'c driver" where
  "emit_nonempty batch d = (if batch \<noteq> [] then emit batch d else d)"

text \<open>From the drained commands to the end of the iteration; \<open>mark\<close> is where its batch starts.\<close>

definition publish :: "'c quic \<Rightarrow> 'c driver \<Rightarrow> 'c driver" where
  "publish Q d =
     d\<lparr>d_shared := (d_shared d)\<lparr>ds_max_datagram_size := max_datagram_size Q (conn (d_sys d)),
                                 ds_ready := is_ready (d_sys d)\<rparr>\<rparr>"

definition finish_wake :: "'c quic \<Rightarrow> nat \<Rightarrow> 'c driver \<Rightarrow> 'c driver loop_next" where
  "finish_wake Q mark d =
     (if q_is_closed Q (conn (d_sys d)) then
        (let s = report_closure Q (d_sys d)
         in Return (emit_nonempty (drop mark (evs s)) (store_closed (d\<lparr>d_sys := s\<rparr>))))
      else Continue (emit_nonempty (drop mark (evs (d_sys d))) d))"

definition drive_session ::
  "('c \<Rightarrow> nat) \<Rightarrow> env \<Rightarrow> 'c quic \<Rightarrow> bool \<Rightarrow> 'c sys \<Rightarrow> 'c sys outcome" where
  "drive_session rounds E Q backpressured s =
     (case (if backpressured then Some s else on_datagrams (rounds (conn s)) Q s) of
        None \<Rightarrow> OutOfFuel
      | Some s1 \<Rightarrow>
         (case on_readables rounds E Q backpressured (q_readable Q (conn s1)) s1 of
            Done s2 \<Rightarrow> Done (flush E Q s2)
          | Panicked \<Rightarrow> Panicked
          | OutOfFuel \<Rightarrow> OutOfFuel))"

definition KEY_MISSING :: string where "KEY_MISSING = ''no entry found for key''"

definition TEST_PANIC :: string where
  "TEST_PANIC = ''RWT_TEST_PANIC: intentional driver-thread panic for containment testing''"

definition drive_wake ::
  "('c \<Rightarrow> nat) \<Rightarrow> env \<Rightarrow> 'c quic \<Rightarrow> 'c net \<Rightarrow> bool \<Rightarrow> nat \<Rightarrow> 'c driver \<Rightarrow> 'c sys \<Rightarrow> 'c driver loop_next" where
  "drive_wake rounds E Q N test_panic mark d s =
     (if q_is_established Q (conn s) \<and> test_panic then PanicAt TEST_PANIC d
      else
        (let s = (if q_is_established Q (conn s) then on_established s else s);
             backpressured = (ds_inflight (d_shared d) \<ge> MAX_INFLIGHT_BATCHES)
         in case drive_session rounds E Q backpressured s of
              OutOfFuel \<Rightarrow> Stuck
            | Panicked \<Rightarrow> PanicAt KEY_MISSING d
            | Done s \<Rightarrow>
               (case flush_send (rounds (conn s)) N (conn s) (d_sent d) of
                  None \<Rightarrow> Stuck
                | Some (c, sent) \<Rightarrow>
                    finish_wake Q mark (publish Q (d\<lparr>d_sys := s\<lparr>conn := c\<rparr>, d_sent := sent\<rparr>)))))"

definition run_wake ::
  "('c \<Rightarrow> nat) \<Rightarrow> env \<Rightarrow> 'c quic \<Rightarrow> 'c net \<Rightarrow> sock_addr \<Rightarrow> bool \<Rightarrow> wake \<Rightarrow> 'c driver \<Rightarrow> 'c driver loop_next" where
  "run_wake rounds E Q N local_addr test_panic w d =
     (case w_poll w of
        PollErr Interrupted \<Rightarrow> Continue d
      | PollErr e \<Rightarrow> Return (emit [EvError (''poll error: '' @ n_display N e)] d)
      | PollOk no_events \<Rightarrow>
         (let mark = length (evs (d_sys d));
              d = d\<lparr>d_shared := (d_shared d)\<lparr>ds_inflight := w_inflight w\<rparr>\<rparr>;
              (got_packet, s) = recv_packets N local_addr (w_recv w) (False, d_sys d);
              s = (if \<not> got_packet \<and> no_events then s\<lparr>conn := q_on_timeout Q (conn s)\<rparr> else s);
              (shutdown, s) = drain_commands Q (w_cmds w) s
          in if shutdown then
               (let c = q_close Q (conn s) True 0 []
                in case flush_send (rounds c) N c (d_sent d) of
                     None \<Rightarrow> Stuck
                   | Some (c, sent) \<Rightarrow> Return (d\<lparr>d_sys := s\<lparr>conn := c\<rparr>, d_sent := sent\<rparr>))
             else drive_wake rounds E Q N test_panic mark d s))"

fun run_wakes ::
  "('c \<Rightarrow> nat) \<Rightarrow> env \<Rightarrow> 'c quic \<Rightarrow> 'c net \<Rightarrow> sock_addr \<Rightarrow> bool \<Rightarrow> wake list \<Rightarrow> 'c driver \<Rightarrow> 'c driver loop_next" where
  "run_wakes rounds E Q N local_addr test_panic [] d = Continue d"
| "run_wakes rounds E Q N local_addr test_panic (w # ws) d =
     (case run_wake rounds E Q N local_addr test_panic w d of
        Continue d' \<Rightarrow> run_wakes rounds E Q N local_addr test_panic ws d'
      | r \<Rightarrow> r)"

definition run_inner ::
  "('c \<Rightarrow> nat) \<Rightarrow> env \<Rightarrow> 'c quic \<Rightarrow> 'c net \<Rightarrow> string option \<Rightarrow> sock_addr \<Rightarrow> bool \<Rightarrow> wake list
    \<Rightarrow> 'c driver \<Rightarrow> 'c driver loop_next" where
  "run_inner rounds E Q N register_err local_addr test_panic ws d =
     (case register_err of
        Some e \<Rightarrow> Return (emit [EvError (''failed to register socket: '' @ e)] d)
      | None \<Rightarrow>
         (let c = conn (d_sys d) in
          case flush_send (rounds c) N c (d_sent d) of
            None \<Rightarrow> Stuck
          | Some (c, sent) \<Rightarrow>
              run_wakes rounds E Q N local_addr test_panic ws
                (d\<lparr>d_sys := (d_sys d)\<lparr>conn := c\<rparr>, d_sent := sent\<rparr>)))"

section \<open>Set-up and the panic boundary\<close>

record session_setup =
  su_host :: string
  su_port :: u16
  su_sni :: "string option"
  su_authority :: string
  su_path :: string
  su_origin :: "string option"
  su_extra_headers :: "(string \<times> string) list"
  su_protocols :: "string list"
  su_config :: client_config_params

text \<open>What name resolution, the socket and \<^verbatim>\<open>quiche\<close> answer.\<close>

record 'c setup_env =
  se_resolve :: "string \<Rightarrow> u16 \<Rightarrow> sock_addr list option"
  se_bind :: "sock_addr \<Rightarrow> string + unit"
  se_local_addr :: "string + sock_addr"
  se_quic :: quic_api
  se_random :: "bytes option \<times> nat"
  se_connect :: "string option \<Rightarrow> bytes \<Rightarrow> sock_addr \<Rightarrow> sock_addr \<Rightarrow> quic_config \<Rightarrow> qerr + 'c"
  se_register :: "string option"

text \<open>The low 128 bits of the clock, least significant byte first.\<close>

definition u128_to_le_bytes :: "nat \<Rightarrow> bytes" where
  "u128_to_le_bytes n = map (\<lambda>i. of_nat (n div 256 ^ i)) [0..<16]"

text \<open>\<open>fst r\<close> is what \<^verbatim>\<open>getrandom\<close> filled in, if it succeeded; \<open>snd r\<close> is the clock in nanoseconds.\<close>

definition random_scid :: "bytes option \<times> nat \<Rightarrow> bytes" where
  "random_scid r = (case fst r of Some b \<Rightarrow> b | None \<Rightarrow> u128_to_le_bytes (snd r))"

definition is_ipv4 :: "sock_addr \<Rightarrow> bool" where
  "is_ipv4 a = (case sa_ip a of IpV4 _ \<Rightarrow> True | IpV6 _ \<Rightarrow> False)"

definition bind_addr :: "sock_addr \<Rightarrow> sock_addr" where
  "bind_addr peer =
     (if is_ipv4 peer then \<lparr>sa_ip = IpV4 (replicate 4 0), sa_port = 0\<rparr>
      else \<lparr>sa_ip = IpV6 (replicate 16 0), sa_port = 0\<rparr>)"

text \<open>How a run stands: waiting for the next wake, returned, or out of rounds.\<close>

datatype run_status = Waiting | Ended | NoRounds

type_synonym run_result = "run_status \<times> driver_shared \<times> ev list list"

definition emit_fatal :: "driver_shared \<Rightarrow> string \<Rightarrow> run_result" where
  "emit_fatal sh message =
     (Ended, sh\<lparr>ds_closed := True\<rparr>, [[EvError message, EvClosed 0 (as_bytes ''setup failed'') False]])"

text \<open>The boundary of \<^verbatim>\<open>run\<close>: a panic anywhere inside is reported instead of unwinding further.\<close>

definition catch_panic :: "'c driver loop_next \<Rightarrow> run_result" where
  "catch_panic r =
     (case r of
        Continue d \<Rightarrow> (Waiting, d_shared d, d_batches d)
      | Return d \<Rightarrow> (Ended, d_shared d, d_batches d)
      | Stuck \<Rightarrow> (NoRounds, shared_default, [])
      | PanicAt msg d \<Rightarrow>
          (Ended, (d_shared d)\<lparr>ds_closed := True\<rparr>,
           d_batches d @ [[EvError (''rwebtransport internal driver error: '' @ msg),
                           EvClosed 0 (as_bytes ''driver panic'') False]]))"

definition driver_start :: "session_setup \<Rightarrow> 'c \<Rightarrow> 'c driver" where
  "driver_start su c =
     \<lparr>d_sys = session_start (new_client (su_authority su) (su_path su) (su_origin su)
                (su_extra_headers su) (su_protocols su)) c,
      d_shared = shared_default, d_batches = [], d_sent = []\<rparr>"

definition run ::
  "('c \<Rightarrow> nat) \<Rightarrow> env \<Rightarrow> 'c quic \<Rightarrow> 'c net \<Rightarrow> bool \<Rightarrow> 'c setup_env \<Rightarrow> session_setup \<Rightarrow> wake list \<Rightarrow> run_result" where
  "run rounds E Q N test_panic SE su ws =
     (case Option.bind (se_resolve SE (su_host su) (su_port su)) (\<lambda>as. case as of [] \<Rightarrow> None | a # _ \<Rightarrow> Some a) of
        None \<Rightarrow> emit_fatal shared_default
                  (''failed to resolve '' @ su_host su @ '':'' @ show_dec (unat (su_port su)))
      | Some peer \<Rightarrow>
         (case se_bind SE (bind_addr peer) of
            Inl e \<Rightarrow> emit_fatal shared_default (''failed to bind UDP socket: '' @ e)
          | Inr _ \<Rightarrow>
             (case se_local_addr SE of
                Inl e \<Rightarrow> emit_fatal shared_default (''failed to read local addr: '' @ e)
              | Inr local_addr \<Rightarrow>
                 (case build_config (se_quic SE) (su_config su) of
                    Inl e \<Rightarrow> emit_fatal shared_default e
                  | Inr cfg \<Rightarrow>
                     (case se_connect SE (su_sni su) (random_scid (se_random SE)) local_addr peer cfg of
                        Inl e \<Rightarrow> emit_fatal shared_default (''quiche connect: '' @ n_debug N e)
                      | Inr c \<Rightarrow>
                          catch_panic (run_inner rounds E Q N (se_register SE) local_addr test_panic ws
                            (driver_start su c)))))))"

end
