(* ===== verification/Driver_Props.thy ===== *)
theory Driver_Props
  imports Driver
begin

text \<open>
  The driver refines the session: what it does to a session is a sequence of the session's own
  operations, and the batches it emits are the session's log, cut into pieces. So the invariants of
  sessions hold under the driver. With enough rounds an iteration always ends, and a run that ends
  reports the end exactly once.
\<close>

section \<open>The driver performs session steps\<close>

abbreviation steps :: "env \<Rightarrow> 'c quic \<Rightarrow> 'c sys \<Rightarrow> 'c sys \<Rightarrow> bool" where
  "steps E Q \<equiv> (session_step E Q)\<^sup>*\<^sup>*"

lemma steps_trans: "steps E Q a b \<Longrightarrow> steps E Q b c \<Longrightarrow> steps E Q a c"
  by (rule rtranclp_trans)

lemma steps_network: "steps E Q s (s\<lparr>conn := c\<rparr>)"
  by (rule r_into_rtranclp) (rule session_step.network)

lemma steps_then: "steps E Q a s \<Longrightarrow> session_step E Q s s' \<Longrightarrow> steps E Q a s'"
  by (rule rtranclp.rtrancl_into_rtrancl)

lemma recv_packets_steps:
  "steps E Q a s \<Longrightarrow> recv_packets N la ps (got, s) = (got', s') \<Longrightarrow> steps E Q a s'"
proof (induction N la ps "(got, s)" arbitrary: got s rule: recv_packets.induct)
  case (2 N la pkt src rest got s)
  have one: "steps E Q a (s\<lparr>conn := c\<rparr>)" "steps E Q a (push_ev (EvError m) (s\<lparr>conn := c\<rparr>))" for c m
    using "2.prems"(1) by (auto intro: steps_then session_step.network session_step.report)
  show ?case
  proof (cases "pkt = []")
    case True
    with 2 show ?thesis by simp
  next
    case False
    obtain r c where r: "n_recv N (conn s) pkt src la = (r, c)" by fastforce
    show ?thesis
      by (rule "2.hyps"(2) [OF False r [symmetric] refl refl])
        (use "2.prems"(2) False r one in \<open>auto split: sum.split qerr.split\<close>)
  qed
qed (auto intro: steps_then session_step.report)

lemma run_command_step: "cmd \<noteq> Shutdown \<Longrightarrow> session_step E Q s (run_command Q cmd s)"
  by (cases cmd) (auto intro: session_step.intros split: prod.split)

lemma drain_commands_steps: "drain_commands Q cmds s = (sd, s') \<Longrightarrow> steps E Q s s'"
proof (induction cmds arbitrary: s)
  case (Cons cmd cmds)
  then show ?case
    by (cases "cmd = Shutdown") (auto intro: converse_rtranclp_into_rtranclp run_command_step)
qed simp

lemma drain_commands_shutdown: "drain_commands Q cmds s = (sd, s') \<Longrightarrow> sd \<longleftrightarrow> Shutdown \<in> set cmds"
  by (induction cmds arbitrary: s) (auto split: if_splits)

lemma on_readables_steps: "on_readables rounds E Q bp ids s = Done s' \<Longrightarrow> steps E Q s s'"
proof (induction ids arbitrary: s)
  case (Cons i ids)
  then show ?case
    by (auto split: outcome.splits intro: converse_rtranclp_into_rtranclp session_step.readable)
qed simp

lemma drive_session_steps: "drive_session rounds E Q bp s = Done s' \<Longrightarrow> steps E Q s s'"
proof -
  assume d: "drive_session rounds E Q bp s = Done s'"
  then obtain s1 s2 where s1: "(if bp then Some s else on_datagrams (rounds (conn s)) Q s) = Some s1"
    and s2: "on_readables rounds E Q bp (q_readable Q (conn s1)) s1 = Done s2" and s': "s' = flush E Q s2"
    by (auto simp: drive_session_def split: option.splits outcome.splits if_splits)
  have "steps E Q s s1" using s1 by (auto split: if_splits intro: session_step.datagrams)
  then show ?thesis
    using on_readables_steps [OF s2] s' by (auto intro: steps_trans steps_then session_step.flushed)
qed

lemma report_closure_steps: "steps E Q s (report_closure Q s)"
  by (auto simp: report_closure_def split: option.split prod.split
      intro: converse_rtranclp_into_rtranclp session_step.report session_step.closing)

lemma report_closure_closed [simp]: "closed (report_closure Q s)"
  by (simp add: report_closure_def split: option.split prod.split)

section \<open>Nothing is lost between the log and the batches\<close>

definition told :: "'c driver \<Rightarrow> bool" where
  "told d \<longleftrightarrow> concat (d_batches d) = evs (d_sys d)"

lemma steps_log: "steps E Q s s' \<Longrightarrow> evs s' = evs s @ drop (length (evs s)) (evs s')"
  using ev.session_steps_rel [of E Q s s'] by (auto simp: evolves_def)

lemma concat_emit_nonempty [simp]: "concat (d_batches (emit_nonempty b d)) = concat (d_batches d) @ b"
  by (simp add: emit_nonempty_def emit_def)

lemma emit_nonempty_simps [simp]:
  "d_sys (emit_nonempty b d) = d_sys d" "d_shared (emit_nonempty b d) = d_shared d"
  by (simp_all add: emit_nonempty_def emit_def)

lemma driver_simps [simp]:
  "d_sys (store_closed d) = d_sys d" "d_batches (store_closed d) = d_batches d" "ds_closed (d_shared (store_closed d))"
  "d_sys (publish Q d) = d_sys d" "d_batches (publish Q d) = d_batches d"
  "ds_closed (d_shared (publish Q d)) = ds_closed (d_shared d)"
  by (simp_all add: store_closed_def publish_def)

text \<open>How an iteration that was not cut short ends.\<close>

definition wake_ok :: "env \<Rightarrow> 'c quic \<Rightarrow> 'c driver \<Rightarrow> 'c driver loop_next \<Rightarrow> bool" where
  "wake_ok E Q d r =
     (case r of
        Continue d' \<Rightarrow> steps E Q (d_sys d) (d_sys d') \<and> told d' \<and> ds_closed (d_shared d') = ds_closed (d_shared d)
      | Return d' \<Rightarrow> steps E Q (d_sys d) (d_sys d') \<and> told d' \<and> closed (d_sys d') \<and> ds_closed (d_shared d')
      | PanicAt _ d' \<Rightarrow> d_sys d' = d_sys d \<and> d_batches d' = d_batches d
      | Stuck \<Rightarrow> True)"

lemma finish_wake_ok:
  assumes "steps E Q (d_sys d0) (d_sys d)" and "d_batches d = d_batches d0" and "told d0"
    and "ds_closed (d_shared d) = ds_closed (d_shared d0)"
  shows "wake_ok E Q d0 (finish_wake Q (length (evs (d_sys d0))) d)"
proof -
  have st: "steps E Q (d_sys d0) (report_closure Q (d_sys d))"
    using assms(1) report_closure_steps steps_trans by blast
  show ?thesis
    using assms steps_log [OF assms(1)] steps_log [OF st] st
    by (simp add: finish_wake_def wake_ok_def told_def Let_def)
qed

lemma drive_wake_ok:
  assumes "steps E Q (d_sys d0) s" and "told d0" and "d_batches d = d_batches d0" and "d_sys d = d_sys d0"
    and "ds_closed (d_shared d) = ds_closed (d_shared d0)"
  shows "wake_ok E Q d0 (drive_wake rounds E Q N tp (length (evs (d_sys d0))) d s)"
proof -
  let ?s = "if q_is_established Q (conn s) then on_established s else s"
  have s: "steps E Q (d_sys d0) ?s" using assms(1) by (auto intro: steps_then session_step.established)
  show ?thesis
  proof (cases "drive_session rounds E Q (ds_inflight (d_shared d) \<ge> MAX_INFLIGHT_BATCHES) ?s")
    case (Done s1)
    then have s1: "steps E Q (d_sys d0) s1" using s drive_session_steps steps_trans by blast
    have net: "steps E Q (d_sys d0) (s1\<lparr>conn := c\<rparr>)" for c using s1 by (auto intro: steps_then session_step.network)
    have fin: "wake_ok E Q d0 (finish_wake Q (length (evs (d_sys d0)))
        (publish Q (d\<lparr>d_sys := s1\<lparr>conn := c\<rparr>, d_sent := sent\<rparr>)))" for c sent
      by (rule finish_wake_ok) (simp_all add: net assms)
    from Done fin assms(2-4) show ?thesis
      by (auto simp: drive_wake_def Let_def wake_ok_def [of _ _ _ "PanicAt _ _"] wake_ok_def [of _ _ _ Stuck]
          split: option.split)
  qed (use assms in \<open>auto simp: drive_wake_def Let_def wake_ok_def\<close>)
qed

text \<open>A wake that neither fails to poll nor brings the shutdown command.\<close>

definition plain_wake :: "wake \<Rightarrow> bool" where
  "plain_wake w \<longleftrightarrow> Shutdown \<notin> set (w_cmds w) \<and> (\<forall>e. w_poll w = PollErr e \<longrightarrow> e = Interrupted)"

lemma run_wake_ok:
  assumes "told d" and "plain_wake w"
  shows "wake_ok E Q d (run_wake rounds E Q N la tp w d)"
proof (cases "w_poll w")
  case (PollErr e)
  with assms show ?thesis by (simp add: run_wake_def plain_wake_def wake_ok_def)
next
  case (PollOk no_events)
  obtain got s1 where r: "recv_packets N la (w_recv w) (False, d_sys d) = (got, s1)" by fastforce
  have s1: "steps E Q (d_sys d) s1" using recv_packets_steps [OF _ r] by blast
  let ?s2 = "if \<not> got \<and> no_events then s1\<lparr>conn := q_on_timeout Q (conn s1)\<rparr> else s1"
  have s2: "steps E Q (d_sys d) ?s2" using s1 by (auto intro: steps_then session_step.network)
  obtain sd s3 where c: "drain_commands Q (w_cmds w) ?s2 = (sd, s3)" by fastforce
  have sd: "\<not> sd" using drain_commands_shutdown [OF c] assms(2) by (simp add: plain_wake_def)
  have s3: "steps E Q (d_sys d) s3" using steps_trans [OF s2 drain_commands_steps [OF c]] .
  show ?thesis
    using PollOk r c sd by (simp add: run_wake_def Let_def) (rule drive_wake_ok [OF s3 assms(1)]; simp)
qed

lemma run_wakes_ok:
  "told d \<Longrightarrow> list_all plain_wake ws \<Longrightarrow>
   (case run_wakes rounds E Q N la tp ws d of
      Continue d' \<Rightarrow> steps E Q (d_sys d) (d_sys d') \<and> told d' \<and> ds_closed (d_shared d') = ds_closed (d_shared d)
    | Return d' \<Rightarrow> steps E Q (d_sys d) (d_sys d') \<and> told d' \<and> closed (d_sys d') \<and> ds_closed (d_shared d')
    | PanicAt _ d' \<Rightarrow> steps E Q (d_sys d) (d_sys d') \<and> told d'
    | Stuck \<Rightarrow> True)"
proof (induction ws arbitrary: d)
  case (Cons w ws)
  have ok: "wake_ok E Q d (run_wake rounds E Q N la tp w d)" using Cons.prems by (simp add: run_wake_ok)
  show ?case
  proof (cases "run_wake rounds E Q N la tp w d")
    case (Continue d1)
    with ok have d1: "steps E Q (d_sys d) (d_sys d1)" "told d1" "ds_closed (d_shared d1) = ds_closed (d_shared d)"
      by (simp_all add: wake_ok_def)
    from Cons.IH [OF d1(2)] Cons.prems(2) Continue d1 show ?thesis
      by (auto split: loop_next.splits intro: steps_trans)
  qed (use ok Cons.prems in \<open>auto simp: wake_ok_def told_def\<close>)
qed simp

text \<open>
  The ends of a run: the connection is closed and that is reported, polling fails, or the application
  shuts the session down. The last two leave what was emitted before and report no end of their own.
\<close>

definition ends_by :: "env \<Rightarrow> 'c quic \<Rightarrow> 'c net \<Rightarrow> wake \<Rightarrow> 'c driver \<Rightarrow> 'c driver \<Rightarrow> bool" where
  "ends_by E Q N w d d' \<longleftrightarrow>
     steps E Q (d_sys d) (d_sys d') \<and> told d' \<and> closed (d_sys d') \<and> ds_closed (d_shared d')
     \<or> (\<exists>e. w_poll w = PollErr e \<and> e \<noteq> Interrupted \<and> d' = emit [EvError (''poll error: '' @ n_display N e)] d)
     \<or> (\<exists>b. w_poll w = PollOk b) \<and> Shutdown \<in> set (w_cmds w) \<and> d_batches d' = d_batches d
        \<and> ds_closed (d_shared d') = ds_closed (d_shared d)"

lemma run_wake_ends_by:
  assumes "told d" and "run_wake rounds E Q N la tp w d = Return d'"
  shows "ends_by E Q N w d d'"
proof (cases "plain_wake w")
  case True
  from run_wake_ok [OF assms(1) True, of E Q rounds N la tp] assms(2) show ?thesis
    by (simp add: wake_ok_def ends_by_def)
next
  case False
  show ?thesis
  proof (cases "w_poll w")
    case (PollErr e)
    with False assms(2) show ?thesis by (cases e) (auto simp: run_wake_def ends_by_def plain_wake_def)
  next
    case (PollOk no_events)
    with False have sd: "Shutdown \<in> set (w_cmds w)" by (simp add: plain_wake_def)
    obtain got s1 where r: "recv_packets N la (w_recv w) (False, d_sys d) = (got, s1)" by fastforce
    let ?s2 = "if \<not> got \<and> no_events then s1\<lparr>conn := q_on_timeout Q (conn s1)\<rparr> else s1"
    obtain b s3 where c: "drain_commands Q (w_cmds w) ?s2 = (b, s3)" by fastforce
    have b using drain_commands_shutdown [OF c] sd by blast
    with PollOk r c sd assms(2) show ?thesis
      by (auto simp: run_wake_def ends_by_def Let_def split: option.splits)
  qed
qed

lemma run_wake_continues:
  assumes "told d" and "run_wake rounds E Q N la tp w d = Continue d'"
  shows "steps E Q (d_sys d) (d_sys d') \<and> told d' \<and> ds_closed (d_shared d') = ds_closed (d_shared d)"
proof (cases "plain_wake w")
  case True
  from run_wake_ok [OF assms(1) True, of E Q rounds N la tp] assms(2) show ?thesis by (simp add: wake_ok_def)
next
  case False
  show ?thesis
  proof (cases "w_poll w")
    case (PollErr e)
    with assms show ?thesis by (cases e) (simp_all add: run_wake_def)
  next
    case (PollOk no_events)
    with False have sd: "Shutdown \<in> set (w_cmds w)" by (simp add: plain_wake_def)
    obtain got s1 where r: "recv_packets N la (w_recv w) (False, d_sys d) = (got, s1)" by fastforce
    obtain b s3 where c: "drain_commands Q (w_cmds w) (if \<not> got \<and> no_events then s1\<lparr>conn := q_on_timeout Q (conn s1)\<rparr> else s1) = (b, s3)"
      by fastforce
    have b using drain_commands_shutdown [OF c] sd by blast
    with PollOk r c assms(2) show ?thesis by (simp add: run_wake_def Let_def split: option.splits prod.splits)
  qed
qed

lemma run_wakes_ends_by:
  "told d \<Longrightarrow>
   (case run_wakes rounds E Q N la tp ws d of
      Continue d' \<Rightarrow> steps E Q (d_sys d) (d_sys d') \<and> told d' \<and> ds_closed (d_shared d') = ds_closed (d_shared d)
    | Return d' \<Rightarrow> (\<exists>w\<in>set ws. \<exists>d1. steps E Q (d_sys d) (d_sys d1) \<and> told d1
          \<and> ds_closed (d_shared d1) = ds_closed (d_shared d) \<and> ends_by E Q N w d1 d')
    | _ \<Rightarrow> True)"
proof (induction ws arbitrary: d)
  case (Cons w ws)
  show ?case
  proof (cases "run_wake rounds E Q N la tp w d")
    case (Continue d1)
    note d1 = run_wake_continues [OF Cons.prems Continue]
    then have "told d1" by simp
    from Cons.IH [OF this] Continue d1 show ?thesis
      by (auto split: loop_next.splits intro: steps_trans)
  next
    case (Return d1)
    from run_wake_ends_by [OF Cons.prems Return] Return Cons.prems show ?thesis by auto
  qed simp_all
qed simp

section \<open>Iterations end\<close>

text \<open>
  What the loops rely on: reading and sending use up what the connection holds for the
  application (\<open>pend\<close>) and for the network (\<open>queued\<close>), and there are more rounds than either.
\<close>

definition loop_laws ::
  "'c quic \<Rightarrow> 'c net \<Rightarrow> ('c \<Rightarrow> nat) \<Rightarrow> ('c \<Rightarrow> nat) \<Rightarrow> ('c \<Rightarrow> nat) \<Rightarrow> bool" where
  "loop_laws Q N rounds pend queued \<longleftrightarrow>
     recv_laws Q pend \<and> (\<forall>c p c'. n_send N c = (Inr p, c') \<longrightarrow> queued c' < queued c)
     \<and> (\<forall>c. pend c < rounds c \<and> queued c < rounds c)"

lemma flush_send_ends:
  assumes "\<And>c p c'. n_send N c = (Inr p, c') \<Longrightarrow> queued c' < (queued c :: nat)" and "queued c < n"
  shows "flush_send n N c sent \<noteq> None"
  using assms(2)
proof (induction n arbitrary: c sent)
  case (Suc n)
  show ?case
  proof (cases "n_send N c")
    case (Pair r c')
    show ?thesis
    proof (cases r)
      case (Inr p)
      then have "queued c' < n" using assms(1) [of c p c'] Suc.prems Pair by simp
      from Suc.IH [OF this] Pair Inr show ?thesis by (simp split: option.split io_err.split)
    qed (use Pair in simp)
  qed
qed simp

lemma on_datagrams_ends:
  assumes "recv_laws Q pend" and "pend (conn s) < n"
  shows "on_datagrams n Q s \<noteq> None"
  using assms(2)
proof (induction n arbitrary: s)
  case (Suc n)
  obtain r c where r: "q_dgram_recv Q (conn s) 65536 = (r, c)" by fastforce
  show ?case
  proof (cases r)
    case (Inr d)
    let ?s = "case read_varint d of None \<Rightarrow> s\<lparr>conn := c\<rparr>
        | Some (qsi, off) \<Rightarrow> if qsi = CONNECT_ID div 4 then push_ev (EvDatagram (drop off d)) (s\<lparr>conn := c\<rparr>)
           else s\<lparr>conn := c\<rparr>"
    have "pend c < pend (conn s)" using assms(1) r Inr unfolding recv_laws_def by blast
    moreover have "conn ?s = c" by (simp add: push_ev_def split: option.split)
    ultimately have "pend (conn ?s) < n" using Suc.prems by simp
    from Suc.IH [OF this] show ?thesis using r Inr by (simp add: Let_def)
  qed (use r in simp)
qed simp

lemma on_readables_ends:
  assumes "recv_laws Q pend" and "\<And>c. pend c < rounds c"
  shows "\<exists>s'. on_readables rounds E Q bp ids s = Done s'"
proof (induction ids arbitrary: s)
  case (Cons i ids)
  obtain s1 where "on_readable (rounds (conn s)) E Q i bp s = Done s1" using on_readable_ends [OF assms] by blast
  with Cons show ?case by simp
qed simp

lemma drive_session_ends:
  assumes "loop_laws Q N rounds pend queued"
  shows "\<exists>s'. drive_session rounds E Q bp s = Done s'"
proof -
  have l: "recv_laws Q pend" "\<And>c. pend c < rounds c" using assms by (auto simp: loop_laws_def)
  obtain s1 where s1: "(if bp then Some s else on_datagrams (rounds (conn s)) Q s) = Some s1"
    using on_datagrams_ends [OF l(1) l(2)] by (cases bp) auto
  obtain s2 where "on_readables rounds E Q bp (q_readable Q (conn s1)) s1 = Done s2"
    using on_readables_ends [OF l] by blast
  with s1 show ?thesis by (simp add: drive_session_def)
qed

lemma flush_send_Some:
  assumes "loop_laws Q N rounds pend queued"
  shows "\<exists>c' sent'. flush_send (rounds c) N c sent = Some (c', sent')"
  using flush_send_ends [of N queued c "rounds c" sent] assms by (auto simp: loop_laws_def)

definition goes_on :: "'d loop_next \<Rightarrow> bool" where
  "goes_on r = (case r of Continue _ \<Rightarrow> True | Return _ \<Rightarrow> True | _ \<Rightarrow> False)"

lemma goes_on_simps [simp]:
  "goes_on (Continue d)" "goes_on (Return d)" "\<not> goes_on (PanicAt m d)" "\<not> goes_on Stuck"
  by (simp_all add: goes_on_def)

lemma run_wake_ends:
  assumes "loop_laws Q N rounds pend queued"
  shows "goes_on (run_wake rounds E Q N la False w d)"
proof -
  have dw: "goes_on (drive_wake rounds E Q N False mark d s)" for mark s and d :: "'a driver"
  proof -
    let ?s = "if q_is_established Q (conn s) then on_established s else s"
    obtain s1 where s1: "drive_session rounds E Q (MAX_INFLIGHT_BATCHES \<le> ds_inflight (d_shared d)) ?s = Done s1"
      using drive_session_ends [OF assms] by blast
    obtain c sent where f: "flush_send (rounds (conn s1)) N (conn s1) (d_sent d) = Some (c, sent)"
      using flush_send_Some [OF assms] by blast
    show ?thesis using s1 f by (simp add: drive_wake_def finish_wake_def Let_def)
  qed
  have "flush_send (rounds c) N c sent \<noteq> None" for c sent using flush_send_Some [OF assms] by fastforce
  with dw show ?thesis
    by (auto simp: run_wake_def Let_def simp del: not_None_eq
        split: poll_result.split io_err.split prod.split option.split)
qed

lemma run_wakes_end:
  assumes "loop_laws Q N rounds pend queued"
  shows "goes_on (run_wakes rounds E Q N la False ws d)"
proof (induction ws arbitrary: d)
  case (Cons w ws)
  show ?case
    using Cons.IH run_wake_ends [OF assms, of E la w d]
    by (cases "run_wake rounds E Q N la False w d") simp_all
qed simp

section \<open>Properties\<close>

lemma told_start [simp]: "told (driver_start su c)"
  by (simp add: told_def driver_start_def session_start_def)

lemma told_conn [simp]: "told (d\<lparr>d_sys := (d_sys d)\<lparr>conn := c\<rparr>, d_sent := sent\<rparr>) = told d"
  by (simp add: told_def)

text \<open>
  Claim C14. The driver refines the session: over any wakes without shutdown or poll failure, whatever
  arrives, what it did to the session is a sequence of the session's own operations, and the
  batches it has handed to the application, put together, are exactly the session's log of events:
  none lost, repeated or reordered. So every invariant of sessions holds under the driver.
\<close>

theorem driver_refines_session:
  assumes "list_all plain_wake ws"
    and "run_wakes rounds E Q N la tp ws (driver_start su c) = Continue d
      \<or> run_wakes rounds E Q N la tp ws (driver_start su c) = Return d"
  shows "(session_step E Q)\<^sup>*\<^sup>* (d_sys (driver_start su c)) (d_sys d) \<and> concat (d_batches d) = evs (d_sys d)"
  using run_wakes_ok [where rounds = rounds and E = E and Q = Q and N = N and la = la and tp = tp,
      OF told_start assms(1), of su c] assms(2)
  by (auto simp: told_def)

text \<open>
  Claim C16. How a client run ends, for whatever the operating system, the network and the application
  do (without the hook of the tests that makes the driver panic). No loop of it hangs, at most
  one Closed event is emitted, and the shared \<^verbatim>\<open>closed\<close> flag is set only when the run has ended. If
  set-up fails or the connection terminates, whichever side closed, the run ends with exactly one Closed
  event and the flag set. In three cases it ends without setting the flag: the socket cannot be
  registered or polling fails, and then the error is the last batch, or the application asked for the shutdown.
\<close>

theorem run_reports_end_once:
  assumes "loop_laws Q N rounds pend queued"
    and "run rounds E Q N False SE su ws = (status, sh, batches)"
  shows "status \<noteq> NoRounds \<and> n_closed (concat batches) \<le> 1 \<and> (ds_closed sh \<longrightarrow> status = Ended \<and> n_closed (concat batches) = 1)
    \<and> (status = Ended \<and> \<not> ds_closed sh \<longrightarrow>
         (\<exists>e. se_register SE = Some e \<and> batches = [[EvError (''failed to register socket: '' @ e)]])
         \<or> (\<exists>w\<in>set ws. \<exists>e bs. w_poll w = PollErr e \<and> e \<noteq> Interrupted
              \<and> batches = bs @ [[EvError (''poll error: '' @ n_display N e)]])
         \<or> (\<exists>w\<in>set ws. \<exists>b. w_poll w = PollOk b \<and> Shutdown \<in> set (w_cmds w)))"
proof -
  have fatal: ?thesis if "emit_fatal shared_default m = (status, sh, batches)" for m
    using that by (auto simp: emit_fatal_def n_closed_def)
  have inner: ?thesis
    if r: "catch_panic (run_inner rounds E Q N (se_register SE) la False ws (driver_start su c)) = (status, sh, batches)" for la c
  proof (cases "se_register SE")
    case (Some e)
    with r show ?thesis
      by (auto simp: run_inner_def catch_panic_def emit_def driver_start_def shared_default_def n_closed_def)
  next
    case None
    let ?d = "driver_start su c"
    obtain c1 sent where f: "flush_send (rounds (conn (d_sys ?d))) N (conn (d_sys ?d)) (d_sent ?d) = Some (c1, sent)"
      using flush_send_Some [OF assms(1)] by blast
    let ?d1 = "?d\<lparr>d_sys := (d_sys ?d)\<lparr>conn := c1\<rparr>, d_sent := sent\<rparr>"
    have e: "run_inner rounds E Q N (se_register SE) la False ws ?d = run_wakes rounds E Q N la False ws ?d1"
      using f by (simp add: None run_inner_def Let_def)
    have count: "n_closed (concat (d_batches d)) = of_bool (closed (d_sys d))"
      if "steps E Q (d_sys ?d1) (d_sys d)" "told d" for d
      using ev.session_steps_rel [OF that(1)] that(2)
      by (auto simp: evolves_def told_def driver_start_def session_start_def new_client_def)
    have t: "told ?d1" by simp
    note ok = run_wakes_ends_by [where rounds = rounds and E = E and Q = Q and N = N and la = la and tp = False, OF t, of ws]
    have sh: "\<not> ds_closed (d_shared ?d1)" by (simp add: driver_start_def shared_default_def)
    show ?thesis
    proof (cases "run_wakes rounds E Q N la False ws ?d1")
      case (Continue d)
      with ok count [of d] r e sh show ?thesis by (auto simp: catch_panic_def)
    next
      case (Return d)
      from ok Return obtain w d2 where w: "w \<in> set ws" and d2: "steps E Q (d_sys ?d1) (d_sys d2)" "told d2"
          "\<not> ds_closed (d_shared d2)" and ends: "ends_by E Q N w d2 d"
        using sh by auto
      have "n_closed (concat (d_batches d2)) \<le> 1" using count [OF d2(1,2)] by simp
      moreover have "status = Ended \<and> sh = d_shared d \<and> batches = d_batches d" using r e Return by (simp add: catch_panic_def)
      moreover have "n_closed (concat (d_batches d)) = 1" if "steps E Q (d_sys d2) (d_sys d)" "told d" "closed (d_sys d)"
        using count [OF steps_trans [OF d2(1) that(1)] that(2)] that(3) by simp
      ultimately show ?thesis using ends w d2(3)
        unfolding ends_by_def by (elim disjE exE conjE) (auto simp: emit_def n_closed_def)
    qed (use run_wakes_end [OF assms(1), of E la ws ?d1] in auto)
  qed
  from assms(2) fatal inner show ?thesis
    unfolding run_def by (auto split: option.splits sum.splits)
qed

text \<open>A network that accepts every datagram and has nothing to send.\<close>

definition mini_net :: "mini net" where
  "mini_net =
     \<lparr>n_recv = (\<lambda>c pkt src dst. (Inr (length pkt), c\<lparr>mi_dgrams := mi_dgrams c @ [pkt]\<rparr>)),
      n_send = (\<lambda>c. (Inl QDone, c)), n_is_draining = (\<lambda>_. False), n_send_to = (\<lambda>_ _. None),
      n_debug = (\<lambda>_. []), n_display = (\<lambda>_. [])\<rparr>"

definition mini_addr :: sock_addr where
  "mini_addr = \<lparr>sa_ip = IpV4 [127, 0, 0, 1], sa_port = 443\<rparr>"

definition mini_setup :: session_setup where
  "mini_setup = \<lparr>su_host = ''h'', su_port = 443, su_sni = None, su_authority = ''h'', su_path = ''/'',
     su_origin = None, su_extra_headers = [], su_protocols = [], su_config = client_config_default\<rparr>"

definition mini_setup_env :: "sock_addr list option \<Rightarrow> mini setup_env" where
  "mini_setup_env addrs =
     \<lparr>se_resolve = (\<lambda>_ _. addrs), se_bind = (\<lambda>_. Inr ()), se_local_addr = Inr mini_addr, se_quic = mini_quic_api,
      se_random = (None, 0), se_connect = (\<lambda>_ _ _ _ _. Inr mini_idle), se_register = None\<rparr>"

lemma mini_loop_laws: "loop_laws mini_quic mini_net (\<lambda>c. Suc (mini_pend c)) mini_pend (\<lambda>_. 0)"
  by (simp add: loop_laws_def mini_recv_laws mini_net_def)

definition mini_wake :: wake where
  "mini_wake = \<lparr>w_poll = PollOk False, w_recv = [Inr ([0, 104, 105], mini_addr)], w_cmds = [GetStats 1, Close 0 []],
     w_inflight = 0\<rparr>"

theorem driver_refines_session_witness:
  "\<exists>d. (run_wakes (\<lambda>c. Suc (mini_pend c)) (mini_env []) mini_quic mini_net mini_addr False [mini_wake, mini_wake]
        (driver_start mini_setup mini_idle) \<in> {Continue d, Return d})
     \<and> concat (d_batches d) = evs (d_sys d)"
proof -
  let ?r = "run_wakes (\<lambda>c. Suc (mini_pend c)) (mini_env []) mini_quic mini_net mini_addr False [mini_wake, mini_wake]
        (driver_start mini_setup mini_idle)"
  have p: "list_all plain_wake [mini_wake, mini_wake]" by (simp add: plain_wake_def mini_wake_def)
  have "goes_on ?r" by (rule run_wakes_end [OF mini_loop_laws])
  then obtain d where d: "?r = Continue d \<or> ?r = Return d" by (cases ?r) auto
  from driver_refines_session [OF p d] d show ?thesis by blast
qed

text \<open>
  A set-up that fails, one whose socket cannot be registered, and a run that is shut down: only the
  first reports a Closed event.
\<close>

definition shutdown_wake :: wake where
  "shutdown_wake = \<lparr>w_poll = PollOk False, w_recv = [], w_cmds = [Shutdown], w_inflight = 0\<rparr>"

theorem run_reports_end_once_witness:
  "(\<exists>sh batches. run (\<lambda>c. Suc (mini_pend c)) (mini_env []) mini_quic mini_net False (mini_setup_env None) mini_setup []
      = (Ended, sh, batches) \<and> ds_closed sh \<and> n_closed (concat batches) = 1)
   \<and> (\<exists>sh batches. run (\<lambda>c. Suc (mini_pend c)) (mini_env []) mini_quic mini_net False
        ((mini_setup_env (Some [mini_addr]))\<lparr>se_register := Some ''no''\<rparr>) mini_setup [] = (Ended, sh, batches)
      \<and> batches = [[EvError ''failed to register socket: no'']])
   \<and> (\<exists>sh batches. run (\<lambda>c. Suc (mini_pend c)) (mini_env []) mini_quic mini_net False (mini_setup_env (Some [mini_addr]))
        mini_setup [shutdown_wake] = (Ended, sh, batches) \<and> \<not> ds_closed sh \<and> n_closed (concat batches) \<le> 1)"
proof -
  let ?run = "run (\<lambda>c. Suc (mini_pend c)) (mini_env []) mini_quic mini_net False"
  obtain sh1 bs1 where 1: "?run (mini_setup_env None) mini_setup [] = (Ended, sh1, bs1)" "ds_closed sh1"
    by (simp add: run_def mini_setup_env_def emit_fatal_def)
  have cfg: "\<exists>c. build_config mini_quic_api client_config_default = Inr c" by (simp add: mini_config_simps)
  obtain sh2 bs2 where 2: "?run ((mini_setup_env (Some [mini_addr]))\<lparr>se_register := Some ''no''\<rparr>) mini_setup [] = (Ended, sh2, bs2)"
      "\<not> ds_closed sh2"
    using cfg by (auto simp: run_def mini_setup_env_def mini_setup_def run_inner_def catch_panic_def emit_def
        driver_start_def shared_default_def)
  obtain sh3 bs3 where 3: "?run (mini_setup_env (Some [mini_addr])) mini_setup [shutdown_wake] = (Ended, sh3, bs3)" "\<not> ds_closed sh3"
    using cfg by (auto simp: run_def mini_setup_env_def mini_setup_def run_inner_def catch_panic_def shutdown_wake_def
        run_wake_def mini_net_def driver_start_def session_start_def shared_default_def Let_def)
  from run_reports_end_once [OF mini_loop_laws 1(1)] run_reports_end_once [OF mini_loop_laws 2(1)]
    run_reports_end_once [OF mini_loop_laws 3(1)] 1 2 3
  show ?thesis by (auto simp: mini_setup_env_def)
qed

end
