(* ===== verification/Server.thy ===== *)
theory Server
  imports Driver_Props
begin

text \<open>
  \<^verbatim>\<open>crates/native/src/server.rs\<close>: the thread that owns the listening socket and a table of
  connections, each with its session. The three hash maps are association lists; the order in
  which \<^verbatim>\<open>values_mut\<close> visits the table is a parameter. As in \<open>Driver\<close>, a wake carries the inputs of one
  iteration and \<open>rounds\<close> bounds the loops over \<^verbatim>\<open>quiche\<close>.

  All sessions share the server's parser budget. It is kept once, in the server state, and lent to
  a session (as the parent of its own budget) for the time of an operation on it.
\<close>

section \<open>Constants, commands and messages\<close>

definition LOCAL_CONN_ID_LEN :: nat where [wt_consts]: "LOCAL_CONN_ID_LEN = 16"
definition SERVER_MAX_INFLIGHT :: int where [wt_consts]: "SERVER_MAX_INFLIGHT = 128"
definition MAX_CONNECTIONS :: nat where [wt_consts]: "MAX_CONNECTIONS = 16384"
definition MAX_PARSER_MEMORY :: nat where [wt_consts]: "MAX_PARSER_MEMORY = 64 * 1024 * 1024"
definition MAX_RECV_PER_WAKE :: nat where [wt_consts]: "MAX_RECV_PER_WAKE = 1024"

datatype server_command =
    SOpenStream u64 u64 bool
  | SWrite u64 u64 bytes u64
  | SFin u64 u64
  | SResetStream u64 u64 u64
  | SStopSending u64 u64 u64
  | SSetPaused u64 u64 bool
  | SSendDatagram u64 bytes u64
  | SCloseSession u64 u32 bytes
  | SDrain u64
  | SGetStats u64 u64
  | SExportKeyingMaterial u64 u64 bytes bytes u32
  | SShutdown

datatype server_msg =
    Listening u16
  | ServerError string
  | ServerClosed
  | SessionMsg u64 ev

record server_setup =
  sv_host :: string
  sv_port :: u16
  sv_cert_path :: string
  sv_key_path :: string
  sv_reuse_port :: bool
  sv_supported_protocols :: "string list"
  sv_allowed_origins :: "string list option"
  sv_response_headers :: "(string \<times> string) list"

record 'c server_conn =
  sc_conn :: 'c
  sc_session :: wt_session
  sc_session_id :: u64
  sc_closed_emitted :: bool

record 'c server =
  sv_clients :: "(bytes \<times> 'c server_conn) list"
  sv_routing :: "(bytes \<times> bytes) list"
  sv_sessions :: "(u64 \<times> bytes) list"
  sv_next_session_id :: u64
  sv_parser_memory :: parser_memory
  sv_max_datagram_size :: nat
  sv_sent :: "(bytes \<times> sock_addr) list"
  sv_out :: "server_msg list"
  sv_emitted :: "server_msg list list"

text \<open>
  What the server calls of \<^verbatim>\<open>quiche\<close> beside the connection: the packet header, accepting a
  connection and writing a Retry packet. \<open>a_order\<close> is the order in
  which a hash map with these keys is visited, and \<open>a_sha256\<close> is BoringSSL's hash.
\<close>

record packet_header =
  ph_initial :: bool
  ph_dcid :: bytes
  ph_scid :: bytes
  ph_token :: "bytes option"
  ph_version :: u32

record 'c acceptor =
  a_header :: "bytes \<Rightarrow> nat \<Rightarrow> packet_header option"
  a_accept :: "bytes \<Rightarrow> bytes \<Rightarrow> sock_addr \<Rightarrow> sock_addr \<Rightarrow> quic_config \<Rightarrow> 'c option"
  a_retry :: "bytes \<Rightarrow> bytes \<Rightarrow> bytes \<Rightarrow> bytes \<Rightarrow> u32 \<Rightarrow> bytes option"
  a_order :: "bytes list \<Rightarrow> bytes list"
  a_sha256 :: "bytes \<Rightarrow> bytes"

section \<open>Operating on one connection\<close>

text \<open>The session of a connection with the shared budget lent to it, and with no events yet.\<close>

definition lend :: "parser_memory \<Rightarrow> 'c server_conn \<Rightarrow> 'c sys" where
  "lend root sc =
     \<lparr>sess = (sc_session sc)\<lparr>s_parser_memory :=
        ParserMemory (pm_limit (s_parser_memory (sc_session sc))) (pm_used (s_parser_memory (sc_session sc))) (Some root)\<rparr>,
      conn = sc_conn sc, evs = []\<rparr>"

definition budget_of :: "'c sys \<Rightarrow> parser_memory \<Rightarrow> parser_memory" where
  "budget_of s root = (case pm_parent (memory s) of Some p \<Rightarrow> p | None \<Rightarrow> root)"

text \<open>Storing the connection back, and queueing the events under the session's id.\<close>

definition give_back :: "bytes \<Rightarrow> 'c server_conn \<Rightarrow> 'c sys \<Rightarrow> 'c server \<Rightarrow> 'c server" where
  "give_back key sc s sv =
     sv\<lparr>sv_clients := AList.update key (sc\<lparr>sc_conn := conn s, sc_session := sess s\<rparr>) (sv_clients sv),
        sv_parser_memory := budget_of s (sv_parser_memory sv),
        sv_out := sv_out sv @ map (SessionMsg (sc_session_id sc)) (evs s)\<rparr>"

section \<open>Receiving packets\<close>

definition random_secret :: "bytes option \<times> nat \<Rightarrow> bytes" where
  "random_secret r =
     (case fst r of Some b \<Rightarrow> b
      | None \<Rightarrow> (let s = u128_to_le_bytes (snd r) in map (\<lambda>i. s ! (i mod length s)) [0..<32]))"

record recv_env =
  re_local :: sock_addr
  re_secret :: bytes
  re_config :: quic_config

definition new_connection ::
  "server_setup \<Rightarrow> bytes \<Rightarrow> sock_addr \<Rightarrow> 'c \<Rightarrow> 'c server \<Rightarrow> 'c server" where
  "new_connection su key src c sv =
     (let session_id = sv_next_session_id sv;
          sc = \<lparr>sc_conn = c,
                sc_session = new_server (show_ip (sa_ip src), sa_port src) (sv_supported_protocols su)
                  (sv_allowed_origins su) (sv_response_headers su) (sv_parser_memory sv),
                sc_session_id = session_id, sc_closed_emitted = False\<rparr>
      in sv\<lparr>sv_next_session_id := session_id + 1,
            sv_routing := AList.update key key (sv_routing sv),
            sv_sessions := AList.update session_id key (sv_sessions sv),
            sv_clients := AList.update key sc (sv_clients sv)\<rparr>)"

definition send_retry ::
  "'c net \<Rightarrow> 'c acceptor \<Rightarrow> recv_env \<Rightarrow> bytes option \<times> nat \<Rightarrow> packet_header \<Rightarrow> sock_addr \<Rightarrow> 'c server \<Rightarrow> 'c server" where
  "send_retry N A R rnd hdr src sv =
     (let new_scid = random_scid rnd;
          retry_token = mint_token (a_sha256 A) (re_secret R) (ph_dcid hdr) src
      in case a_retry A (ph_scid hdr) (ph_dcid hdr) new_scid retry_token (ph_version hdr) of
           None \<Rightarrow> sv
         | Some pkt \<Rightarrow>
            (case n_send_to N (sv_sent sv) (pkt, src) of
               None \<Rightarrow> sv\<lparr>sv_sent := sv_sent sv @ [(pkt, src)]\<rparr>
             | Some _ \<Rightarrow> sv))"

text \<open>Finding the connection a packet belongs to, or accepting one: \<^const>\<open>None\<close> is \<^verbatim>\<open>continue\<close>.\<close>

definition route_packet ::
  "'c net \<Rightarrow> 'c acceptor \<Rightarrow> server_setup \<Rightarrow> recv_env \<Rightarrow> int \<Rightarrow> bytes option \<times> nat \<Rightarrow> packet_header
    \<Rightarrow> sock_addr \<Rightarrow> 'c server \<Rightarrow> bytes option \<times> 'c server" where
  "route_packet N A su R inflight rnd hdr src sv =
     (case map_of (sv_routing sv) (ph_dcid hdr) of
        Some scid \<Rightarrow> (Some scid, sv)
      | None \<Rightarrow>
         (if \<not> ph_initial hdr then (None, sv)
          else if length (sv_clients sv) \<ge> MAX_CONNECTIONS \<or> inflight \<ge> SERVER_MAX_INFLIGHT then (None, sv)
          else
            (let token = (case ph_token hdr of Some t \<Rightarrow> t | None \<Rightarrow> []) in
             if token = [] then (None, send_retry N A R rnd hdr src sv)
             else case validate_token (a_sha256 A) (re_secret R) src token of
               None \<Rightarrow> (None, sv)
             | Some odcid \<Rightarrow>
                (case a_accept A (ph_dcid hdr) odcid (re_local R) src (re_config R) of
                   None \<Rightarrow> (None, sv)
                 | Some c \<Rightarrow> (Some (ph_dcid hdr), new_connection su (ph_dcid hdr) src c sv)))))"

definition deliver_packet ::
  "'c net \<Rightarrow> recv_env \<Rightarrow> bytes \<Rightarrow> sock_addr \<Rightarrow> bytes \<Rightarrow> 'c server \<Rightarrow> 'c server" where
  "deliver_packet N R pkt src scid sv =
     (case map_of (sv_clients sv) scid of
        None \<Rightarrow> sv
      | Some sc \<Rightarrow>
         (case n_recv N (sc_conn sc) pkt src (re_local R) of
            (_, c) \<Rightarrow> sv\<lparr>sv_clients := AList.update scid (sc\<lparr>sc_conn := c\<rparr>) (sv_clients sv)\<rparr>))"

text \<open>
  A datagram of the socket, with the back-pressure counter and the randomness that are read when
  it is processed.
\<close>

type_synonym rx_item = "io_err + bytes \<times> sock_addr \<times> int \<times> (bytes option \<times> nat)"

fun server_recv ::
  "nat \<Rightarrow> 'c net \<Rightarrow> 'c acceptor \<Rightarrow> server_setup \<Rightarrow> recv_env \<Rightarrow> rx_item list \<Rightarrow> 'c server \<Rightarrow> 'c server" where
  "server_recv 0 N A su R items sv = sv"
| "server_recv (Suc budget) N A su R [] sv = sv"
| "server_recv (Suc budget) N A su R (Inl e # rest) sv = sv"
| "server_recv (Suc budget) N A su R (Inr (pkt, src, inflight, rnd) # rest) sv =
     (case a_header A pkt LOCAL_CONN_ID_LEN of
        None \<Rightarrow> server_recv budget N A su R rest sv
      | Some hdr \<Rightarrow>
         (case route_packet N A su R inflight rnd hdr src sv of
            (None, sv') \<Rightarrow> server_recv budget N A su R rest sv'
          | (Some scid, sv') \<Rightarrow> server_recv budget N A su R rest (deliver_packet N R pkt src scid sv')))"

section \<open>Timeouts and commands\<close>

definition fire_timeouts :: "'c quic \<Rightarrow> 'c server \<Rightarrow> 'c server" where
  "fire_timeouts Q sv =
     sv\<lparr>sv_clients := hm_map (\<lambda>sc. sc\<lparr>sc_conn := q_on_timeout Q (sc_conn sc)\<rparr>) (sv_clients sv)\<rparr>"

fun command_session :: "server_command \<Rightarrow> u64 option" where
  "command_session (SOpenStream session request_id bidi) = Some session"
| "command_session (SWrite session i data request_id) = Some session"
| "command_session (SFin session i) = Some session"
| "command_session (SResetStream session i code) = Some session"
| "command_session (SStopSending session i code) = Some session"
| "command_session (SSetPaused session i p) = Some session"
| "command_session (SSendDatagram session data request_id) = Some session"
| "command_session (SCloseSession session code reason) = Some session"
| "command_session (SDrain session) = Some session"
| "command_session (SGetStats session request_id) = Some session"
| "command_session (SExportKeyingMaterial session request_id label ctx len) = Some session"
| "command_session SShutdown = None"

fun session_command :: "'c quic \<Rightarrow> server_command \<Rightarrow> 'c sys \<Rightarrow> 'c sys" where
  "session_command Q (SOpenStream session request_id bidi) s = open_stream bidi request_id s"
| "session_command Q (SWrite session i data request_id) s = stream_write i data request_id s"
| "session_command Q (SFin session i) s = stream_fin i s"
| "session_command Q (SResetStream session i code) s = stream_reset Q i code s"
| "session_command Q (SStopSending session i code) s = stream_stop_sending Q i code s"
| "session_command Q (SSetPaused session i p) s = set_paused i p s"
| "session_command Q (SSendDatagram session data request_id) s = send_datagram Q data request_id s"
| "session_command Q (SCloseSession session code reason) s = close code reason s"
| "session_command Q (SDrain session) s = send_drain s"
| "session_command Q (SGetStats session request_id) s = push_ev (build_stats Q (conn s) request_id) s"
| "session_command Q (SExportKeyingMaterial session request_id label ctx len) s =
     (case build_keying_material Q (conn s) request_id label ctx len of
        (e, c) \<Rightarrow> push_ev e (s\<lparr>conn := c\<rparr>))"
| "session_command Q SShutdown s = s"

definition apply_command :: "'c quic \<Rightarrow> server_command \<Rightarrow> 'c server \<Rightarrow> 'c server" where
  "apply_command Q cmd sv =
     (case command_session cmd of
        None \<Rightarrow> sv
      | Some session_id \<Rightarrow>
         (case map_of (sv_sessions sv) session_id of
            None \<Rightarrow> sv
          | Some scid \<Rightarrow>
             (case map_of (sv_clients sv) scid of
                None \<Rightarrow> sv
              | Some sc \<Rightarrow>
                 (let s = session_command Q cmd (lend (sv_parser_memory sv) sc)
                  in (give_back scid sc (s\<lparr>evs := []\<rparr>) sv)
                       \<lparr>sv_out := sv_out sv @ map (SessionMsg session_id) (evs s)\<rparr>))))"

fun drain_server_commands :: "'c quic \<Rightarrow> server_command list \<Rightarrow> 'c server \<Rightarrow> bool \<times> 'c server" where
  "drain_server_commands Q [] sv = (False, sv)"
| "drain_server_commands Q (cmd # rest) sv =
     (if cmd = SShutdown then (True, sv) else drain_server_commands Q rest (apply_command Q cmd sv))"

section \<open>Driving and reaping\<close>

text \<open>Here any error of the socket ends the draining of the send queue.\<close>

fun server_flush_send ::
  "nat \<Rightarrow> 'c net \<Rightarrow> 'c \<Rightarrow> (bytes \<times> sock_addr) list \<Rightarrow> ('c \<times> (bytes \<times> sock_addr) list) option" where
  "server_flush_send 0 N c sent = None"
| "server_flush_send (Suc n) N c sent =
     (case n_send N c of
        (Inl _, c') \<Rightarrow> Some (c', sent)
      | (Inr p, c') \<Rightarrow>
         (case n_send_to N sent p of
            None \<Rightarrow> server_flush_send n N c' (sent @ [p])
          | Some _ \<Rightarrow> Some (c', sent)))"

definition drive_conn ::
  "('c \<Rightarrow> nat) \<Rightarrow> env \<Rightarrow> 'c quic \<Rightarrow> 'c net \<Rightarrow> bool \<Rightarrow> bytes \<Rightarrow> 'c server \<Rightarrow> 'c server outcome" where
  "drive_conn rounds E Q N backpressured key sv =
     (case map_of (sv_clients sv) key of
        None \<Rightarrow> Done sv
      | Some sc \<Rightarrow>
         (let s = lend (sv_parser_memory sv) sc;
              s = (if q_is_established Q (conn s) then on_established s else s)
          in case drive_session rounds E Q backpressured s of
               Panicked \<Rightarrow> Panicked
             | OutOfFuel \<Rightarrow> OutOfFuel
             | Done s \<Rightarrow>
                (let s = (if is_closed s \<and> \<not> q_is_closed Q (conn s) \<and> \<not> n_is_draining N (conn s)
                          then s\<lparr>conn := q_close Q (conn s) True H3_NO_ERROR []\<rparr> else s);
                     sv = (case q_dgram_max_writable_len Q (conn s) of
                             Some sz \<Rightarrow> sv\<lparr>sv_max_datagram_size := sz - 1\<rparr> | None \<Rightarrow> sv)
                 in case server_flush_send (rounds (conn s)) N (conn s) (sv_sent sv) of
                      None \<Rightarrow> OutOfFuel
                    | Some (c, sent) \<Rightarrow>
                        Done (give_back key sc (s\<lparr>conn := c\<rparr>) (sv\<lparr>sv_sent := sent\<rparr>)))))"

fun drive_conns ::
  "('c \<Rightarrow> nat) \<Rightarrow> env \<Rightarrow> 'c quic \<Rightarrow> 'c net \<Rightarrow> bool \<Rightarrow> bytes list \<Rightarrow> 'c server \<Rightarrow> 'c server outcome" where
  "drive_conns rounds E Q N bp [] sv = Done sv"
| "drive_conns rounds E Q N bp (key # keys) sv =
     (case drive_conn rounds E Q N bp key sv of
        Done sv' \<Rightarrow> drive_conns rounds E Q N bp keys sv'
      | r \<Rightarrow> r)"

definition server_closure_info :: "'c quic \<Rightarrow> 'c \<Rightarrow> u32 \<times> bytes \<times> bool \<times> string option" where
  "server_closure_info Q c =
     (case q_peer_error Q c of
        Some (is_app, error_code, reason) \<Rightarrow>
          (if is_app then (ucast error_code, reason, True, None)
           else (0, [], True,
                 Some (''connection terminated by peer transport error '' @ show_hex (unat error_code))))
      | None \<Rightarrow>
         (case q_local_error Q c of
            Some (is_app, error_code, reason) \<Rightarrow>
              (if is_app then (ucast error_code, reason, False, None)
               else (0, [], False,
                     Some (''connection closed by transport error '' @ show_hex (unat error_code))))
          | None \<Rightarrow>
             (if q_is_timed_out Q c then (0, [], False, Some ''connection timed out'')
              else (0, [], True, Some ''connection closed abnormally''))))"

definition report_server_closure :: "'c quic \<Rightarrow> 'c sys \<Rightarrow> 'c sys" where
  "report_server_closure Q s =
     (if is_closed s then s
      else
        (case local_close_info s of
           Some (code, reason) \<Rightarrow> mark_closed code reason False s
         | None \<Rightarrow>
            (case server_closure_info Q (conn s) of
               (code, reason, remote, err) \<Rightarrow>
                 mark_closed code reason remote
                   (case err of Some msg \<Rightarrow> push_ev (EvError msg) s | None \<Rightarrow> s))))"

definition reap_conn :: "'c quic \<Rightarrow> bytes \<Rightarrow> 'c server \<Rightarrow> 'c server" where
  "reap_conn Q key sv =
     (case map_of (sv_clients sv) key of
        None \<Rightarrow> sv
      | Some sc \<Rightarrow>
         (if q_is_closed Q (sc_conn sc) \<and> \<not> sc_closed_emitted sc
          then give_back key (sc\<lparr>sc_closed_emitted := True\<rparr>)
                 (report_server_closure Q (lend (sv_parser_memory sv) sc)) sv
          else sv))"

text \<open>Dropping a session drops its buffers; only then does the connection leave the table.\<close>

definition drop_session :: "parser_memory \<Rightarrow> wt_session \<Rightarrow> parser_memory" where
  "drop_session root w =
     foldl (\<lambda>m (_, st). drop_stream m st) (buffer_drop root (s_capsule_buf w)) (s_streams w)"

definition retain_open :: "'c quic \<Rightarrow> 'c server \<Rightarrow> 'c server" where
  "retain_open Q sv =
     (let gone = filter (\<lambda>(_, sc). q_is_closed Q (sc_conn sc)) (sv_clients sv);
          clients = filter (\<lambda>(_, sc). \<not> q_is_closed Q (sc_conn sc)) (sv_clients sv)
      in sv\<lparr>sv_clients := clients,
            sv_sessions := foldl (\<lambda>m (_, sc). AList.delete (sc_session_id sc) m) (sv_sessions sv) gone,
            sv_parser_memory := foldl (\<lambda>m (_, sc). drop_session m (sc_session sc)) (sv_parser_memory sv) gone,
            sv_routing := filter (\<lambda>(_, scid). map_of clients scid \<noteq> None) (sv_routing sv)\<rparr>)"

definition reap :: "'c quic \<Rightarrow> bytes list \<Rightarrow> 'c server \<Rightarrow> 'c server" where
  "reap Q keys sv = retain_open Q (foldl (\<lambda>sv key. reap_conn Q key sv) sv keys)"

section \<open>One wake, and the whole run\<close>

record server_wake =
  sw_poll_ok :: bool
  sw_recv :: "rx_item list"
  sw_cmds :: "server_command list"
  sw_inflight :: int

definition table_order :: "'c acceptor \<Rightarrow> 'c server \<Rightarrow> bytes list" where
  "table_order A sv = a_order A (map fst (sv_clients sv))"

definition shutdown_conn ::
  "('c \<Rightarrow> nat) \<Rightarrow> 'c quic \<Rightarrow> 'c net \<Rightarrow> bytes \<Rightarrow> 'c server \<Rightarrow> 'c server outcome" where
  "shutdown_conn rounds Q N key sv =
     (case map_of (sv_clients sv) key of
        None \<Rightarrow> Done sv
      | Some sc \<Rightarrow>
         (let c = q_close Q (sc_conn sc) True 0 (as_bytes ''server shutdown'')
          in case server_flush_send (rounds c) N c (sv_sent sv) of
               None \<Rightarrow> OutOfFuel
             | Some (c, sent) \<Rightarrow>
                 Done (sv\<lparr>sv_clients := AList.update key (sc\<lparr>sc_conn := c\<rparr>) (sv_clients sv), sv_sent := sent\<rparr>)))"

fun shutdown_conns ::
  "('c \<Rightarrow> nat) \<Rightarrow> 'c quic \<Rightarrow> 'c net \<Rightarrow> bytes list \<Rightarrow> 'c server \<Rightarrow> 'c server outcome" where
  "shutdown_conns rounds Q N [] sv = Done sv"
| "shutdown_conns rounds Q N (key # keys) sv =
     (case shutdown_conn rounds Q N key sv of
        Done sv' \<Rightarrow> shutdown_conns rounds Q N keys sv'
      | r \<Rightarrow> r)"

definition server_emit :: "'c server \<Rightarrow> 'c server" where
  "server_emit sv =
     (if sv_out sv \<noteq> [] then sv\<lparr>sv_emitted := sv_emitted sv @ [sv_out sv]\<rparr> else sv)"

definition serve_wake ::
  "('c \<Rightarrow> nat) \<Rightarrow> env \<Rightarrow> 'c quic \<Rightarrow> 'c net \<Rightarrow> 'c acceptor \<Rightarrow> server_setup \<Rightarrow> recv_env \<Rightarrow> server_wake
    \<Rightarrow> 'c server \<Rightarrow> 'c server loop_next" where
  "serve_wake rounds E Q N A su R w sv0 =
     (if \<not> sw_poll_ok w then Continue sv0
      else
        (let sv = sv0\<lparr>sv_out := []\<rparr>;
             sv = server_recv MAX_RECV_PER_WAKE N A su R (sw_recv w) sv;
             sv = fire_timeouts Q sv;
             (shutdown, sv) = drain_server_commands Q (sw_cmds w) sv
         in if shutdown then
              (case shutdown_conns rounds Q N (table_order A sv) sv of
                 Done sv \<Rightarrow> Return sv
               | Panicked \<Rightarrow> PanicAt KEY_MISSING sv0
               | OutOfFuel \<Rightarrow> Stuck)
            else
              (case drive_conns rounds E Q N (sw_inflight w \<ge> SERVER_MAX_INFLIGHT) (table_order A sv) sv of
                 OutOfFuel \<Rightarrow> Stuck
               | Panicked \<Rightarrow> PanicAt KEY_MISSING sv0
               | Done sv \<Rightarrow> Continue (server_emit (reap Q (table_order A sv) sv)))))"

fun serve_wakes ::
  "('c \<Rightarrow> nat) \<Rightarrow> env \<Rightarrow> 'c quic \<Rightarrow> 'c net \<Rightarrow> 'c acceptor \<Rightarrow> server_setup \<Rightarrow> recv_env \<Rightarrow> server_wake list
    \<Rightarrow> 'c server \<Rightarrow> 'c server loop_next" where
  "serve_wakes rounds E Q N A su R [] sv = Continue sv"
| "serve_wakes rounds E Q N A su R (w # ws) sv =
     (case serve_wake rounds E Q N A su R w sv of
        Continue sv' \<Rightarrow> serve_wakes rounds E Q N A su R ws sv'
      | r \<Rightarrow> r)"

definition server_start :: "server_msg list list \<Rightarrow> 'c server" where
  "server_start emitted =
     \<lparr>sv_clients = [], sv_routing = [], sv_sessions = [], sv_next_session_id = 1,
      sv_parser_memory = ParserMemory_new MAX_PARSER_MEMORY, sv_max_datagram_size = 0, sv_sent = [],
      sv_out = [], sv_emitted = emitted\<rparr>"

text \<open>
  Binding the listening socket, on Unix. The operating system says of each call whether it fails: the socket
  for a domain, the non-blocking mode, the shared port and the bind.
\<close>

record udp_os =
  uo_socket :: "bool \<Rightarrow> string option"
  uo_nonblocking :: "string option"
  uo_reuse_port :: "string option"
  uo_bind :: "sock_addr \<Rightarrow> string option"

record udp_socket =
  us_ipv4 :: bool
  us_nonblocking :: bool
  us_reuse_port :: bool
  us_bound :: "sock_addr option"

definition os_call :: "string option \<Rightarrow> ('b \<Rightarrow> 'b) \<Rightarrow> 'b \<Rightarrow> string + 'b" where
  "os_call err f b = (case err of Some e \<Rightarrow> Inl e | None \<Rightarrow> Inr (f b))"

definition bind_udp :: "udp_os \<Rightarrow> sock_addr \<Rightarrow> bool \<Rightarrow> string + udp_socket" where
  "bind_udp U addr reuse_port =
     try_then (os_call (uo_socket U (is_ipv4 addr)) id
         \<lparr>us_ipv4 = is_ipv4 addr, us_nonblocking = False, us_reuse_port = False, us_bound = None\<rparr>) (\<lambda>sock.
     try_then (os_call (uo_nonblocking U) (us_nonblocking_update (\<lambda>_. True)) sock) (\<lambda>sock.
     try_then (if reuse_port then os_call (uo_reuse_port U) (us_reuse_port_update (\<lambda>_. True)) sock else Inr sock) (\<lambda>sock.
       os_call (uo_bind U addr) (us_bound_update (\<lambda>_. Some addr)) sock)))"

record server_env =
  ve_udp :: udp_os
  ve_local_addr :: "string + sock_addr"
  ve_quic :: quic_api
  ve_register :: "string option"
  ve_random :: "bytes option \<times> nat"

definition trim_brackets :: "string \<Rightarrow> string" where
  "trim_brackets h =
     (let p = (\<lambda>c. c = CHR ''['' \<or> c = CHR '']'') in rev (dropWhile p (rev (dropWhile p h))))"

text \<open>A server that could not be set up: the error is all it emits before it stops.\<close>

definition setup_failed :: "string \<Rightarrow> 'c server loop_next" where
  "setup_failed m = Return (server_start [[ServerError m]])"

definition server_run_inner ::
  "('c \<Rightarrow> nat) \<Rightarrow> env \<Rightarrow> 'c quic \<Rightarrow> 'c net \<Rightarrow> 'c acceptor \<Rightarrow> server_env \<Rightarrow> server_setup \<Rightarrow> server_wake list
    \<Rightarrow> 'c server loop_next" where
  "server_run_inner rounds E Q N A VE su ws =
     (case parse_ip (trim_brackets (sv_host su)) of
        None \<Rightarrow> setup_failed ''invalid bind addr: invalid IP address syntax''
      | Some ip \<Rightarrow>
         (case bind_udp (ve_udp VE) \<lparr>sa_ip = ip, sa_port = sv_port su\<rparr> (sv_reuse_port su) of
            Inl e \<Rightarrow> setup_failed (''bind failed: '' @ e)
          | Inr _ \<Rightarrow>
             (case ve_local_addr VE of
                Inl e \<Rightarrow> setup_failed (''local addr: '' @ e)
              | Inr local_addr \<Rightarrow>
                 (case build_server_config (ve_quic VE) (sv_cert_path su) (sv_key_path su) of
                    Inl e \<Rightarrow> setup_failed e
                  | Inr cfg \<Rightarrow>
                     (case ve_register VE of
                        Some e \<Rightarrow> setup_failed (''register: '' @ e)
                      | None \<Rightarrow>
                          serve_wakes rounds E Q N A su
                            \<lparr>re_local = local_addr, re_secret = random_secret (ve_random VE), re_config = cfg\<rparr> ws
                            (server_start [[Listening (sa_port local_addr)]]))))))"

type_synonym server_result = "run_status \<times> bool \<times> server_msg list list"

definition catch_server_panic :: "'c server loop_next \<Rightarrow> server_result" where
  "catch_server_panic r =
     (case r of
        Continue sv \<Rightarrow> (Waiting, False, sv_emitted sv)
      | Stuck \<Rightarrow> (NoRounds, False, [])
      | Return sv \<Rightarrow> (Ended, True, sv_emitted sv @ [[ServerClosed]])
      | PanicAt msg sv \<Rightarrow>
          (Ended, True, sv_emitted sv @ [[ServerError (''rwebtransport server panic: '' @ msg), ServerClosed]]))"

definition server_run ::
  "('c \<Rightarrow> nat) \<Rightarrow> env \<Rightarrow> 'c quic \<Rightarrow> 'c net \<Rightarrow> 'c acceptor \<Rightarrow> server_env \<Rightarrow> server_setup \<Rightarrow> server_wake list
    \<Rightarrow> server_result" where
  "server_run rounds E Q N A VE su ws = catch_server_panic (server_run_inner rounds E Q N A VE su ws)"

end
