(* ===== verification/Server_Props.thy ===== *)
theory Server_Props
  imports Server
begin

text \<open>
  The server keeps its tables consistent, its parser memory within the shared budget, and reports
  the end of every session exactly once. Everything the server does to one connection is an
  instance of the relation \<open>operates\<close>: session operations on the session lent the shared budget,
  with the events queued under the session's id.
\<close>

section \<open>Operating on one connection\<close>

definition operates :: "env \<Rightarrow> 'c quic \<Rightarrow> bool \<Rightarrow> 'c server \<Rightarrow> 'c server \<Rightarrow> bool" where
  "operates E Q flag sv sv' \<longleftrightarrow>
     (\<exists>key sc s. map_of (sv_clients sv) key = Some sc
        \<and> steps E Q (lend (sv_parser_memory sv) sc) s \<and> (flag \<longrightarrow> closed s)
        \<and> sv_clients sv' = AList.update key
             (sc\<lparr>sc_conn := conn s, sc_session := sess s, sc_closed_emitted := sc_closed_emitted sc \<or> flag\<rparr>) (sv_clients sv)
        \<and> sv_parser_memory sv' = budget_of s (sv_parser_memory sv)
        \<and> sv_out sv' = sv_out sv @ map (SessionMsg (sc_session_id sc)) (evs s)
        \<and> sv_routing sv' = sv_routing sv \<and> sv_sessions sv' = sv_sessions sv
        \<and> sv_next_session_id sv' = sv_next_session_id sv \<and> sv_emitted sv' = sv_emitted sv)"

lemma operatesI:
  assumes "map_of (sv_clients sv) key = Some sc" and "steps E Q (lend (sv_parser_memory sv) sc) s"
    and "sv_routing sv1 = sv_routing sv" "sv_sessions sv1 = sv_sessions sv" "sv_clients sv1 = sv_clients sv"
      "sv_next_session_id sv1 = sv_next_session_id sv" "sv_emitted sv1 = sv_emitted sv"
      "sv_parser_memory sv1 = sv_parser_memory sv" "sv_out sv1 = sv_out sv"
  shows "operates E Q False sv (give_back key sc s sv1)"
  unfolding operates_def
  by (rule exI [of _ key], rule exI [of _ sc], rule exI [of _ s]) (use assms in \<open>simp add: give_back_def\<close>)

section \<open>The tables\<close>

definition id_at :: "'c server \<Rightarrow> bytes \<Rightarrow> u64 option" where
  "id_at sv k = map_option sc_session_id (map_of (sv_clients sv) k)"

definition table_ok :: "'c server \<Rightarrow> bool" where
  "table_ok sv \<longleftrightarrow>
     distinct (map fst (sv_clients sv)) \<and> distinct (map fst (sv_sessions sv)) \<and> distinct (map fst (sv_routing sv))
     \<and> length (sv_clients sv) \<le> MAX_CONNECTIONS
     \<and> (\<forall>k v. map_of (sv_routing sv) k = Some v \<longrightarrow> v = k \<and> k \<in> set (map fst (sv_clients sv)))
     \<and> (\<forall>k i. id_at sv k = Some i \<longrightarrow> map_of (sv_routing sv) k = Some k \<and> map_of (sv_sessions sv) i = Some k)
     \<and> (\<forall>i k. map_of (sv_sessions sv) i = Some k \<longrightarrow>
          i \<noteq> 0 \<and> i < sv_next_session_id sv \<and> id_at sv k = Some i)"

lemma table_okD:
  assumes "table_ok sv"
  shows "map_of (sv_routing sv) k = Some v \<Longrightarrow> v = k \<and> k \<in> set (map fst (sv_clients sv))"
    and "id_at sv k = Some i \<Longrightarrow> map_of (sv_routing sv) k = Some k \<and> map_of (sv_sessions sv) i = Some k"
    and "map_of (sv_sessions sv) i = Some k \<Longrightarrow> i \<noteq> 0 \<and> i < sv_next_session_id sv \<and> id_at sv k = Some i"
    and "distinct (map fst (sv_clients sv))" and "distinct (map fst (sv_sessions sv))"
    and "length (sv_clients sv) \<le> MAX_CONNECTIONS" and "distinct (map fst (sv_routing sv))"
  using assms unfolding table_ok_def by blast+

lemma keys_update_Some: "map_of m k = Some v \<Longrightarrow> map fst (AList.update k w m) = map fst m"
  by (metis domI dom_map_of_conv_image_fst list.set_map update_keys)

lemma length_update_Some: "map_of m k = Some v \<Longrightarrow> length (AList.update k w m) = length m"
  using keys_update_Some by (metis length_map)

lemma table_ok_update:
  assumes "table_ok sv" and "map_of (sv_clients sv) key = Some sc" and "sc_session_id sc' = sc_session_id sc"
    and "sv_clients sv' = AList.update key sc' (sv_clients sv)" and "sv_routing sv' = sv_routing sv"
    and "sv_sessions sv' = sv_sessions sv" and "sv_next_session_id sv' = sv_next_session_id sv"
  shows "table_ok sv'"
proof -
  have k: "map fst (sv_clients sv') = map fst (sv_clients sv)" "length (sv_clients sv') = length (sv_clients sv)"
    using keys_update_Some [OF assms(2)] length_update_Some [OF assms(2)] assms(4) by simp_all
  have ids: "id_at sv' = id_at sv" by (rule ext) (simp add: id_at_def assms(2-4))
  show ?thesis using assms(1) unfolding table_ok_def k ids assms(5-7) .
qed

lemma operates_table: "operates E Q flag sv sv' \<Longrightarrow> table_ok sv \<Longrightarrow> table_ok sv'"
  unfolding operates_def by (elim exE conjE) (rule table_ok_update, assumption+, simp_all)

section \<open>The shared budget\<close>

definition client_used :: "'c server_conn \<Rightarrow> nat" where
  "client_used sc = pm_used (s_parser_memory (sc_session sc))"

definition client_ok :: "'c server_conn \<Rightarrow> bool" where
  "client_ok sc \<longleftrightarrow>
     pm_limit (s_parser_memory (sc_session sc)) = MAX_SESSION_PARSER_MEMORY
     \<and> client_used sc = held (sc_session sc) \<and> held (sc_session sc) \<le> MAX_SESSION_PARSER_MEMORY
     \<and> distinct (hm_keys (s_streams (sc_session sc))) \<and> pb_ok (s_capsule_buf (sc_session sc))
     \<and> list_all (\<lambda>kv. st_bufs_ok (snd kv)) (s_streams (sc_session sc))
     \<and> (s_closed (sc_session sc) \<longrightarrow> held (sc_session sc) = 0)"

definition root_ok :: "parser_memory \<Rightarrow> bool" where
  "root_ok root \<longleftrightarrow> pm_ok root \<and> pm_parent root = None \<and> pm_limit root = MAX_PARSER_MEMORY"

definition budget_ok :: "'c server \<Rightarrow> bool" where
  "budget_ok sv \<longleftrightarrow>
     root_ok (sv_parser_memory sv) \<and> pm_used (sv_parser_memory sv) = hm_total client_used (sv_clients sv)
     \<and> list_all (\<lambda>kv. client_ok (snd kv)) (sv_clients sv)"

lemma held_lend: "held (sess (lend root sc)) = held (sc_session sc)"
  by (simp add: lend_def held_def)

lemma lend_mem_ok:
  "client_ok sc \<Longrightarrow> root_ok root \<Longrightarrow> client_used sc \<le> pm_used root \<Longrightarrow> mem_ok 0 (sess (lend root sc))"
  by (simp add: mem_ok_def held_lend client_ok_def root_ok_def client_used_def)
    (simp add: lend_def wt_consts usize_max_def)

lemma keeps_lend:
  assumes "client_ok sc" and "root_ok root" and "client_used sc \<le> pm_used root" and "keeps (lend root sc) s"
  shows "client_ok (sc\<lparr>sc_conn := c, sc_session := sess s, sc_closed_emitted := f\<rparr>)
    \<and> root_ok (budget_of s root) \<and> pm_used (budget_of s root) + client_used sc = pm_used root + pm_used (memory s)
    \<and> pm_used (memory s) \<le> pm_used (budget_of s root)"
proof -
  have m: "mem_ok 0 (sess s)" "pm_frame (memory s) = pm_frame (memory (lend root sc))"
    using assms(4) lend_mem_ok [OF assms(1-3)] by (auto simp: keeps_def)
  obtain L u where root: "root = ParserMemory L u None" using assms(2) by (cases root) (auto simp: root_ok_def)
  have fr: "pm_frame (memory (lend root sc)) = [(MAX_SESSION_PARSER_MEMORY, u - client_used sc), (L, 0)]"
    using assms(1) by (simp add: lend_def root client_ok_def client_used_def)
  obtain l u' p where ms: "memory s = ParserMemory l u' p" by (cases "memory s")
  obtain pr where p: "p = Some pr" using m(2) fr ms by (cases p) auto
  obtain L2 u2 q where pr: "pr = ParserMemory L2 u2 q" by (cases pr)
  have f2: "(l, u2 - u') # pm_frame (ParserMemory L2 u2 q) = [(MAX_SESSION_PARSER_MEMORY, u - client_used sc), (L, 0)]"
    using m(2) unfolding fr by (simp add: ms p pr)
  have "q = None"
  proof (cases q)
    case (Some r)
    then have "length (pm_frame (ParserMemory L2 u2 q)) = Suc (length (pm_frame r))" by simp
    moreover have "pm_frame r \<noteq> []" by (cases r rule: pm_frame.cases) simp_all
    ultimately show ?thesis using f2 by (cases "pm_frame r") auto
  qed
  with f2 have q: "q = None" "L2 = L" "l = MAX_SESSION_PARSER_MEMORY" "u2 - u' = u - client_used sc" by simp_all
  have le: "u' \<le> u2" "u2 \<le> L" "u' = held (sess s)" "u' \<le> l" "L \<le> usize_max"
    using m(1) ms p pr q(1,2) by (simp_all add: mem_ok_def)
  have b: "budget_of s root = ParserMemory L u2 None" using ms p pr q(1,2) by (simp add: budget_of_def)
  have "client_ok (sc\<lparr>sc_conn := c, sc_session := sess s, sc_closed_emitted := f\<rparr>)"
    using m(1) ms le q(3) by (simp add: client_ok_def client_used_def mem_ok_def)
  moreover have "root_ok (budget_of s root)" unfolding b using assms(2) root le by (simp add: root_ok_def)
  moreover have "u2 + client_used sc = u + u'" using q(4) le(1) assms(3) root by simp
  ultimately show ?thesis unfolding b using ms root le by simp
qed

lemma client_used_le: "budget_ok sv \<Longrightarrow> map_of (sv_clients sv) k = Some sc \<Longrightarrow>
   client_ok sc \<and> client_used sc \<le> pm_used (sv_parser_memory sv)"
  using hm_total_member [of "sv_clients sv" k sc client_used] map_of_SomeD [of "sv_clients sv" k sc]
  by (auto simp: budget_ok_def list_all_iff)

lemma list_all_update:
  "list_all (\<lambda>kv. P (snd kv)) m \<Longrightarrow> P v \<Longrightarrow> list_all (\<lambda>kv. P (snd kv)) (AList.update k v m)"
  by (induction m) auto

lemma operates_budget:
  assumes "alloc_ok (e_alloc E)" and "operates E Q flag sv sv'" and "budget_ok sv"
  shows "budget_ok sv'"
proof -
  obtain key sc s where
    sc: "map_of (sv_clients sv) key = Some sc" and st: "steps E Q (lend (sv_parser_memory sv) sc) s"
    and cl: "sv_clients sv' = AList.update key
       (sc\<lparr>sc_conn := conn s, sc_session := sess s, sc_closed_emitted := sc_closed_emitted sc \<or> flag\<rparr>) (sv_clients sv)"
    and mem: "sv_parser_memory sv' = budget_of s (sv_parser_memory sv)"
    using assms(2) unfolding operates_def by blast
  let ?sc = "sc\<lparr>sc_conn := conn s, sc_session := sess s, sc_closed_emitted := sc_closed_emitted sc \<or> flag\<rparr>"
  have root: "root_ok (sv_parser_memory sv)" using assms(3) by (simp add: budget_ok_def)
  note k = keeps_lend [OF conjunct1 [OF client_used_le [OF assms(3) sc]] root
      conjunct2 [OF client_used_le [OF assms(3) sc]] session_steps_keep [OF assms(1) st],
      where c = "conn s" and f = "sc_closed_emitted sc \<or> flag"]
  have "hm_total client_used (sv_clients sv') + client_used sc = hm_total client_used (sv_clients sv) + client_used ?sc"
    unfolding cl by (rule hm_total_update_Some [OF sc])
  moreover have "client_used ?sc = pm_used (memory s)" by (simp add: client_used_def)
  moreover have "list_all (\<lambda>kv. client_ok (snd kv)) (sv_clients sv')"
    unfolding cl using assms(3) k by (intro list_all_update) (auto simp: budget_ok_def)
  ultimately show ?thesis using k assms(3) by (simp add: budget_ok_def mem)
qed

section \<open>Closed events\<close>

fun closes_msg :: "u64 \<Rightarrow> server_msg \<Rightarrow> bool" where
  "closes_msg i (SessionMsg j e) \<longleftrightarrow> i = j \<and> is_closed_ev e"
| "closes_msg i _ \<longleftrightarrow> False"

definition closes_of :: "u64 \<Rightarrow> server_msg list \<Rightarrow> nat" where
  "closes_of i msgs = length (filter (closes_msg i) msgs)"

lemma closes_of_simps [simp]:
  "closes_of i [] = 0" "closes_of i (a @ b) = closes_of i a + closes_of i b"
  "closes_of i (map (SessionMsg j) es) = (if i = j then n_closed es else 0)"
  by (simp_all add: closes_of_def n_closed_def filter_map comp_def)

definition history :: "'c server \<Rightarrow> server_msg list" where
  "history sv = concat (sv_emitted sv) @ sv_out sv"

text \<open>How many Closed events a session has reported: one if it is over, none before.\<close>

definition ended :: "'c server \<Rightarrow> u64 \<Rightarrow> bool" where
  "ended sv i =
     (case map_of (sv_sessions sv) i of
        None \<Rightarrow> i < sv_next_session_id sv
      | Some k \<Rightarrow> (case map_of (sv_clients sv) k of None \<Rightarrow> False | Some sc \<Rightarrow> s_closed (sc_session sc)))"

definition closes_ok :: "'c server \<Rightarrow> bool" where
  "closes_ok sv \<longleftrightarrow> (\<forall>i. i \<noteq> 0 \<longrightarrow> closes_of i (history sv) = of_bool (ended sv i))"

lemma steps_lend_closes:
  assumes "steps E Q (lend root sc) s"
  shows "n_closed (evs s) + of_bool (s_closed (sc_session sc)) = of_bool (closed s)"
  using ev.session_steps_rel [OF assms] by (auto simp: evolves_def lend_def)

lemma operates_closes:
  assumes "operates E Q flag sv sv'" and "table_ok sv" and "closes_ok sv"
  shows "closes_ok sv'"
  unfolding closes_ok_def
proof (intro allI impI)
  fix i :: u64
  assume i: "i \<noteq> 0"
  obtain key sc s where
    sc: "map_of (sv_clients sv) key = Some sc" and st: "steps E Q (lend (sv_parser_memory sv) sc) s"
    and cl: "sv_clients sv' = AList.update key
       (sc\<lparr>sc_conn := conn s, sc_session := sess s, sc_closed_emitted := sc_closed_emitted sc \<or> flag\<rparr>) (sv_clients sv)"
    and out: "sv_out sv' = sv_out sv @ map (SessionMsg (sc_session_id sc)) (evs s)"
    and same: "sv_sessions sv' = sv_sessions sv" "sv_next_session_id sv' = sv_next_session_id sv"
      "sv_emitted sv' = sv_emitted sv"
    using assms(1) unfolding operates_def by blast
  have old: "closes_of i (history sv) = of_bool (ended sv i)" using assms(3) i by (simp add: closes_ok_def)
  have new: "closes_of i (history sv') = closes_of i (history sv) + (if i = sc_session_id sc then n_closed (evs s) else 0)"
    by (simp add: history_def out same)
  have at: "id_at sv key = Some (sc_session_id sc)" using sc by (simp add: id_at_def)
  then have key: "map_of (sv_sessions sv) (sc_session_id sc) = Some key" using table_okD(2) [OF assms(2)] by blast
  show "closes_of i (history sv') = of_bool (ended sv' i)"
  proof (cases "i = sc_session_id sc")
    case True
    have "ended sv i = s_closed (sc_session sc)" "ended sv' i = closed s"
      using True key sc by (simp_all add: ended_def same cl)
    with new old steps_lend_closes [OF st] True show ?thesis by simp
  next
    case False
    have "k \<noteq> key" if "map_of (sv_sessions sv) i = Some k" for k
    proof
      assume "k = key"
      then have "id_at sv key = Some i" using that table_okD(3) [OF assms(2)] by blast
      with at False show False by simp
    qed
    then have "ended sv' i = ended sv i"
      by (auto simp: ended_def same cl split: option.splits)
    with new old False show ?thesis by simp
  qed
qed

section \<open>The operations of an iteration\<close>

text \<open>What holds between two operations of an iteration; \<open>unflagged\<close> until connections are reaped.\<close>

definition server_ok :: "'c server \<Rightarrow> bool" where
  "server_ok sv \<longleftrightarrow> table_ok sv \<and> budget_ok sv \<and> closes_ok sv"

definition unflagged :: "'c server \<Rightarrow> bool" where
  "unflagged sv \<longleftrightarrow> list_all (\<lambda>kv. \<not> sc_closed_emitted (snd kv)) (sv_clients sv)"

lemma operates_ok:
  "alloc_ok (e_alloc E) \<Longrightarrow> operates E Q flag sv sv' \<Longrightarrow> server_ok sv \<Longrightarrow> server_ok sv'"
  using operates_table operates_budget operates_closes unfolding server_ok_def by blast

lemma operates_unflagged: "operates E Q False sv sv' \<Longrightarrow> unflagged sv \<Longrightarrow> unflagged sv'"
  unfolding operates_def unflagged_def
  by (elim exE conjE, simp only:, rule list_all_update, assumption)
    (auto simp: list_all_iff dest!: map_of_SomeD)

lemma operates_next: "operates E Q f sv sv' \<Longrightarrow> sv_next_session_id sv' = sv_next_session_id sv"
  by (auto simp: operates_def)

text \<open>An operation on one connection, or none at all.\<close>

definition works :: "env \<Rightarrow> 'c quic \<Rightarrow> 'c server \<Rightarrow> 'c server \<Rightarrow> bool" where
  "works E Q sv sv' \<longleftrightarrow> sv' = sv \<or> operates E Q False sv sv'"

lemma works_ok:
  "alloc_ok (e_alloc E) \<Longrightarrow> works E Q sv sv' \<Longrightarrow> server_ok sv \<and> unflagged sv \<Longrightarrow>
   server_ok sv' \<and> unflagged sv' \<and> sv_next_session_id sv' = sv_next_session_id sv"
  unfolding works_def using operates_ok operates_unflagged operates_next by metis

lemma session_command_step: "cmd \<noteq> SShutdown \<Longrightarrow> session_step E Q s (session_command Q cmd s)"
  by (cases cmd) (auto intro: session_step.intros split: prod.split)

lemma apply_command_works:
  assumes "table_ok sv" and "cmd \<noteq> SShutdown"
  shows "works E Q sv (apply_command Q cmd sv)"
proof (cases "\<exists>i k sc. command_session cmd = Some i \<and> map_of (sv_sessions sv) i = Some k \<and> map_of (sv_clients sv) k = Some sc")
  case True
  then obtain i k sc where c: "command_session cmd = Some i" "map_of (sv_sessions sv) i = Some k"
    "map_of (sv_clients sv) k = Some sc" by blast
  let ?s = "session_command Q cmd (lend (sv_parser_memory sv) sc)"
  have "id_at sv k = Some i" using table_okD(3) [OF assms(1) c(2)] by blast
  then have i: "sc_session_id sc = i" using c(3) by (simp add: id_at_def)
  have st: "steps E Q (lend (sv_parser_memory sv) sc) ?s" using session_command_step [OF assms(2)] by blast
  have "apply_command Q cmd sv = give_back k sc ?s sv"
    using c i by (simp add: apply_command_def give_back_def budget_of_def Let_def)
  with operatesI [OF c(3) st, of sv] show ?thesis by (simp add: works_def)
qed (auto simp: apply_command_def works_def split: option.split)

text \<open>What only changes connections changes none of this.\<close>

definition unwired :: "'k \<times> 'c server_conn \<Rightarrow> 'k \<times> wt_session \<times> u64 \<times> bool" where
  "unwired kv = (fst kv, sc_session (snd kv), sc_session_id (snd kv), sc_closed_emitted (snd kv))"

lemma unwired_map_of:
  "map unwired m = map unwired m' \<Longrightarrow>
   map_option (\<lambda>sc. (sc_session sc, sc_session_id sc, sc_closed_emitted sc)) (map_of m k)
     = map_option (\<lambda>sc. (sc_session sc, sc_session_id sc, sc_closed_emitted sc)) (map_of m' k)"
proof (induction m arbitrary: m')
  case (Cons kv m)
  then obtain kv' m2 where m': "m' = kv' # m2" by (cases m') auto
  with Cons show ?case by (auto simp: unwired_def)
qed simp

lemma map_via_unwired:
  assumes "map unwired m = map unwired m'" and "\<And>kv. f kv = g (unwired kv)"
  shows "map f m = map f m'"
proof -
  have "map f xs = map g (map unwired xs)" for xs using assms(2) by (simp add: comp_def)
  then show ?thesis by (metis assms(1))
qed

lemma rewired_ok:
  assumes "map unwired m = map unwired (sv_clients sv)"
  shows "server_ok (sv\<lparr>sv_clients := m\<rparr>) = server_ok sv" "unflagged (sv\<lparr>sv_clients := m\<rparr>) = unflagged sv"
proof -
  note mv = map_via_unwired [OF assms]
  have keys: "map fst m = map fst (sv_clients sv)" by (rule mv [of fst fst]) (simp add: unwired_def)
  have tot: "map (client_used \<circ> snd) m = map (client_used \<circ> snd) (sv_clients sv)"
    by (rule mv [of _ "\<lambda>(k, w, i, f). pm_used (s_parser_memory w)"]) (simp add: unwired_def client_used_def)
  have ok: "map (client_ok \<circ> snd) m = map (client_ok \<circ> snd) (sv_clients sv)"
    by (rule mv [of _ "\<lambda>(k, w, i, f). client_ok \<lparr>sc_conn = undefined, sc_session = w, sc_session_id = i, sc_closed_emitted = f\<rparr>"])
      (simp add: unwired_def client_ok_def client_used_def)
  have fl: "map (sc_closed_emitted \<circ> snd) m = map (sc_closed_emitted \<circ> snd) (sv_clients sv)"
    by (rule mv [of _ "\<lambda>(k, w, i, f). f"]) (simp add: unwired_def)
  have ids: "id_at (sv\<lparr>sv_clients := m\<rparr>) = id_at sv"
  proof
    fix k
    show "id_at (sv\<lparr>sv_clients := m\<rparr>) k = id_at sv k"
      using arg_cong [OF unwired_map_of [OF assms, of k], of "map_option (fst \<circ> snd)"]
      by (simp add: id_at_def option.map_comp comp_def)
  qed
  have cl: "map_option (s_closed \<circ> sc_session) (map_of m k) = map_option (s_closed \<circ> sc_session) (map_of (sv_clients sv) k)" for k
    using arg_cong [OF unwired_map_of [OF assms, of k], of "map_option (s_closed \<circ> fst)"]
    by (simp add: option.map_comp comp_def)
  have opt: "(case x of None \<Rightarrow> False | Some sc \<Rightarrow> s_closed (sc_session sc)) = (map_option (s_closed \<circ> sc_session) x = Some True)"
    for x :: "'b server_conn option" by (cases x) auto
  have "ended (sv\<lparr>sv_clients := m\<rparr>) = ended sv"
    by (rule ext) (simp add: ended_def opt cl cong: option.case_cong)
  moreover have "history (sv\<lparr>sv_clients := m\<rparr>) = history sv" by (simp add: history_def)
  ultimately have c: "closes_ok (sv\<lparr>sv_clients := m\<rparr>) = closes_ok sv" by (simp add: closes_ok_def)
  have t: "table_ok (sv\<lparr>sv_clients := m\<rparr>) = table_ok sv"
    unfolding table_ok_def ids using keys map_eq_imp_length_eq [OF keys] by simp
  have la: "list_all (\<lambda>kv. P (snd kv)) xs = list_all id (map (P \<circ> snd) xs)" for P and xs :: "(bytes \<times> 'b server_conn) list"
    by (simp add: list_all_iff)
  have b: "budget_ok (sv\<lparr>sv_clients := m\<rparr>) = budget_ok sv"
    by (simp add: budget_ok_def hm_total_def tot la ok del: comp_apply)
  show "server_ok (sv\<lparr>sv_clients := m\<rparr>) = server_ok sv" by (simp add: server_ok_def t b c)
  have nf: "list_all (\<lambda>kv. \<not> sc_closed_emitted (snd kv)) xs = list_all Not (map (sc_closed_emitted \<circ> snd) xs)"
    for xs :: "(bytes \<times> 'b server_conn) list" by (simp add: list_all_iff)
  have "sv_clients (sv\<lparr>sv_clients := m\<rparr>) = m" by simp
  then show "unflagged (sv\<lparr>sv_clients := m\<rparr>) = unflagged sv" unfolding unflagged_def nf by (simp only: fl)
qed

lemma unwired_update:
  "map_of m k = Some sc \<Longrightarrow> map unwired (AList.update k (sc\<lparr>sc_conn := c\<rparr>) m) = map unwired m"
  by (induction m) (auto simp: unwired_def)

lemma deliver_packet_ok:
  "server_ok (deliver_packet N R pkt src scid sv) = server_ok sv"
  "unflagged (deliver_packet N R pkt src scid sv) = unflagged sv"
  "sv_next_session_id (deliver_packet N R pkt src scid sv) = sv_next_session_id sv"
  by (simp_all add: deliver_packet_def rewired_ok [OF unwired_update] split: option.split prod.split)

lemma fire_timeouts_ok:
  "server_ok (fire_timeouts Q sv) = server_ok sv" "unflagged (fire_timeouts Q sv) = unflagged sv"
  "sv_next_session_id (fire_timeouts Q sv) = sv_next_session_id sv"
  using rewired_ok [of "hm_map (\<lambda>sc. sc\<lparr>sc_conn := q_on_timeout Q (sc_conn sc)\<rparr>) (sv_clients sv)" sv]
  by (auto simp: fire_timeouts_def hm_map_def unwired_def comp_def case_prod_beta)

lemma send_retry_ok:
  "server_ok (send_retry N A R rnd hdr src sv) = server_ok sv" "unflagged (send_retry N A R rnd hdr src sv) = unflagged sv"
  "sv_next_session_id (send_retry N A R rnd hdr src sv) = sv_next_session_id sv"
  by (simp_all add: send_retry_def Let_def server_ok_def table_ok_def id_at_def budget_ok_def closes_ok_def history_def
      ended_def unflagged_def split: option.split)

text \<open>Accepting a connection: the id is fresh as long as the counter has not wrapped around.\<close>

lemma unat_next: "n + 1 \<noteq> (0 :: u64) \<Longrightarrow> unat (n + 1) = Suc (unat n)"
  using unatSuc [of n] by (simp add: add.commute)

lemma next_id_less: "n + 1 \<noteq> (0 :: u64) \<Longrightarrow> i < n + 1 \<longleftrightarrow> i < n \<or> i = n"
  unfolding word_less_nat_alt by (simp add: unat_next less_Suc_eq word_unat_eq_iff)

lemma new_connection_table:
  assumes "table_ok sv" and "map_of (sv_routing sv) key = None" and "length (sv_clients sv) < MAX_CONNECTIONS"
    and "sv_next_session_id sv \<noteq> 0" and "sv_next_session_id sv + 1 \<noteq> 0"
  shows "table_ok (new_connection su key src c sv)" and "map_of (sv_clients sv) key = None"
    and "map_of (sv_sessions sv) (sv_next_session_id sv) = None"
proof -
  let ?n = "sv_next_session_id sv" and ?sv' = "new_connection su key src c sv"
  have nid: "id_at sv key = None" using table_okD(2) [OF assms(1), of key] assms(2) by (cases "id_at sv key") auto
  show nk: "map_of (sv_clients sv) key = None" using nid by (simp add: id_at_def)
  show ni: "map_of (sv_sessions sv) ?n = None"
    using table_okD(3) [OF assms(1), of ?n] by (cases "map_of (sv_sessions sv) ?n") auto
  have keys: "key \<notin> set (map fst (sv_clients sv))" using nk by (simp add: map_of_eq_None_iff)
  have len: "length (AList.update key x (sv_clients sv)) = Suc (length (sv_clients sv))" for x
    using keys arg_cong [OF update_keys [of key x "sv_clients sv"], of length] by simp
  have ids: "id_at ?sv' k = (if k = key then Some ?n else id_at sv k)" for k
    by (simp add: id_at_def new_connection_def Let_def)
  have r: "map_of (sv_routing ?sv') k = (if k = key then Some key else map_of (sv_routing sv) k)"
    "map_of (sv_sessions ?sv') i = (if i = ?n then Some key else map_of (sv_sessions sv) i)"
    "sv_next_session_id ?sv' = ?n + 1" for k i by (simp_all add: new_connection_def Let_def)
  have ks: "set (map fst (sv_clients ?sv')) = insert key (set (map fst (sv_clients sv)))"
    using keys by (auto simp: new_connection_def Let_def update_keys)
  show "table_ok ?sv'"
    unfolding table_ok_def
  proof (intro conjI allI impI)
    show "distinct (map fst (sv_clients ?sv'))" "distinct (map fst (sv_sessions ?sv'))" "distinct (map fst (sv_routing ?sv'))"
      using table_okD(4,5,7) [OF assms(1)] by (simp_all add: new_connection_def Let_def distinct_update)
    show "length (sv_clients ?sv') \<le> MAX_CONNECTIONS" using assms(3) by (simp add: new_connection_def Let_def len)
    fix k v
    assume "map_of (sv_routing ?sv') k = Some v"
    then show "v = k" "k \<in> set (map fst (sv_clients ?sv'))"
      unfolding ks using table_okD(1) [OF assms(1), of k v] r(1) [of k] by (auto split: if_splits)
  next
    fix k i
    assume "id_at ?sv' k = Some i"
    then show "map_of (sv_routing ?sv') k = Some k" "map_of (sv_sessions ?sv') i = Some k"
      using table_okD(2) [OF assms(1), of k i] ni by (auto simp: r ids split: if_splits)
  next
    fix i k
    assume "map_of (sv_sessions ?sv') i = Some k"
    then show "i \<noteq> 0" "i < sv_next_session_id ?sv'" "id_at ?sv' k = Some i"
      using table_okD(3) [OF assms(1), of i k] assms(4,5) nid
      by (auto simp: r ids next_id_less split: if_splits)
  qed
qed

lemma client_ok_new:
  "client_ok \<lparr>sc_conn = c, sc_session = new_server rem sp al rh root, sc_session_id = i, sc_closed_emitted = False\<rparr>"
  "client_used \<lparr>sc_conn = c, sc_session = new_server rem sp al rh root, sc_session_id = i, sc_closed_emitted = False\<rparr> = 0"
  by (simp_all add: client_ok_def client_used_def new_server_def held_def ParserMemory_child_def ParserBuffer_new_def pb_ok_def)

lemma new_connection_ok:
  assumes "server_ok sv" and "unflagged sv" and "map_of (sv_routing sv) key = None"
    and "length (sv_clients sv) < MAX_CONNECTIONS" and "sv_next_session_id sv \<noteq> 0" and "sv_next_session_id sv + 1 \<noteq> 0"
  shows "server_ok (new_connection su key src c sv) \<and> unflagged (new_connection su key src c sv)"
proof -
  let ?n = "sv_next_session_id sv" and ?sv' = "new_connection su key src c sv"
  have ok: "table_ok sv" "budget_ok sv" "closes_ok sv" using assms(1) by (simp_all add: server_ok_def)
  note t = new_connection_table [OF ok(1) assms(3-6)]
  have b: "budget_ok ?sv'"
    using ok(2) t(2) by (auto simp: budget_ok_def new_connection_def Let_def hm_total_update_None client_ok_new intro!: list_all_update)
  have h: "history ?sv' = history sv" by (simp add: history_def new_connection_def Let_def)
  have new: "ended ?sv' ?n = False" "ended sv ?n = False"
    using t(3) by (simp_all add: ended_def new_connection_def Let_def new_server_def)
  have same: "ended ?sv' i = ended sv i" if "i \<noteq> ?n" for i
  proof (cases "map_of (sv_sessions sv) i")
    case None
    with that show ?thesis by (simp add: ended_def new_connection_def Let_def next_id_less [OF assms(6)])
  next
    case (Some k)
    then have "id_at sv k = Some i" using table_okD(3) [OF ok(1)] by blast
    then have "k \<noteq> key" using t(2) by (auto simp: id_at_def)
    with Some that show ?thesis by (simp add: ended_def new_connection_def Let_def)
  qed
  have "closes_ok ?sv'" unfolding closes_ok_def h
  proof (intro allI impI)
    fix i :: u64
    assume "i \<noteq> 0"
    then have "closes_of i (history sv) = of_bool (ended sv i)" using ok(3) by (simp add: closes_ok_def)
    then show "closes_of i (history sv) = of_bool (ended ?sv' i)" using new same by (cases "i = ?n") simp_all
  qed
  moreover have "unflagged ?sv'"
    using assms(2) by (auto simp: unflagged_def new_connection_def Let_def intro!: list_all_update)
  ultimately show ?thesis using t(1) b by (simp add: server_ok_def)
qed

text \<open>The receive loop: each packet uses up at most one session id.\<close>

definition ids_left :: "'c server \<Rightarrow> nat \<Rightarrow> bool" where
  "ids_left sv n \<longleftrightarrow> sv_next_session_id sv \<noteq> 0 \<and> unat (sv_next_session_id sv) + n < 2 ^ 64"

lemma route_packet_cases:
  assumes "route_packet N A su R inflight rnd hdr src sv = (r, sv')"
  obtains "sv' = sv" "r = map_of (sv_routing sv) (ph_dcid hdr)" | "sv' = send_retry N A R rnd hdr src sv" "r = None"
  | c token odcid where "map_of (sv_routing sv) (ph_dcid hdr) = None" "length (sv_clients sv) < MAX_CONNECTIONS"
      "ph_token hdr = Some token" "validate_token (a_sha256 A) (re_secret R) src token = Some odcid"
      "a_accept A (ph_dcid hdr) odcid (re_local R) src (re_config R) = Some c"
      "inflight < SERVER_MAX_INFLIGHT" "r = Some (ph_dcid hdr)" "sv' = new_connection su (ph_dcid hdr) src c sv"
proof -
  note r = assms [unfolded route_packet_def Let_def]
  show thesis
  proof (cases "map_of (sv_routing sv) (ph_dcid hdr) = None \<and> ph_initial hdr
      \<and> \<not> (length (sv_clients sv) \<ge> MAX_CONNECTIONS \<or> inflight \<ge> SERVER_MAX_INFLIGHT)")
    case False
    then show thesis using r that(1) by (auto split: option.splits if_splits)
  next
    case True
    show thesis
    proof (cases "ph_token hdr = None \<or> ph_token hdr = Some []")
      case True
      then show thesis using r that(1,2) \<open>map_of _ _ = None \<and> _\<close> by auto
    next
      case False
      then obtain token where t: "ph_token hdr = Some token" "token \<noteq> []" by auto
      show thesis
      proof (cases "validate_token (a_sha256 A) (re_secret R) src token")
        case None
        then show thesis using r that(1) True t by auto
      next
        case (Some odcid)
        show thesis
        proof (cases "a_accept A (ph_dcid hdr) odcid (re_local R) src (re_config R)")
          case None
          then show thesis using r that(1) True t Some by auto
        next
          case (Some c)
          show thesis
            by (rule that(3) [OF _ _ t(1) \<open>validate_token _ _ _ _ = Some odcid\<close> Some])
              (use r True t Some \<open>validate_token _ _ _ _ = Some odcid\<close> in \<open>simp_all add: not_le\<close>)
        qed
      qed
    qed
  qed
qed

lemma route_packet_ok:
  assumes "server_ok sv" and "unflagged sv" and "ids_left sv (Suc n)"
    and "route_packet N A su R inflight rnd hdr src sv = (r, sv')"
  shows "server_ok sv' \<and> unflagged sv' \<and> ids_left sv' n"
proof -
  have less: "ids_left sv n" using assms(3) by (simp add: ids_left_def)
  have wrap: "sv_next_session_id sv + 1 \<noteq> 0"
  proof
    assume "sv_next_session_id sv + 1 = 0"
    then have "sv_next_session_id sv = - 1" by (simp add: eq_neg_iff_add_eq_0)
    then have "unat (sv_next_session_id sv) = 2 ^ 64 - 1"
      by (simp add: unsigned_minus_1_eq_mask mask_eq_exp_minus_1)
    with assms(3) show False by (simp add: ids_left_def)
  qed
  have nc: "ids_left (new_connection su key src c sv) n" for key c
    using assms(3) wrap by (simp add: ids_left_def new_connection_def Let_def unat_next)
  have retry: "ids_left (send_retry N A R rnd hdr src sv) n" using less by (simp add: ids_left_def send_retry_ok)
  have acc: "server_ok (new_connection su (ph_dcid hdr) src c sv) \<and> unflagged (new_connection su (ph_dcid hdr) src c sv)"
    if "map_of (sv_routing sv) (ph_dcid hdr) = None" "length (sv_clients sv) < MAX_CONNECTIONS" for c
    using new_connection_ok [OF assms(1,2) that _ wrap] assms(3) by (simp add: ids_left_def)
  from assms(4) show ?thesis
    by (rule route_packet_cases) (use assms(1,2) less retry nc acc in \<open>simp_all add: send_retry_ok\<close>)
qed

lemma server_recv_ok:
  "server_ok sv \<Longrightarrow> unflagged sv \<Longrightarrow> ids_left sv (length items + n) \<Longrightarrow>
   server_ok (server_recv budget N A su R items sv) \<and> unflagged (server_recv budget N A su R items sv)
   \<and> ids_left (server_recv budget N A su R items sv) n"
proof (induction budget N A su R items sv rule: server_recv.induct)
  case (4 budget N A su R pkt src inflight rnd rest sv)
  have less: "ids_left sv (length rest + n)" using "4.prems"(3) by (simp add: ids_left_def)
  show ?case
  proof (cases "a_header A pkt LOCAL_CONN_ID_LEN")
    case None
    with "4.IH"(1) [OF None "4.prems"(1,2) less] show ?thesis by simp
  next
    case (Some hdr)
    obtain r sv1 where r: "route_packet N A su R inflight rnd hdr src sv = (r, sv1)" by fastforce
    have ok: "server_ok sv1" "unflagged sv1" "ids_left sv1 (length rest + n)"
      using route_packet_ok [OF "4.prems"(1,2) _ r, of "length rest + n"] "4.prems"(3) by simp_all
    have ok2: "ids_left (deliver_packet N R pkt src scid sv1) (length rest + n)" for scid
      using ok(3) by (simp add: ids_left_def deliver_packet_ok)
    show ?thesis
    proof (cases r)
      case None
      with "4.IH"(2) [OF Some r [symmetric] None ok] Some r show ?thesis by simp
    next
      case (Some scid)
      with "4.IH"(3) [OF \<open>a_header A pkt LOCAL_CONN_ID_LEN = Some hdr\<close> r [symmetric] Some, OF _ _ ok2]
        \<open>a_header A pkt LOCAL_CONN_ID_LEN = Some hdr\<close> r ok(1,2)
      show ?thesis by (simp add: deliver_packet_ok)
    qed
  qed
qed (auto simp: ids_left_def)

lemma drain_server_commands_ok:
  fixes E :: env
  shows "alloc_ok (e_alloc E) \<Longrightarrow> server_ok sv \<and> unflagged sv \<Longrightarrow> drain_server_commands Q cmds sv = (sd, sv') \<Longrightarrow>
   server_ok sv' \<and> unflagged sv' \<and> sv_next_session_id sv' = sv_next_session_id sv"
proof (induction cmds arbitrary: sv)
  case (Cons cmd cmds)
  show ?case
  proof (cases "cmd = SShutdown")
    case True
    with Cons.prems show ?thesis by simp
  next
    case False
    have t: "table_ok sv" using Cons.prems(2) by (simp add: server_ok_def)
    note w = works_ok [OF Cons.prems(1) apply_command_works [OF t False, of E Q] Cons.prems(2)]
    have "drain_server_commands Q cmds (apply_command Q cmd sv) = (sd, sv')" using Cons.prems(3) False by simp
    from Cons.IH [OF Cons.prems(1) _ this] w show ?thesis by simp
  qed
qed simp

lemma drive_conn_works:
  assumes "drive_conn rounds E Q N bp key sv = Done sv'"
  shows "works E Q sv sv'"
proof (cases "map_of (sv_clients sv) key")
  case (Some sc)
  let ?beg = "lend (sv_parser_memory sv) sc"
  let ?est = "if q_is_established Q (conn ?beg) then on_established ?beg else ?beg"
  obtain s1 where d: "drive_session rounds E Q bp ?est = Done s1"
    using assms Some by (auto simp: drive_conn_def Let_def split: outcome.splits if_splits)
  let ?fin = "if is_closed s1 \<and> \<not> q_is_closed Q (conn s1) \<and> \<not> n_is_draining N (conn s1)
      then s1\<lparr>conn := q_close Q (conn s1) True H3_NO_ERROR []\<rparr> else s1"
  let ?upd = "case q_dgram_max_writable_len Q (conn ?fin) of
      Some sz \<Rightarrow> sv\<lparr>sv_max_datagram_size := sz - 1\<rparr> | None \<Rightarrow> sv"
  obtain c sent where f: "server_flush_send (rounds (conn ?fin)) N (conn ?fin) (sv_sent ?upd) = Some (c, sent)"
    and sv': "sv' = give_back key sc (?fin\<lparr>conn := c\<rparr>) (?upd\<lparr>sv_sent := sent\<rparr>)"
    using assms Some d unfolding drive_conn_def Let_def
    by (simp only: option.case outcome.case split: option.splits prod.splits) (auto split: option.splits)
  have "steps E Q ?beg ?est" by (auto intro: session_step.established)
  then have "steps E Q ?beg s1" using drive_session_steps [OF d] by (rule steps_trans)
  then have "steps E Q ?beg ?fin" by (auto intro: steps_then session_step.network)
  then have st: "steps E Q ?beg (?fin\<lparr>conn := c\<rparr>)" by (rule steps_then) (rule session_step.network)
  have "operates E Q False sv sv'"
    unfolding sv' by (rule operatesI [OF Some st]) (simp_all split: option.split)
  then show ?thesis by (simp add: works_def)
qed (use assms in \<open>simp add: drive_conn_def works_def\<close>)

lemma drive_conns_ok:
  "alloc_ok (e_alloc E) \<Longrightarrow> server_ok sv \<and> unflagged sv \<Longrightarrow> drive_conns rounds E Q N bp keys sv = Done sv' \<Longrightarrow>
   server_ok sv' \<and> unflagged sv' \<and> sv_next_session_id sv' = sv_next_session_id sv"
proof (induction keys arbitrary: sv)
  case (Cons key keys)
  obtain sv1 where d: "drive_conn rounds E Q N bp key sv = Done sv1"
    and r: "drive_conns rounds E Q N bp keys sv1 = Done sv'"
    using Cons.prems(3) by (auto split: outcome.splits)
  note w = works_ok [OF Cons.prems(1) drive_conn_works [OF d] Cons.prems(2)]
  from Cons.IH [OF Cons.prems(1) _ r] w show ?case by simp
qed simp

section \<open>Reaping\<close>

text \<open>While connections are reaped: a connection whose end was reported has a closed session.\<close>

definition flags_ok :: "'c quic \<Rightarrow> 'c server \<Rightarrow> bool" where
  "flags_ok Q sv \<longleftrightarrow>
     (\<forall>k sc. map_of (sv_clients sv) k = Some sc \<longrightarrow> sc_closed_emitted sc \<longrightarrow>
        q_is_closed Q (sc_conn sc) \<and> s_closed (sc_session sc))"

text \<open>At these keys, a closed connection has a closed session.\<close>

definition reaped :: "'c quic \<Rightarrow> bytes set \<Rightarrow> 'c server \<Rightarrow> bool" where
  "reaped Q ks sv \<longleftrightarrow>
     (\<forall>k\<in>ks. \<forall>sc. map_of (sv_clients sv) k = Some sc \<longrightarrow> q_is_closed Q (sc_conn sc) \<longrightarrow> s_closed (sc_session sc))"

lemma server_closure_info_eq: "server_closure_info Q c = closure_info Q c"
  by (simp add: server_closure_info_def closure_info_def)

lemma report_server_closure_eq: "report_server_closure Q s = report_closure Q s"
  unfolding report_server_closure_def report_closure_def is_closed_def server_closure_info_eq ..

lemma conn_mark_closed [simp]: "conn (mark_closed c r b s) = conn s"
  by (simp add: mark_closed_def push_ev_def upd_def split: prod.split)

lemma conn_report_closure [simp]: "conn (report_closure Q s) = conn s"
  by (simp add: report_closure_def push_ev_def split: option.split prod.split)

lemma reap_conn_step:
  assumes "flags_ok Q sv" and "reaped Q ks sv"
  shows "(reap_conn Q key sv = sv \<or> operates E Q True sv (reap_conn Q key sv))
    \<and> flags_ok Q (reap_conn Q key sv) \<and> reaped Q (insert key ks) (reap_conn Q key sv)
    \<and> map fst (sv_clients (reap_conn Q key sv)) = map fst (sv_clients sv)
    \<and> sv_next_session_id (reap_conn Q key sv) = sv_next_session_id sv"
proof (cases "\<exists>sc. map_of (sv_clients sv) key = Some sc \<and> q_is_closed Q (sc_conn sc) \<and> \<not> sc_closed_emitted sc")
  case True
  then obtain sc where sc: "map_of (sv_clients sv) key = Some sc" "q_is_closed Q (sc_conn sc)" "\<not> sc_closed_emitted sc"
    by blast
  let ?s = "report_closure Q (lend (sv_parser_memory sv) sc)"
  let ?sc = "sc\<lparr>sc_conn := conn ?s, sc_session := sess ?s, sc_closed_emitted := True\<rparr>"
  have e: "reap_conn Q key sv = give_back key (sc\<lparr>sc_closed_emitted := True\<rparr>) ?s sv"
    using sc by (simp add: reap_conn_def report_server_closure_eq)
  have swap: "sc\<lparr>sc_closed_emitted := True, sc_conn := a, sc_session := b\<rparr>
      = sc\<lparr>sc_conn := a, sc_session := b, sc_closed_emitted := True\<rparr>" for a b by (cases sc) simp
  have cl: "sv_clients (reap_conn Q key sv) = AList.update key ?sc (sv_clients sv)"
    using sc by (simp add: e give_back_def swap)
  have "operates E Q True sv (reap_conn Q key sv)"
    unfolding operates_def
    by (rule exI [of _ key], rule exI [of _ sc], rule exI [of _ ?s])
      (use sc report_closure_steps in \<open>simp add: e give_back_def swap\<close>)
  moreover have "flags_ok Q (reap_conn Q key sv)" using assms(1) sc(2)
    by (auto simp: flags_ok_def cl split: if_splits) (simp add: lend_def)
  moreover have "reaped Q (insert key ks) (reap_conn Q key sv)" using assms(2) by (auto simp: reaped_def cl split: if_splits)
  ultimately show ?thesis using keys_update_Some [OF sc(1)] by (simp add: cl) (simp add: e give_back_def)
next
  case False
  then have "reap_conn Q key sv = sv" by (auto simp: reap_conn_def split: option.split)
  moreover have "reaped Q (insert key ks) sv" using False assms by (auto simp: reaped_def flags_ok_def)
  ultimately show ?thesis using assms(1) by simp
qed

lemma reap_conns_ok:
  fixes E :: env
  assumes "alloc_ok (e_alloc E)"
  shows "server_ok sv \<Longrightarrow> flags_ok Q sv \<Longrightarrow> reaped Q ks sv \<Longrightarrow> sv' = foldl (\<lambda>sv key. reap_conn Q key sv) sv keys \<Longrightarrow>
    server_ok sv' \<and> flags_ok Q sv' \<and> reaped Q (ks \<union> set keys) sv' \<and> map fst (sv_clients sv') = map fst (sv_clients sv)
    \<and> sv_next_session_id sv' = sv_next_session_id sv"
proof (induction keys arbitrary: sv ks)
  case (Cons key keys)
  note r = reap_conn_step [OF Cons.prems(2,3), of key E]
  have ok: "server_ok (reap_conn Q key sv)" using r operates_ok [OF assms] Cons.prems(1) by metis
  from Cons.IH [OF ok _ _ , of "insert key ks"] r Cons.prems(4) show ?case by simp
qed simp

lemma drop_session_idle:
  assumes "held w = 0"
  shows "drop_session m w = m"
proof -
  have "foldl (\<lambda>m (_, st). drop_stream m st) m' xs = m'" if "hm_total st_caps xs = 0" for m' and xs :: "(u64 \<times> stream) list"
    using that by (induction xs arbitrary: m') (auto simp: drop_stream_def st_caps_def)
  with assms show ?thesis by (simp add: drop_session_def held_def)
qed

lemma map_of_deletes:
  "map_of (foldl (\<lambda>m (_, sc). AList.delete (sc_session_id sc) m) m gone) i
     = (if i \<in> sc_session_id ` snd ` set gone then None else map_of m i)"
  by (induction gone arbitrary: m) auto

lemma distinct_deletes:
  "distinct (map fst m) \<Longrightarrow> distinct (map fst (foldl (\<lambda>m (_, sc). AList.delete (sc_session_id sc) m) m gone))"
  by (induction gone arbitrary: m) (auto simp: distinct_delete)

lemma hm_total_split:
  "hm_total f m = hm_total f (filter P m) + hm_total f (filter (\<lambda>kv. \<not> P kv) m)"
  by (induction m) auto

definition conns_open :: "'c quic \<Rightarrow> 'c server \<Rightarrow> (bytes \<times> 'c server_conn) list" where
  "conns_open Q sv = filter (\<lambda>(_, sc). \<not> q_is_closed Q (sc_conn sc)) (sv_clients sv)"

definition conns_gone :: "'c quic \<Rightarrow> 'c server \<Rightarrow> (bytes \<times> 'c server_conn) list" where
  "conns_gone Q sv = filter (\<lambda>(_, sc). q_is_closed Q (sc_conn sc)) (sv_clients sv)"

abbreviation ids_gone :: "'c quic \<Rightarrow> 'c server \<Rightarrow> u64 set" where
  "ids_gone Q sv \<equiv> sc_session_id ` snd ` set (conns_gone Q sv)"

lemma conns_open_of:
  assumes "table_ok sv"
  shows "map_of (conns_open Q sv) k = Some sc \<longleftrightarrow> map_of (sv_clients sv) k = Some sc \<and> \<not> q_is_closed Q (sc_conn sc)"
  unfolding conns_open_def
  by (rule map_of_filter_val [OF table_okD(4) [OF assms], of "\<lambda>sc. \<not> q_is_closed Q (sc_conn sc)"])

lemma conns_gone_of:
  assumes "table_ok sv"
  shows "(k, sc) \<in> set (conns_gone Q sv) \<longleftrightarrow> map_of (sv_clients sv) k = Some sc \<and> q_is_closed Q (sc_conn sc)"
  using table_okD(4) [OF assms] by (auto simp: conns_gone_def)

lemma retain_open_fields:
  "sv_clients (retain_open Q sv) = conns_open Q sv" "sv_next_session_id (retain_open Q sv) = sv_next_session_id sv"
  "history (retain_open Q sv) = history sv"
  "map_of (sv_sessions (retain_open Q sv)) i = (if i \<in> ids_gone Q sv then None else map_of (sv_sessions sv) i)"
  by (simp_all add: retain_open_def Let_def conns_open_def conns_gone_def history_def map_of_deletes)

lemma retain_open_routing:
  assumes "table_ok sv"
  shows "map_of (sv_routing (retain_open Q sv)) k = Some v \<longleftrightarrow>
    map_of (sv_routing sv) k = Some v \<and> map_of (conns_open Q sv) v \<noteq> None"
proof -
  have f: "sv_routing (retain_open Q sv) = filter (\<lambda>(_, scid). map_of (conns_open Q sv) scid \<noteq> None) (sv_routing sv)"
    by (simp add: retain_open_def Let_def conns_open_def)
  show ?thesis
    unfolding f by (rule map_of_filter_val [OF table_okD(7) [OF assms], of "\<lambda>v. map_of (conns_open Q sv) v \<noteq> None"])
qed

lemma gone_idle:
  assumes "server_ok sv" and "reaped Q (set (map fst (sv_clients sv))) sv" and "(k, sc) \<in> set (conns_gone Q sv)"
  shows "s_closed (sc_session sc) \<and> held (sc_session sc) = 0 \<and> client_used sc = 0"
proof -
  have ok: "table_ok sv" "budget_ok sv" using assms(1) by (simp_all add: server_ok_def)
  have m: "map_of (sv_clients sv) k = Some sc" "q_is_closed Q (sc_conn sc)"
    using assms(3) conns_gone_of [OF ok(1)] by blast+
  have "k \<in> set (map fst (sv_clients sv))" using map_of_SomeD [OF m(1)] by force
  then have "s_closed (sc_session sc)" using assms(2) m unfolding reaped_def by blast
  then show ?thesis using client_used_le [OF ok(2) m(1)] by (simp add: client_ok_def)
qed

lemma retain_open_ids:
  assumes "table_ok sv"
  shows "id_at (retain_open Q sv) k = Some i \<longleftrightarrow> id_at sv k = Some i \<and> i \<notin> ids_gone Q sv"
proof -
  have "sc_session_id sc \<notin> ids_gone Q sv"
    if sc: "map_of (sv_clients sv) k = Some sc" "\<not> q_is_closed Q (sc_conn sc)" for sc
  proof
    assume "sc_session_id sc \<in> ids_gone Q sv"
    then obtain k2 sc2 where g: "(k2, sc2) \<in> set (conns_gone Q sv)" "sc_session_id sc = sc_session_id sc2" by auto
    then have "id_at sv k2 = Some (sc_session_id sc)" "id_at sv k = Some (sc_session_id sc)"
      using sc by (simp_all add: id_at_def conns_gone_of [OF assms])
    then have "k = k2" using table_okD(2) [OF assms] by (metis option.inject)
    with g sc show False by (simp add: conns_gone_of [OF assms])
  qed
  moreover have "sc_session_id sc \<in> ids_gone Q sv"
    if "map_of (sv_clients sv) k = Some sc" "q_is_closed Q (sc_conn sc)" for sc
    using that conns_gone_of [OF assms, of k sc Q] by force
  ultimately show ?thesis unfolding id_at_def retain_open_fields by (auto simp: conns_open_of [OF assms])
qed

lemma retain_open_table:
  assumes "table_ok sv"
  shows "table_ok (retain_open Q sv)"
  unfolding table_ok_def
proof (intro conjI allI impI)
  note td = table_okD [OF assms] and rt = retain_open_routing [OF assms] and ids = retain_open_ids [OF assms]
  let ?sv' = "retain_open Q sv"
  show "distinct (map fst (sv_clients ?sv'))" "distinct (map fst (sv_sessions ?sv'))" "distinct (map fst (sv_routing ?sv'))"
    using td(4,5,7) by (simp_all add: retain_open_def Let_def distinct_map_filter distinct_deletes)
  show "length (sv_clients ?sv') \<le> MAX_CONNECTIONS"
    using td(6) length_filter_le [of _ "sv_clients sv"] unfolding retain_open_fields conns_open_def
    by (rule order_trans [rotated])
  show "v = k" "k \<in> set (map fst (sv_clients ?sv'))" if r: "map_of (sv_routing ?sv') k = Some v" for k v
  proof -
    show "v = k" using r rt td(1) by blast
    with r obtain sc where "map_of (conns_open Q sv) k = Some sc" using rt by blast
    from map_of_SomeD [OF this] show "k \<in> set (map fst (sv_clients ?sv'))" by (force simp: retain_open_fields)
  qed
  show "map_of (sv_routing ?sv') k = Some k" "map_of (sv_sessions ?sv') i = Some k" if "id_at ?sv' k = Some i" for k i
  proof -
    have b: "id_at sv k = Some i" "i \<notin> ids_gone Q sv" using that ids by blast+
    show "map_of (sv_sessions ?sv') i = Some k" using td(2) [OF b(1)] b(2) by (simp add: retain_open_fields)
    have "map_of (conns_open Q sv) k \<noteq> None" using that by (auto simp: id_at_def retain_open_fields)
    then show "map_of (sv_routing ?sv') k = Some k" using td(2) [OF b(1)] rt by blast
  qed
  show "i \<noteq> 0" "i < sv_next_session_id ?sv'" "id_at ?sv' k = Some i" if "map_of (sv_sessions ?sv') i = Some k" for i k
  proof -
    have b: "map_of (sv_sessions sv) i = Some k" "i \<notin> ids_gone Q sv"
      using that by (auto simp: retain_open_fields split: if_splits)
    show "i \<noteq> 0" "i < sv_next_session_id ?sv'" using td(3) [OF b(1)] by (simp_all add: retain_open_fields)
    show "id_at ?sv' k = Some i" using td(3) [OF b(1)] b(2) ids by blast
  qed
qed

lemma retain_open_budget:
  assumes "server_ok sv" and "reaped Q (set (map fst (sv_clients sv))) sv"
  shows "budget_ok (retain_open Q sv)"
proof -
  have ok: "budget_ok sv" using assms(1) by (simp add: server_ok_def)
  note idle = gone_idle [OF assms]
  have "foldl (\<lambda>m (_, sc). drop_session m (sc_session sc)) m xs = m"
    if "\<forall>(k, sc)\<in>set xs. held (sc_session sc) = 0" for m and xs :: "(bytes \<times> 'a server_conn) list"
    using that by (induction xs) (auto simp: drop_session_idle)
  then have "foldl (\<lambda>m (_, sc). drop_session m (sc_session sc)) m (conns_gone Q sv) = m" for m using idle by fast
  then have root: "sv_parser_memory (retain_open Q sv) = sv_parser_memory sv"
    by (simp add: retain_open_def Let_def conns_gone_def)
  have "hm_total client_used (conns_gone Q sv) = 0" using idle by (auto simp: hm_total_def)
  then have "hm_total client_used (conns_open Q sv) = hm_total client_used (sv_clients sv)"
    using hm_total_split [of client_used "sv_clients sv" "\<lambda>(_, sc). q_is_closed Q (sc_conn sc)"]
    by (simp add: conns_gone_def conns_open_def case_prod_unfold)
  then show ?thesis using ok by (auto simp: budget_ok_def root retain_open_fields conns_open_def list_all_iff)
qed

lemma retain_open_ended:
  assumes "server_ok sv" and "reaped Q (set (map fst (sv_clients sv))) sv"
  shows "ended (retain_open Q sv) i = ended sv i"
proof (cases "map_of (sv_sessions sv) i")
  case None
  then show ?thesis by (simp add: ended_def retain_open_fields)
next
  case (Some k)
  have ok: "table_ok sv" using assms(1) by (simp add: server_ok_def)
  have at: "i < sv_next_session_id sv" "id_at sv k = Some i" using table_okD(3) [OF ok Some] by blast+
  then obtain sc where sc: "map_of (sv_clients sv) k = Some sc" "sc_session_id sc = i" by (auto simp: id_at_def)
  show ?thesis
  proof (cases "q_is_closed Q (sc_conn sc)")
    case True
    then have g: "(k, sc) \<in> set (conns_gone Q sv)" using sc by (simp add: conns_gone_of [OF ok])
    then have "i \<in> ids_gone Q sv" using sc(2) by force
    then have "ended (retain_open Q sv) i" using at by (simp add: ended_def retain_open_fields)
    moreover have "ended sv i" using gone_idle [OF assms g] Some sc by (simp add: ended_def)
    ultimately show ?thesis by simp
  next
    case False
    then have o: "map_of (conns_open Q sv) k = Some sc" using sc by (simp add: conns_open_of [OF ok])
    then have "id_at (retain_open Q sv) k = Some i" using sc(2) by (simp add: id_at_def retain_open_fields)
    then have "i \<notin> ids_gone Q sv" using retain_open_ids [OF ok] by blast
    then show ?thesis using Some sc o by (simp add: ended_def retain_open_fields)
  qed
qed

lemma retain_open_ok:
  assumes "server_ok sv" and "flags_ok Q sv" and "reaped Q (set (map fst (sv_clients sv))) sv"
  shows "server_ok (retain_open Q sv) \<and> unflagged (retain_open Q sv)"
proof -
  have ok: "table_ok sv" "closes_ok sv" using assms(1) by (simp_all add: server_ok_def)
  have "closes_ok (retain_open Q sv)"
    using ok(2) retain_open_ended [OF assms(1,3)] by (simp add: closes_ok_def retain_open_fields)
  moreover have "unflagged (retain_open Q sv)"
    using assms(2) table_okD(4) [OF ok(1)]
    by (auto simp: unflagged_def list_all_iff retain_open_fields conns_open_def flags_ok_def)
  ultimately show ?thesis
    using retain_open_table [OF ok(1)] retain_open_budget [OF assms(1,3)] by (simp add: server_ok_def)
qed

section \<open>Whole iterations\<close>

lemma reap_ok:
  fixes E :: env
  assumes "alloc_ok (e_alloc E)" and "server_ok sv" and "unflagged sv" and "set (map fst (sv_clients sv)) \<subseteq> set keys"
  shows "server_ok (reap Q keys sv) \<and> unflagged (reap Q keys sv)
    \<and> sv_next_session_id (reap Q keys sv) = sv_next_session_id sv"
proof -
  let ?sv1 = "foldl (\<lambda>sv key. reap_conn Q key sv) sv keys"
  have fl: "flags_ok Q sv" using assms(3) by (auto simp: flags_ok_def unflagged_def list_all_iff dest!: map_of_SomeD)
  have "reaped Q {} sv" by (simp add: reaped_def)
  note r = reap_conns_ok [OF assms(1,2) fl this refl, of keys]
  then have "reaped Q (set (map fst (sv_clients ?sv1))) ?sv1" using assms(4) by (auto simp: reaped_def)
  from retain_open_ok [OF _ _ this] r show ?thesis by (simp add: reap_def) (simp add: retain_open_def Let_def)
qed

text \<open>The hash map is visited completely, in some order.\<close>

definition order_ok :: "'c acceptor \<Rightarrow> bool" where
  "order_ok A \<longleftrightarrow> (\<forall>ks. set (a_order A ks) = set ks)"

text \<open>Between two iterations everything queued has been emitted.\<close>

definition between :: "'c server \<Rightarrow> bool" where
  "between sv \<longleftrightarrow> server_ok (sv\<lparr>sv_out := []\<rparr>) \<and> unflagged sv"

lemma server_ok_cong:
  assumes "sv_clients sv' = sv_clients sv" "sv_routing sv' = sv_routing sv" "sv_sessions sv' = sv_sessions sv"
    "sv_next_session_id sv' = sv_next_session_id sv" "sv_parser_memory sv' = sv_parser_memory sv" "history sv' = history sv"
  shows "server_ok sv' = server_ok sv"
proof -
  have ids: "id_at sv' = id_at sv" by (rule ext) (simp add: id_at_def assms)
  have en: "ended sv' = ended sv" unfolding ended_def assms ..
  show ?thesis unfolding server_ok_def table_ok_def budget_ok_def closes_ok_def ids en assms ..
qed

lemma server_ok_emit: "server_ok sv \<Longrightarrow> server_ok ((server_emit sv)\<lparr>sv_out := []\<rparr>)"
  using server_ok_cong [of "(server_emit sv)\<lparr>sv_out := []\<rparr>" sv] by (simp add: server_emit_def history_def)

lemma serve_wake_ok:
  fixes E :: env
  assumes "alloc_ok (e_alloc E)" and "order_ok A" and "between sv" and "ids_left sv (length (sw_recv w) + n)"
    and "serve_wake rounds E Q N A su R w sv = Continue sv'"
  shows "between sv' \<and> ids_left sv' n"
proof (cases "sw_poll_ok w")
  case False
  with assms(3-5) show ?thesis by (auto simp: serve_wake_def ids_left_def)
next
  case True
  let ?sv0 = "sv\<lparr>sv_out := []\<rparr>"
  let ?sv1 = "server_recv MAX_RECV_PER_WAKE N A su R (sw_recv w) ?sv0"
  obtain sd sv2 where c: "drain_server_commands Q (sw_cmds w) (fire_timeouts Q ?sv1) = (sd, sv2)" by fastforce
  obtain sv3 where d: "drive_conns rounds E Q N (sw_inflight w \<ge> SERVER_MAX_INFLIGHT) (table_order A sv2) sv2 = Done sv3"
    and sv': "sv' = server_emit (reap Q (table_order A sv3) sv3)"
    using assms(5) True c by (auto simp: serve_wake_def Let_def split: if_splits outcome.splits)
  have u0: "unflagged ?sv0" "ids_left ?sv0 (length (sw_recv w) + n)" "server_ok ?sv0"
    using assms(3,4) by (simp_all add: between_def unflagged_def ids_left_def)
  note r1 = server_recv_ok [OF u0(3,1,2), of MAX_RECV_PER_WAKE N A su R]
  have r1': "server_ok (fire_timeouts Q ?sv1) \<and> unflagged (fire_timeouts Q ?sv1)" using r1 by (simp add: fire_timeouts_ok)
  note r2 = drain_server_commands_ok [OF assms(1) r1' c]
  have r2': "server_ok sv2 \<and> unflagged sv2" using r2 by simp
  note r3 = drive_conns_ok [OF assms(1) r2' d]
  have ord: "set (map fst (sv_clients sv3)) \<subseteq> set (table_order A sv3)"
    using assms(2) by (simp add: order_ok_def table_order_def)
  note r4 = reap_ok [OF assms(1) _ _ ord, of Q]
  have next_same: "sv_next_session_id sv' = sv_next_session_id ?sv1"
    using r2 r3 r4 by (simp add: sv' server_emit_def fire_timeouts_ok)
  have "unflagged sv'" using r3 r4 by (simp add: sv' server_emit_def unflagged_def)
  moreover have "server_ok (sv'\<lparr>sv_out := []\<rparr>)" unfolding sv' using r3 r4 by (intro server_ok_emit) simp
  ultimately show ?thesis using r1 next_same by (simp add: between_def ids_left_def)
qed

lemma serve_wakes_ok:
  fixes E :: env
  assumes "alloc_ok (e_alloc E)" and "order_ok A"
  shows "between sv \<Longrightarrow> ids_left sv (sum_list (map (length \<circ> sw_recv) ws)) \<Longrightarrow>
    serve_wakes rounds E Q N A su R ws sv = Continue sv' \<Longrightarrow> between sv' \<and> ids_left sv' 0"
proof (induction ws arbitrary: sv)
  case (Cons w ws)
  obtain sv1 where w: "serve_wake rounds E Q N A su R w sv = Continue sv1"
    and r: "serve_wakes rounds E Q N A su R ws sv1 = Continue sv'"
    using Cons.prems(3) by (auto split: loop_next.splits)
  have "ids_left sv (length (sw_recv w) + sum_list (map (length \<circ> sw_recv) ws))"
    using Cons.prems(2) by (simp add: comp_def)
  from serve_wake_ok [OF assms Cons.prems(1) this w] r Cons.IH show ?case by blast
qed simp

lemma between_start: "between (server_start [[Listening p]])" "ids_left (server_start [[Listening p]]) n \<longleftrightarrow> Suc n < 2 ^ 64"
  by (simp_all add: between_def server_start_def server_ok_def table_ok_def id_at_def budget_ok_def root_ok_def
      closes_ok_def history_def ended_def closes_of_def unflagged_def ids_left_def ParserMemory_new_def wt_consts usize_max_def)

end
