(* ===== verification/Server_Claims.thy ===== *)
theory Server_Claims
  imports Server_Props
begin

text \<open>
  The properties of the server thread: consistent tables, bounded memory and connections, address
  validation, isolation of sessions, every end reported once, and no iteration that hangs.
\<close>

section \<open>Reachable states of the server\<close>

lemma serve_reach:
  fixes E :: env
  assumes "alloc_ok (e_alloc E)" and "order_ok A" and "Suc (sum_list (map (length \<circ> sw_recv) ws)) < 2 ^ 64"
    and "serve_wakes rounds E Q N A su R ws (server_start [[Listening p]]) = Continue sv"
  shows "table_ok (sv\<lparr>sv_out := []\<rparr>) \<and> budget_ok (sv\<lparr>sv_out := []\<rparr>) \<and> closes_ok (sv\<lparr>sv_out := []\<rparr>)"
  using serve_wakes_ok [OF assms(1,2) between_start(1) _ assms(4)] between_start(2) assms(3)
  by (auto simp: between_def server_ok_def)

section \<open>Iterations end\<close>

lemma server_flush_send_ends:
  assumes "\<And>c p c'. n_send N c = (Inr p, c') \<Longrightarrow> queued c' < (queued c :: nat)" and "queued c < n"
  shows "server_flush_send n N c sent \<noteq> None"
  using assms(2)
proof (induction n arbitrary: c sent)
  case (Suc n)
  show ?case
  proof (cases "n_send N c")
    case (Pair r c')
    show ?thesis
    proof (cases r)
      case (Inr p)
      then have "queued c' < n" using assms(1) [of c p c'] Suc.prems Pair by simp
      from Suc.IH [OF this] Pair Inr show ?thesis by (simp split: option.split)
    qed (use Pair in simp)
  qed
qed simp

lemma server_flush_send_Some:
  assumes "loop_laws Q N rounds pend queued"
  shows "\<exists>c' sent'. server_flush_send (rounds c) N c sent = Some (c', sent')"
  using server_flush_send_ends [of N queued c "rounds c" sent] assms by (auto simp: loop_laws_def)

lemma drive_conn_ends:
  assumes "loop_laws Q N rounds pend queued"
  shows "\<exists>sv'. drive_conn rounds E Q N bp key sv = Done sv'"
proof (cases "map_of (sv_clients sv) key")
  case (Some sc)
  let ?beg = "lend (sv_parser_memory sv) sc"
  let ?est = "if q_is_established Q (conn ?beg) then on_established ?beg else ?beg"
  obtain s1 where d: "drive_session rounds E Q bp ?est = Done s1" using drive_session_ends [OF assms] by blast
  have f: "server_flush_send (rounds c) N c sent \<noteq> None" for c sent
    using server_flush_send_Some [OF assms, of c sent] by auto
  show ?thesis using Some d f by (auto simp: drive_conn_def Let_def simp del: not_None_eq split: option.split)
qed (simp add: drive_conn_def)

lemma drive_conns_end:
  assumes "loop_laws Q N rounds pend queued"
  shows "\<exists>sv'. drive_conns rounds E Q N bp keys sv = Done sv'"
proof (induction keys arbitrary: sv)
  case (Cons key keys)
  obtain sv1 where "drive_conn rounds E Q N bp key sv = Done sv1" using drive_conn_ends [OF assms] by blast
  with Cons show ?case by simp
qed simp

lemma shutdown_conns_end:
  assumes "loop_laws Q N rounds pend queued"
  shows "\<exists>sv'. shutdown_conns rounds Q N keys sv = Done sv'"
proof (induction keys arbitrary: sv)
  case (Cons key keys)
  have f: "server_flush_send (rounds c) N c sent \<noteq> None" for c sent
    using server_flush_send_Some [OF assms, of c sent] by auto
  have "\<exists>sv1. shutdown_conn rounds Q N key sv = Done sv1"
    using f by (auto simp: shutdown_conn_def Let_def simp del: not_None_eq split: option.split)
  with Cons show ?case by force
qed simp

lemma serve_wake_ends:
  assumes "loop_laws Q N rounds pend queued"
  shows "goes_on (serve_wake rounds E Q N A su R w sv)"
proof (cases "sw_poll_ok w")
  case True
  obtain sd sv2 where c: "drain_server_commands Q (sw_cmds w)
      (fire_timeouts Q (server_recv MAX_RECV_PER_WAKE N A su R (sw_recv w) (sv\<lparr>sv_out := []\<rparr>))) = (sd, sv2)" by fastforce
  obtain sv3 where d: "drive_conns rounds E Q N (sw_inflight w \<ge> SERVER_MAX_INFLIGHT) (table_order A sv2) sv2 = Done sv3"
    using drive_conns_end [OF assms] by blast
  obtain sv4 where s: "shutdown_conns rounds Q N (table_order A sv2) sv2 = Done sv4"
    using shutdown_conns_end [OF assms] by blast
  show ?thesis using True c d s by (simp add: serve_wake_def Let_def)
qed (simp add: serve_wake_def)

lemma serve_wakes_end:
  assumes "loop_laws Q N rounds pend queued"
  shows "goes_on (serve_wakes rounds E Q N A su R ws sv)"
proof (induction ws arbitrary: sv)
  case (Cons w ws)
  show ?case
    using Cons.IH serve_wake_ends [OF assms, of E A su R w sv]
    by (cases "serve_wake rounds E Q N A su R w sv") simp_all
qed simp

lemma drain_server_commands_shutdown: "drain_server_commands Q cmds sv = (sd, sv') \<Longrightarrow> sd \<longleftrightarrow> SShutdown \<in> set cmds"
  by (induction cmds arbitrary: sv) (auto split: if_splits)

lemma serve_wake_continues:
  assumes "loop_laws Q N rounds pend queued" and "SShutdown \<notin> set (sw_cmds w)"
  shows "\<exists>sv'. serve_wake rounds E Q N A su R w sv = Continue sv'"
proof (cases "sw_poll_ok w")
  case True
  obtain sd sv2 where c: "drain_server_commands Q (sw_cmds w)
      (fire_timeouts Q (server_recv MAX_RECV_PER_WAKE N A su R (sw_recv w) (sv\<lparr>sv_out := []\<rparr>))) = (sd, sv2)" by fastforce
  obtain sv3 where d: "drive_conns rounds E Q N (sw_inflight w \<ge> SERVER_MAX_INFLIGHT) (table_order A sv2) sv2 = Done sv3"
    using drive_conns_end [OF assms(1)] by blast
  show ?thesis using True c d drain_server_commands_shutdown [OF c] assms(2) by (simp add: serve_wake_def Let_def)
qed (simp add: serve_wake_def)

section \<open>The listening socket\<close>

text \<open>A bound socket never blocks and shares its port exactly when the set-up asks for that.\<close>

lemma bind_udp_Inr:
  "bind_udp U addr reuse = Inr sock \<longleftrightarrow>
     uo_socket U (is_ipv4 addr) = None \<and> uo_nonblocking U = None \<and> (reuse \<longrightarrow> uo_reuse_port U = None)
     \<and> uo_bind U addr = None
     \<and> sock = \<lparr>us_ipv4 = is_ipv4 addr, us_nonblocking = True, us_reuse_port = reuse, us_bound = Some addr\<rparr>"
  by (cases reuse; cases "uo_socket U (is_ipv4 addr)"; cases "uo_nonblocking U"; cases "uo_reuse_port U"; cases "uo_bind U addr")
    (auto simp: bind_udp_def os_call_def try_then_def)

section \<open>A small server\<close>

text \<open>
  A concrete instance of the parameters: packets carry a one-byte kind, a connection id and a
  token, and every accepted connection is idle.
\<close>

definition mini_acceptor :: "mini acceptor" where
  "mini_acceptor =
     \<lparr>a_header = (\<lambda>pkt n. case pkt of [] \<Rightarrow> None
        | b # rest \<Rightarrow> Some \<lparr>ph_initial = (b = 0), ph_dcid = take 2 rest, ph_scid = [], ph_token = Some (drop 2 rest), ph_version = 1\<rparr>),
      a_accept = (\<lambda>_ _ _ _ _. Some mini_idle), a_retry = (\<lambda>_ _ _ token _. Some token),
      a_order = (\<lambda>ks. ks), a_sha256 = (\<lambda>x. replicate 32 (of_nat (length x)))\<rparr>"

definition mini_recv_env :: recv_env where
  "mini_recv_env = \<lparr>re_local = mini_addr, re_secret = [1, 2, 3], re_config = qa_defaults mini_quic_api\<rparr>"

definition mini_server_setup :: server_setup where
  "mini_server_setup = \<lparr>sv_host = ''[::1]'', sv_port = 443, sv_cert_path = ''c'', sv_key_path = ''k'', sv_reuse_port = False, sv_supported_protocols = [],
     sv_allowed_origins = None, sv_response_headers = []\<rparr>"

definition mini_server_env :: server_env where
  "mini_server_env = \<lparr>ve_udp = \<lparr>uo_socket = (\<lambda>_. Some ''no''), uo_nonblocking = None, uo_reuse_port = None, uo_bind = (\<lambda>_. None)\<rparr>, ve_local_addr = Inr mini_addr,
     ve_quic = mini_quic_api, ve_register = None, ve_random = (None, 0)\<rparr>"

text \<open>A wake with a validated Initial, a packet without token, and a command for the new session.\<close>

definition mini_server_wake :: server_wake where
  "mini_server_wake = \<lparr>sw_poll_ok = True,
     sw_recv = [Inr (0 # 7 # 8 # mint_token (\<lambda>x. replicate 32 (of_nat (length x))) [1, 2, 3] [9] mini_addr, mini_addr, 0, (None, 0)),
                Inr ([0, 5, 6], mini_addr, 0, (None, 0))],
     sw_cmds = [SGetStats 1 2], sw_inflight = 0\<rparr>"

lemma mini_server_runs:
  "alloc_ok (e_alloc (mini_env []))" "order_ok mini_acceptor"
  "Suc (sum_list (map (length \<circ> sw_recv) [mini_server_wake])) < 2 ^ 64"
  "\<exists>sv. serve_wakes (\<lambda>c. Suc (mini_pend c)) (mini_env []) mini_quic mini_net mini_acceptor mini_server_setup mini_recv_env
     [mini_server_wake] (server_start [[Listening 443]]) = Continue sv"
proof -
  obtain sv where "serve_wake (\<lambda>c. Suc (mini_pend c)) (mini_env []) mini_quic mini_net mini_acceptor mini_server_setup mini_recv_env
     mini_server_wake (server_start [[Listening 443]]) = Continue sv"
    using serve_wake_continues [OF mini_loop_laws, of mini_server_wake "mini_env []" mini_acceptor mini_server_setup mini_recv_env
        "server_start [[Listening 443]]"] by (simp add: mini_server_wake_def [THEN arg_cong [of _ _ sw_cmds]]) blast
  then show "\<exists>sv. serve_wakes (\<lambda>c. Suc (mini_pend c)) (mini_env []) mini_quic mini_net mini_acceptor mini_server_setup mini_recv_env
     [mini_server_wake] (server_start [[Listening 443]]) = Continue sv" by simp
qed (simp_all add: order_ok_def mini_acceptor_def mini_server_wake_def)

section \<open>Properties\<close>

text \<open>
  Claim C8. The connection table, the routing table and the session table of the server agree in
  every state it can reach, whatever packets and commands arrive: a routed id is the id of a live
  connection and every live connection is routed, session ids and live connections correspond one
  to one, and there are never more than \<^verbatim>\<open>MAX_CONNECTIONS\<close> connections.
\<close>

theorem server_tables_agree:
  fixes E :: env
  assumes "alloc_ok (e_alloc E)" and "order_ok A" and "Suc (sum_list (map (length \<circ> sw_recv) ws)) < 2 ^ 64"
    and "serve_wakes rounds E Q N A su R ws (server_start [[Listening p]]) = Continue sv"
  shows "length (sv_clients sv) \<le> MAX_CONNECTIONS
    \<and> (\<forall>k v. map_of (sv_routing sv) k = Some v \<longleftrightarrow> v = k \<and> map_of (sv_clients sv) k \<noteq> None)
    \<and> (\<forall>i k. map_of (sv_sessions sv) i = Some k \<longleftrightarrow> (\<exists>sc. map_of (sv_clients sv) k = Some sc \<and> sc_session_id sc = i))"
proof -
  let ?sv = "sv\<lparr>sv_out := []\<rparr>"
  have t: "table_ok ?sv" using serve_reach [OF assms] by blast
  note td = table_okD [OF t]
  have at: "id_at ?sv k = map_option sc_session_id (map_of (sv_clients sv) k)" for k by (simp add: id_at_def)
  have r: "map_of (sv_routing sv) k = Some v \<longleftrightarrow> v = k \<and> map_of (sv_clients sv) k \<noteq> None" for k v
  proof
    assume "map_of (sv_routing sv) k = Some v"
    then have "v = k \<and> k \<in> set (map fst (sv_clients sv))" using td(1) [of k v] by simp
    then show "v = k \<and> map_of (sv_clients sv) k \<noteq> None" by (simp add: map_of_eq_None_iff)
  next
    assume "v = k \<and> map_of (sv_clients sv) k \<noteq> None"
    then show "map_of (sv_routing sv) k = Some v" using td(2) [of k] at by auto
  qed
  have "map_of (sv_sessions sv) i = Some k \<longleftrightarrow> (\<exists>sc. map_of (sv_clients sv) k = Some sc \<and> sc_session_id sc = i)" for i k
    using td(2) [of k i] td(3) [of i k] at by auto
  moreover have "length (sv_clients sv) \<le> MAX_CONNECTIONS" using td(6) by simp
  ultimately show ?thesis using r by blast
qed

theorem server_tables_agree_witness:
  "\<exists>sv. serve_wakes (\<lambda>c. Suc (mini_pend c)) (mini_env []) mini_quic mini_net mini_acceptor mini_server_setup mini_recv_env
     [mini_server_wake] (server_start [[Listening 443]]) = Continue sv
     \<and> length (sv_clients sv) \<le> MAX_CONNECTIONS"
  using mini_server_runs(4) server_tables_agree [OF mini_server_runs(1-3)] by blast

text \<open>
  Claim C9. The parser memory of a server is bounded whatever its peers send: in every reachable
  state the shared budget counts exactly the buffers that the sessions in the table hold, within
  \<^verbatim>\<open>MAX_PARSER_MEMORY\<close>; each session is within its own limit, a closed session holds nothing, and what
  a reaped session held has been given back.
\<close>

theorem server_memory_bounded:
  fixes E :: env
  assumes "alloc_ok (e_alloc E)" and "order_ok A" and "Suc (sum_list (map (length \<circ> sw_recv) ws)) < 2 ^ 64"
    and "serve_wakes rounds E Q N A su R ws (server_start [[Listening p]]) = Continue sv"
  shows "pm_used (sv_parser_memory sv) = hm_total (held \<circ> sc_session) (sv_clients sv)
    \<and> pm_used (sv_parser_memory sv) \<le> MAX_PARSER_MEMORY
    \<and> (\<forall>k sc. map_of (sv_clients sv) k = Some sc \<longrightarrow>
         held (sc_session sc) \<le> MAX_SESSION_PARSER_MEMORY \<and> (s_closed (sc_session sc) \<longrightarrow> held (sc_session sc) = 0))"
proof -
  have b: "budget_ok (sv\<lparr>sv_out := []\<rparr>)" using serve_reach [OF assms] by blast
  have c: "client_ok sc" if "map_of (sv_clients sv) k = Some sc" for k sc using client_used_le [OF b] that by simp
  have "list_all (\<lambda>kv. client_ok (snd kv)) (sv_clients sv)" using b by (simp add: budget_ok_def)
  then have "hm_total client_used (sv_clients sv) = hm_total (held \<circ> sc_session) (sv_clients sv)"
    unfolding hm_total_def by (intro arg_cong [of _ _ sum_list] map_cong) (auto simp: list_all_iff client_ok_def)
  moreover have lim: "pm_used root \<le> pm_limit root" if "pm_ok root" for root using that by (cases root rule: pm_ok.cases) auto
  moreover have "pm_used (sv_parser_memory sv) \<le> MAX_PARSER_MEMORY"
    using b lim [of "sv_parser_memory sv"] by (simp add: budget_ok_def root_ok_def)
  ultimately show ?thesis using b c by (auto simp: budget_ok_def client_ok_def)
qed

theorem server_memory_bounded_witness:
  "\<exists>sv. serve_wakes (\<lambda>c. Suc (mini_pend c)) (mini_env []) mini_quic mini_net mini_acceptor mini_server_setup mini_recv_env
     [mini_server_wake] (server_start [[Listening 443]]) = Continue sv
     \<and> pm_used (sv_parser_memory sv) \<le> MAX_PARSER_MEMORY"
  using mini_server_runs(4) server_memory_bounded [OF mini_server_runs(1-3)] by blast

text \<open>
  Claim C10. The server reports the end of every session exactly once: of the messages emitted for a
  session id there is exactly one Closed event if that session is over (closed, or already gone
  from the table) and none while it is alive or before the id was given out.
\<close>

theorem server_reports_each_end_once:
  fixes E :: env
  assumes "alloc_ok (e_alloc E)" and "order_ok A" and "Suc (sum_list (map (length \<circ> sw_recv) ws)) < 2 ^ 64"
    and "serve_wakes rounds E Q N A su R ws (server_start [[Listening p]]) = Continue sv" and "i \<noteq> 0"
  shows "closes_of i (concat (sv_emitted sv)) = of_bool (ended sv i)"
proof -
  have "closes_ok (sv\<lparr>sv_out := []\<rparr>)" using serve_reach [OF assms(1-4)] by blast
  then have "closes_of i (history (sv\<lparr>sv_out := []\<rparr>)) = of_bool (ended (sv\<lparr>sv_out := []\<rparr>) i)"
    using assms(5) by (simp add: closes_ok_def)
  moreover have "ended (sv\<lparr>sv_out := []\<rparr>) i = ended sv i"
    by (simp add: ended_def split: option.split)
  ultimately show ?thesis by (simp add: history_def)
qed

theorem server_reports_each_end_once_witness:
  "\<exists>sv. serve_wakes (\<lambda>c. Suc (mini_pend c)) (mini_env []) mini_quic mini_net mini_acceptor mini_server_setup mini_recv_env
     [mini_server_wake] (server_start [[Listening 443]]) = Continue sv
     \<and> closes_of 1 (concat (sv_emitted sv)) = of_bool (ended sv 1)"
  using mini_server_runs(4) server_reports_each_end_once [OF mini_server_runs(1-3), where i = 1] by (metis zero_neq_one)

text \<open>
  Claim C11. No connection state for an unproven address: a packet that belongs to no connection
  creates one only if it carries a token the server minted for its source address, there is room in
  the table and the back-pressure limit is not reached; otherwise the server keeps no trace of it,
  and sends at most one datagram, a Retry, to that address.
\<close>

theorem accept_needs_minted_token:
  assumes "\<And>x. length (a_sha256 A x) = 32" and "route_packet N A su R inflight rnd hdr src sv = (r, sv')"
    and "map_of (sv_routing sv) (ph_dcid hdr) = None"
  shows "(\<exists>odcid c. ph_token hdr = Some (mint_token (a_sha256 A) (re_secret R) odcid src)
        \<and> length (sv_clients sv) < MAX_CONNECTIONS \<and> inflight < SERVER_MAX_INFLIGHT
        \<and> a_accept A (ph_dcid hdr) odcid (re_local R) src (re_config R) = Some c
        \<and> r = Some (ph_dcid hdr) \<and> sv' = new_connection su (ph_dcid hdr) src c sv)
    \<or> r = None \<and> (sv' = sv \<or> (\<exists>pkt. sv' = sv\<lparr>sv_sent := sv_sent sv @ [(pkt, src)]\<rparr>))"
proof -
  have retry: "send_retry N A R rnd hdr src sv = sv
      \<or> (\<exists>pkt. send_retry N A R rnd hdr src sv = sv\<lparr>sv_sent := sv_sent sv @ [(pkt, src)]\<rparr>)"
    by (simp add: send_retry_def Let_def split: option.split) blast
  from assms(2) show ?thesis
  proof (cases rule: route_packet_cases)
    case (3 c token odcid)
    have "token = mint_token (a_sha256 A) (re_secret R) odcid src"
      using validate_token_iff [of "a_sha256 A", OF assms(1)] 3(4) by blast
    with 3 show ?thesis by (intro disjI1 exI [of _ odcid] exI [of _ c]) simp
  qed (use assms(3) retry in auto)
qed

theorem accept_needs_minted_token_witness:
  "fst (route_packet mini_net mini_acceptor mini_server_setup mini_recv_env 0 (None, 0)
      \<lparr>ph_initial = True, ph_dcid = [5, 6], ph_scid = [], ph_token = Some [1], ph_version = 1\<rparr> mini_addr (server_start [])) = None"
proof -
  let ?hdr = "\<lparr>ph_initial = True, ph_dcid = [5, 6], ph_scid = [], ph_token = Some [1], ph_version = 1\<rparr>"
  obtain r sv' where r: "route_packet mini_net mini_acceptor mini_server_setup mini_recv_env 0 (None, 0) ?hdr mini_addr
      (server_start []) = (r, sv')" by fastforce
  have "length (mint_token h k d a) \<noteq> 1" for h k d a
    by (simp add: mint_token_def TOKEN_MAGIC_def Let_def)
  then have "ph_token ?hdr \<noteq> Some (mint_token h k d a)" for h k d a by (metis length_Cons list.size(3) One_nat_def option.inject packet_header.select_convs(4))
  with accept_needs_minted_token [OF _ r] r show ?thesis by (simp add: mini_acceptor_def server_start_def)
qed

text \<open>
  Claim C30. A server run never hangs in a loop and never panics on what its peers send, and when it
  ends, by set-up failure or shutdown, the last thing it emits is that the server is closed.
\<close>

theorem server_run_total:
  assumes "loop_laws Q N rounds pend queued"
    and "server_run rounds E Q N A VE su ws = (status, closed_flag, batches)"
  shows "status \<noteq> NoRounds \<and> (status = Ended \<longrightarrow> closed_flag \<and> (\<exists>bs. batches = bs @ [[ServerClosed]]))
    \<and> (status = Waiting \<longrightarrow> \<not> closed_flag)"
proof -
  have "goes_on (server_run_inner rounds E Q N A VE su ws)"
    using serve_wakes_end [OF assms(1)]
    by (simp add: server_run_inner_def setup_failed_def split: sum.split option.split)
  then show ?thesis
    using assms(2) by (cases "server_run_inner rounds E Q N A VE su ws") (auto simp: server_run_def catch_server_panic_def)
qed

theorem server_run_total_witness:
  "\<exists>bs. server_run (\<lambda>c. Suc (mini_pend c)) (mini_env []) mini_quic mini_net mini_acceptor mini_server_env mini_server_setup []
     = (Ended, True, bs @ [[ServerClosed]])"
proof -
  obtain st f b where r: "server_run (\<lambda>c. Suc (mini_pend c)) (mini_env []) mini_quic mini_net mini_acceptor mini_server_env
      mini_server_setup [] = (st, f, b)" by (metis prod_cases3)
  moreover have "st = Ended"
    using r by (simp add: server_run_def server_run_inner_def mini_server_env_def bind_udp_def os_call_def try_then_def setup_failed_def catch_server_panic_def split: option.splits)
  ultimately show ?thesis using server_run_total [OF mini_loop_laws r] by auto
qed

text \<open>
  The client driver and the server, which each have their own copy of the code, report the
  end of a connection in the same way.
\<close>

theorem closure_reports_agree: "report_server_closure Q s = report_closure Q s"
  by (rule report_server_closure_eq)

end
