(* ===== verification/Bindings.thy ===== *)
theory Bindings
  imports Complex_Main "HOL-Library.Log_Nat" Server_Claims
begin

text \<open>
  \<^verbatim>\<open>crates/native/src/lib.rs\<close>, the surface of the addon: the conversion of JavaScript values into
  commands and of events into JavaScript objects. A JavaScript number is not-a-number, an infinity
  or a rational; a function called from JavaScript takes the list of its arguments and throws or
  changes the handle it was called on. The parser of URLs (the \<^verbatim>\<open>url\<close> crate) and the conversion of a
  duration to floating-point milliseconds are parameters.
\<close>

section \<open>JavaScript values\<close>

datatype js_num = NaN | Infinity bool | Finite rat

datatype js_value =
    JUndefined
  | JNull
  | JBool bool
  | JNum js_num
  | JStr string
  | JBytes bytes
  | JArr "js_value list"
  | JObj "(string \<times> js_value) list"
  | JFun
  | JSession
  | JServer

datatype js_error = TypeError | JsError string | RangeError string

text \<open>\<^verbatim>\<open>v as u64\<close> truncates towards zero and saturates; it is only used on values that are not negative.\<close>

definition f64_as_u64 :: "rat \<Rightarrow> u64" where
  "f64_as_u64 v = of_nat (min (nat \<lfloor>v\<rfloor>) (2 ^ 64 - 1))"

text \<open>\<^verbatim>\<open>n as f64\<close> rounds to 53 significant bits, ties to even.\<close>

definition round53 :: "nat \<Rightarrow> nat" where
  "round53 n =
     (if n < 2 ^ 53 then n
      else
        (let e = floorlog 2 n - 53; q = n div 2 ^ e; r = n mod 2 ^ e; half = 2 ^ (e - 1);
             q' = (if r > half \<or> (r = half \<and> odd q) then q + 1 else q)
         in q' * 2 ^ e))"

definition nat_as_f64 :: "nat \<Rightarrow> js_num" where
  "nat_as_f64 n = Finite (of_nat (round53 n))"

text \<open>\<^verbatim>\<open>v as u16\<close>: not-a-number is zero, and everything else saturates.\<close>

definition f64_as_u16 :: "js_num \<Rightarrow> u16" where
  "f64_as_u16 v =
     (case v of
        NaN \<Rightarrow> 0
      | Infinity neg \<Rightarrow> if neg then 0 else - 1
      | Finite x \<Rightarrow> if x \<le> 0 then 0 else of_nat (min (nat \<lfloor>x\<rfloor>) (2 ^ 16 - 1)))"

definition to_stream_id :: "js_num \<Rightarrow> u64" where
  "to_stream_id v = (case v of Finite x \<Rightarrow> if x \<ge> 0 then f64_as_u64 x else - 1 | _ \<Rightarrow> - 1)"

definition to_code :: "js_num \<Rightarrow> u64" where
  "to_code v =
     (case v of Finite x \<Rightarrow> if x \<ge> 0 then min (f64_as_u64 x) (push_bit 62 1 - 1) else 0 | _ \<Rightarrow> 0)"

definition to_request_id :: "js_num \<Rightarrow> u64" where
  "to_request_id v = (case v of Finite x \<Rightarrow> if x \<ge> 0 then f64_as_u64 x else 0 | _ \<Rightarrow> 0)"

text \<open>The check of \<^verbatim>\<open>outputLength\<close>, and its value as \<^verbatim>\<open>u32\<close> when it passes.\<close>

definition output_length :: "js_num \<Rightarrow> js_error + u32" where
  "output_length v =
     (let bad = Inl (RangeError ''outputLength must be an integer between 1 and 4096'') in
      case v of
        Finite x \<Rightarrow> if frac x \<noteq> 0 \<or> \<not> (1 \<le> x \<and> x \<le> 4096) then bad else Inr (of_nat (nat \<lfloor>x\<rfloor>))
      | _ \<Rightarrow> bad)"

section \<open>Arguments\<close>

definition argument :: "(js_value \<Rightarrow> 'a option) \<Rightarrow> js_value list \<Rightarrow> nat \<Rightarrow> js_error + 'a" where
  "argument sel args i =
     (if i < length args then (case sel (args ! i) of Some x \<Rightarrow> Inr x | None \<Rightarrow> Inl TypeError) else Inl TypeError)"

fun as_num :: "js_value \<Rightarrow> js_num option" where
  "as_num (JNum n) = Some n" | "as_num _ = None"

fun as_bool :: "js_value \<Rightarrow> bool option" where
  "as_bool (JBool b) = Some b" | "as_bool _ = None"

fun as_str :: "js_value \<Rightarrow> string option" where
  "as_str (JStr x) = Some x" | "as_str _ = None"

fun as_buf :: "js_value \<Rightarrow> bytes option" where
  "as_buf (JBytes b) = Some b" | "as_buf _ = None"

fun as_arr :: "js_value \<Rightarrow> js_value list option" where
  "as_arr (JArr xs) = Some xs" | "as_arr _ = None"

fun as_fun :: "js_value \<Rightarrow> unit option" where
  "as_fun JFun = Some ()" | "as_fun _ = None"

fun as_session :: "js_value \<Rightarrow> unit option" where
  "as_session JSession = Some ()" | "as_session _ = None"

fun as_server :: "js_value \<Rightarrow> unit option" where
  "as_server JServer = Some ()" | "as_server _ = None"

section \<open>Handles\<close>

text \<open>
  A handle is the sending end of the command channel, if it is still held, the commands sent and not
  yet received, whether the receiver is alive, the number of times the driver was woken, the
  state shared with the driver, and whether there is a thread left to join.
\<close>

record 'cmd handle =
  h_tx :: bool
  h_receiver :: bool
  h_queue :: "'cmd list"
  h_wakes :: nat
  h_shared :: driver_shared
  h_thread :: bool

definition handle_send :: "'cmd \<Rightarrow> 'cmd handle \<Rightarrow> 'cmd handle" where
  "handle_send cmd h =
     (if h_tx h then
        h\<lparr>h_queue := (if h_receiver h then h_queue h @ [cmd] else h_queue h), h_wakes := h_wakes h + 1\<rparr>
      else h)"

text \<open>When the handle is collected the thread is told to stop and then joined.\<close>

definition finalize :: "'cmd \<Rightarrow> 'cmd handle \<Rightarrow> 'cmd handle" where
  "finalize stop h = (handle_send stop h)\<lparr>h_thread := False\<rparr>"

section \<open>Calls on a session handle\<close>

text \<open>
  A call takes its arguments and the handle it is made on; it throws or returns a value, and the handle may
  have changed either way. \<open>checked\<close> is the operator \<^verbatim>\<open>?\<close> of the source: an error is thrown with the handle as it
  is at that point.
\<close>

type_synonym 'cmd call = "js_value list \<Rightarrow> 'cmd handle \<Rightarrow> (js_error + js_value) \<times> 'cmd handle"

definition checked ::
  "'h \<Rightarrow> js_error + 'a \<Rightarrow> ('a \<Rightarrow> (js_error + js_value) \<times> 'h) \<Rightarrow> (js_error + js_value) \<times> 'h" where
  "checked h r k = (case r of Inl e \<Rightarrow> (Inl e, h) | Inr x \<Rightarrow> k x)"

definition sending :: "'cmd \<Rightarrow> 'cmd handle \<Rightarrow> (js_error + js_value) \<times> 'cmd handle" where
  "sending cmd h = (Inr JUndefined, handle_send cmd h)"

definition js_open_stream :: "command call" where
  "js_open_stream args h =
     checked h (argument as_session args 0) (\<lambda>_.
     checked h (argument as_bool args 1) (\<lambda>bidi.
     checked h (argument as_num args 2) (\<lambda>r.
       sending (OpenStream (to_request_id r) bidi) h)))"

definition js_write_stream :: "command call" where
  "js_write_stream args h =
     checked h (argument as_session args 0) (\<lambda>_.
     checked h (argument as_num args 1) (\<lambda>i.
     checked h (argument as_buf args 2) (\<lambda>data.
     checked h (argument as_num args 3) (\<lambda>r.
       sending (Write (to_stream_id i) data (to_request_id r)) h))))"

definition js_fin_stream :: "command call" where
  "js_fin_stream args h =
     checked h (argument as_session args 0) (\<lambda>_.
     checked h (argument as_num args 1) (\<lambda>i.
       sending (Fin (to_stream_id i)) h))"

definition js_reset_stream :: "command call" where
  "js_reset_stream args h =
     checked h (argument as_session args 0) (\<lambda>_.
     checked h (argument as_num args 1) (\<lambda>i.
     checked h (argument as_num args 2) (\<lambda>code.
       sending (ResetStream (to_stream_id i) (to_code code)) h)))"

definition js_stop_sending :: "command call" where
  "js_stop_sending args h =
     checked h (argument as_session args 0) (\<lambda>_.
     checked h (argument as_num args 1) (\<lambda>i.
     checked h (argument as_num args 2) (\<lambda>code.
       sending (StopSending (to_stream_id i) (to_code code)) h)))"

definition js_set_paused :: "command call" where
  "js_set_paused args h =
     checked h (argument as_session args 0) (\<lambda>_.
     checked h (argument as_num args 1) (\<lambda>i.
     checked h (argument as_bool args 2) (\<lambda>p.
       sending (SetPaused (to_stream_id i) p) h)))"

definition js_send_datagram :: "command call" where
  "js_send_datagram args h =
     checked h (argument as_session args 0) (\<lambda>_.
     checked h (argument as_buf args 1) (\<lambda>data.
     checked h (argument as_num args 2) (\<lambda>r.
       sending (SendDatagram data (to_request_id r)) h)))"

definition js_close_session :: "command call" where
  "js_close_session args h =
     checked h (argument as_session args 0) (\<lambda>_.
     checked h (argument as_num args 1) (\<lambda>code.
     checked h (argument as_buf args 2) (\<lambda>reason.
       sending (Close (ucast (to_code code)) reason) h)))"

definition js_drain :: "command call" where
  "js_drain args h = checked h (argument as_session args 0) (\<lambda>_. sending Drain h)"

definition js_get_stats :: "command call" where
  "js_get_stats args h =
     checked h (argument as_session args 0) (\<lambda>_.
     checked h (argument as_num args 1) (\<lambda>r.
       sending (GetStats (to_request_id r)) h))"

definition js_export_keying_material :: "command call" where
  "js_export_keying_material args h =
     checked h (argument as_session args 0) (\<lambda>_.
     checked h (argument as_num args 1) (\<lambda>r.
     checked h (argument as_buf args 2) (\<lambda>label.
     checked h (argument as_buf args 3) (\<lambda>ctx.
     checked h (argument as_num args 4) (\<lambda>len.
     checked h (output_length len) (\<lambda>n.
       sending (ExportKeyingMaterial (to_request_id r) label ctx n) h))))))"

definition js_shutdown :: "command call" where
  "js_shutdown args h = checked h (argument as_session args 0) (\<lambda>_. sending Shutdown h)"

text \<open>The reads of the shared state.\<close>

definition js_max_datagram_size :: "command call" where
  "js_max_datagram_size args h =
     checked h (argument as_session args 0) (\<lambda>_. (Inr (JNum (nat_as_f64 (ds_max_datagram_size (h_shared h)))), h))"

definition js_is_ready :: "command call" where
  "js_is_ready args h = checked h (argument as_session args 0) (\<lambda>_. (Inr (JBool (ds_ready (h_shared h))), h))"

definition js_is_closed :: "command call" where
  "js_is_closed args h = checked h (argument as_session args 0) (\<lambda>_. (Inr (JBool (ds_closed (h_shared h))), h))"

section \<open>Calls on a server handle\<close>

definition server_open_stream :: "server_command call" where
  "server_open_stream args h =
     checked h (argument as_server args 0) (\<lambda>_.
     checked h (argument as_num args 1) (\<lambda>session.
     checked h (argument as_bool args 2) (\<lambda>bidi.
     checked h (argument as_num args 3) (\<lambda>r.
       sending (SOpenStream (to_stream_id session) (to_request_id r) bidi) h))))"

definition server_write :: "server_command call" where
  "server_write args h =
     checked h (argument as_server args 0) (\<lambda>_.
     checked h (argument as_num args 1) (\<lambda>session.
     checked h (argument as_num args 2) (\<lambda>i.
     checked h (argument as_buf args 3) (\<lambda>data.
     checked h (argument as_num args 4) (\<lambda>r.
       sending (SWrite (to_stream_id session) (to_stream_id i) data (to_request_id r)) h)))))"

definition server_fin :: "server_command call" where
  "server_fin args h =
     checked h (argument as_server args 0) (\<lambda>_.
     checked h (argument as_num args 1) (\<lambda>session.
     checked h (argument as_num args 2) (\<lambda>i.
       sending (SFin (to_stream_id session) (to_stream_id i)) h)))"

definition server_reset :: "server_command call" where
  "server_reset args h =
     checked h (argument as_server args 0) (\<lambda>_.
     checked h (argument as_num args 1) (\<lambda>session.
     checked h (argument as_num args 2) (\<lambda>i.
     checked h (argument as_num args 3) (\<lambda>code.
       sending (SResetStream (to_stream_id session) (to_stream_id i) (to_code code)) h))))"

definition server_stop_sending :: "server_command call" where
  "server_stop_sending args h =
     checked h (argument as_server args 0) (\<lambda>_.
     checked h (argument as_num args 1) (\<lambda>session.
     checked h (argument as_num args 2) (\<lambda>i.
     checked h (argument as_num args 3) (\<lambda>code.
       sending (SStopSending (to_stream_id session) (to_stream_id i) (to_code code)) h))))"

definition server_set_paused :: "server_command call" where
  "server_set_paused args h =
     checked h (argument as_server args 0) (\<lambda>_.
     checked h (argument as_num args 1) (\<lambda>session.
     checked h (argument as_num args 2) (\<lambda>i.
     checked h (argument as_bool args 3) (\<lambda>p.
       sending (SSetPaused (to_stream_id session) (to_stream_id i) p) h))))"

definition server_send_datagram :: "server_command call" where
  "server_send_datagram args h =
     checked h (argument as_server args 0) (\<lambda>_.
     checked h (argument as_num args 1) (\<lambda>session.
     checked h (argument as_buf args 2) (\<lambda>data.
     checked h (argument as_num args 3) (\<lambda>r.
       sending (SSendDatagram (to_stream_id session) data (to_request_id r)) h))))"

definition server_close_session :: "server_command call" where
  "server_close_session args h =
     checked h (argument as_server args 0) (\<lambda>_.
     checked h (argument as_num args 1) (\<lambda>session.
     checked h (argument as_num args 2) (\<lambda>code.
     checked h (argument as_buf args 3) (\<lambda>reason.
       sending (SCloseSession (to_stream_id session) (ucast (to_code code)) reason) h))))"

definition server_drain :: "server_command call" where
  "server_drain args h =
     checked h (argument as_server args 0) (\<lambda>_.
     checked h (argument as_num args 1) (\<lambda>session.
       sending (SDrain (to_stream_id session)) h))"

definition server_get_stats :: "server_command call" where
  "server_get_stats args h =
     checked h (argument as_server args 0) (\<lambda>_.
     checked h (argument as_num args 1) (\<lambda>session.
     checked h (argument as_num args 2) (\<lambda>r.
       sending (SGetStats (to_stream_id session) (to_request_id r)) h)))"

definition server_export_keying_material :: "server_command call" where
  "server_export_keying_material args h =
     checked h (argument as_server args 0) (\<lambda>_.
     checked h (argument as_num args 1) (\<lambda>session.
     checked h (argument as_num args 2) (\<lambda>r.
     checked h (argument as_buf args 3) (\<lambda>label.
     checked h (argument as_buf args 4) (\<lambda>ctx.
     checked h (argument as_num args 5) (\<lambda>len.
     checked h (output_length len) (\<lambda>n.
       sending (SExportKeyingMaterial (to_stream_id session) (to_request_id r) label ctx n) h)))))))"

definition server_shutdown :: "server_command call" where
  "server_shutdown args h = checked h (argument as_server args 0) (\<lambda>_. sending SShutdown h)"

definition server_max_datagram_size :: "server_command call" where
  "server_max_datagram_size args h =
     checked h (argument as_server args 0) (\<lambda>_. (Inr (JNum (nat_as_f64 (ds_max_datagram_size (h_shared h)))), h))"

section \<open>Connecting and listening\<close>

datatype url_host = HostDomain string | HostIp ip_addr

record url =
  u_scheme :: string
  u_fragment :: "string option"
  u_username :: string
  u_password :: "string option"
  u_host :: "url_host option"
  u_port_or_known_default :: "u16 option"
  u_authority :: string
  u_path_query :: string

record parsed_url =
  pu_host :: string
  pu_port :: u16
  pu_sni :: "string option"
  pu_authority :: string
  pu_path :: string

definition parse_url :: "(string \<Rightarrow> string + url) \<Rightarrow> string \<Rightarrow> string + parsed_url" where
  "parse_url url_parse s =
     (case url_parse s of
        Inl e \<Rightarrow> Inl (''invalid WebTransport URL: '' @ e)
      | Inr parsed \<Rightarrow>
          if u_scheme parsed \<noteq> ''https'' \<or> u_fragment parsed \<noteq> None \<or> u_username parsed \<noteq> [] \<or> u_password parsed \<noteq> None
          then Inl ''WebTransport URL must use HTTPS without credentials or a fragment''
          else
            (case u_host parsed of
               None \<Rightarrow> Inl ''WebTransport URL has no host''
             | Some h \<Rightarrow>
                (let host = (case h of HostDomain name \<Rightarrow> name | HostIp ip \<Rightarrow> show_ip ip)
                 in case u_port_or_known_default parsed of
                      None \<Rightarrow> Inl ''invalid port''
                    | Some port \<Rightarrow>
                        Inr \<lparr>pu_host = host, pu_port = port,
                             pu_sni = (if parse_ip host = None then Some host else None),
                             pu_authority = u_authority parsed, pu_path = u_path_query parsed\<rparr>)))"

fun js_strings :: "js_value list \<Rightarrow> js_error + string list" where
  "js_strings [] = Inr []"
| "js_strings (v # vs) =
     (case as_str v of
        None \<Rightarrow> Inl TypeError
      | Some x \<Rightarrow> try_then (js_strings vs) (\<lambda>xs. Inr (x # xs)))"

text \<open>Names and values are read in turn, up to the shorter of the two arrays.\<close>

fun js_pairs :: "js_value list \<Rightarrow> js_value list \<Rightarrow> js_error + (string \<times> string) list" where
  "js_pairs (k # ks) (v # vs) =
     (case (as_str k, as_str v) of
        (Some k, Some v) \<Rightarrow> try_then (js_pairs ks vs) (\<lambda>kvs. Inr ((k, v) # kvs))
      | _ \<Rightarrow> Inl TypeError)"
| "js_pairs _ _ = Inr []"

fun js_hashes :: "js_value list \<Rightarrow> js_error + bytes list" where
  "js_hashes [] = Inr []"
| "js_hashes (v # vs) =
     (case as_buf v of
        None \<Rightarrow> Inl TypeError
      | Some h \<Rightarrow>
          if length h = 32 then try_then (js_hashes vs) (\<lambda>hs. Inr (h # hs))
          else Inl (JsError ''serverCertificateHashes entries must be 32 bytes (sha-256)''))"

definition throws :: "string + 'a \<Rightarrow> js_error + 'a" where
  "throws r = (case r of Inl e \<Rightarrow> Inl (JsError e) | Inr x \<Rightarrow> Inr x)"

text \<open>What the operating system answers when the event loop and the thread are made.\<close>

record host_env =
  he_url_parse :: "string \<Rightarrow> string + url"
  he_poll :: "string option"
  he_waker :: "string option"
  he_spawn :: "string option"

definition handle_new :: "'cmd handle" where
  "handle_new = \<lparr>h_tx = True, h_receiver = True, h_queue = [], h_wakes = 0, h_shared = shared_default, h_thread = True\<rparr>"

definition plumbing :: "host_env \<Rightarrow> string \<Rightarrow> 'su \<Rightarrow> js_error + 'su \<times> 'cmd handle" where
  "plumbing H what setup =
     try_then (throws (setter ''mio poll'' id (he_poll H) ())) (\<lambda>_.
     try_then (throws (setter ''mio waker'' id (he_waker H) ())) (\<lambda>_.
     try_then (throws (setter (''failed to spawn '' @ what @ '' thread'') id (he_spawn H) ())) (\<lambda>_.
       Inr (setup, handle_new))))"

definition js_connect :: "host_env \<Rightarrow> js_value list \<Rightarrow> js_error + session_setup \<times> command handle" where
  "js_connect H args =
     try_then (argument as_str args 0) (\<lambda>url.
     try_then (argument as_arr args 1) (\<lambda>hashes_arr.
     try_then (argument as_bool args 2) (\<lambda>insecure.
     try_then (argument Some args 3) (\<lambda>origin_val.
     try_then (argument as_arr args 4) (\<lambda>names_arr.
     try_then (argument as_arr args 5) (\<lambda>vals_arr.
     try_then (argument as_arr args 6) (\<lambda>protocols_arr.
     try_then (argument as_fun args 7) (\<lambda>_.
     try_then (js_hashes hashes_arr) (\<lambda>hashes.
     try_then (js_pairs names_arr vals_arr) (\<lambda>extra_headers.
     try_then (js_strings protocols_arr) (\<lambda>protocols.
     try_then (throws (parse_url (he_url_parse H) url)) (\<lambda>parsed.
       let verify = (if hashes \<noteq> [] then Hashes hashes else if insecure then Insecure else PkiDefault);
           params = client_config_default\<lparr>cp_expected_ip := parse_ip (pu_host parsed), cp_verify := verify\<rparr>
       in plumbing H ''driver''
            \<lparr>su_host = pu_host parsed, su_port = pu_port parsed, su_sni = pu_sni parsed,
             su_authority = pu_authority parsed, su_path = pu_path parsed, su_origin = as_str origin_val,
             su_extra_headers = extra_headers, su_protocols = protocols, su_config = params\<rparr>))))))))))))"

definition server_listen :: "host_env \<Rightarrow> js_value list \<Rightarrow> js_error + server_setup \<times> server_command handle" where
  "server_listen H args =
     try_then (argument as_str args 0) (\<lambda>cert_path.
     try_then (argument as_str args 1) (\<lambda>key_path.
     try_then (argument as_str args 2) (\<lambda>host.
     try_then (argument as_num args 3) (\<lambda>port.
     try_then (argument as_bool args 4) (\<lambda>reuse_port.
     try_then (argument as_arr args 5) (\<lambda>supported_arr.
     try_then (argument Some args 6) (\<lambda>origins_val.
     try_then (argument as_arr args 7) (\<lambda>resp_names.
     try_then (argument as_arr args 8) (\<lambda>resp_vals.
     try_then (argument as_fun args 9) (\<lambda>_.
     try_then (js_strings supported_arr) (\<lambda>supported_protocols.
     try_then (case as_arr origins_val of
                 Some arr \<Rightarrow> try_then (js_strings arr) (\<lambda>v. Inr (Some v))
               | None \<Rightarrow> Inr None) (\<lambda>allowed_origins.
     try_then (js_pairs resp_names resp_vals) (\<lambda>response_headers.
       plumbing H ''server''
         \<lparr>sv_host = host, sv_port = f64_as_u16 port, sv_cert_path = cert_path, sv_key_path = key_path,
          sv_reuse_port = reuse_port, sv_supported_protocols = supported_protocols,
          sv_allowed_origins = allowed_origins, sv_response_headers = response_headers\<rparr>)))))))))))))"

section \<open>Events as JavaScript objects\<close>

text \<open>
  Setting a property replaces its value or adds it at the end. The name of the prototype is special: a
  value that is not an object is ignored there.
\<close>

type_synonym js_obj = "(string \<times> js_value) list"

definition obj_set :: "string \<Rightarrow> js_value \<Rightarrow> js_obj \<Rightarrow> js_obj" where
  "obj_set k v obj = (if k = ''__proto__'' then obj else AList.update k v obj)"

definition set_str :: "string \<Rightarrow> string \<Rightarrow> js_obj \<Rightarrow> js_obj" where
  "set_str k v = obj_set k (JStr v)"

definition set_num :: "string \<Rightarrow> js_num \<Rightarrow> js_obj \<Rightarrow> js_obj" where
  "set_num k v = obj_set k (JNum v)"

definition set_bool :: "string \<Rightarrow> bool \<Rightarrow> js_obj \<Rightarrow> js_obj" where
  "set_bool k v = obj_set k (JBool v)"

definition set_buf :: "string \<Rightarrow> bytes \<Rightarrow> js_obj \<Rightarrow> js_obj" where
  "set_buf k v = obj_set k (JBytes v)"

definition set_opt_str :: "string \<Rightarrow> string option \<Rightarrow> js_obj \<Rightarrow> js_obj" where
  "set_opt_str k v obj = (case v of Some x \<Rightarrow> set_str k x obj | None \<Rightarrow> obj_set k JNull obj)"

definition u64_as_f64 :: "u64 \<Rightarrow> js_num" where
  "u64_as_f64 w = nat_as_f64 (unat w)"

text \<open>The first argument converts a duration in nanoseconds into floating-point milliseconds.\<close>

fun ev_to_js :: "(nat \<Rightarrow> js_num) \<Rightarrow> ev \<Rightarrow> js_obj" where
  "ev_to_js ms (EvReady protocol headers) =
     (let obj = set_str ''type'' ''ready'' [];
          obj = set_opt_str ''protocol'' protocol obj
      in obj_set ''responseHeaders'' (JArr (map (\<lambda>(k, v). JArr [JStr k, JStr v]) headers)) obj)"
| "ev_to_js ms EvDraining = set_str ''type'' ''draining'' []"
| "ev_to_js ms (EvStats request_id bytes_sent bytes_received packets_sent packets_received packets_lost srtt rttvar min_rtt) =
     (let obj = set_str ''type'' ''stats'' [];
          obj = set_num ''requestId'' (u64_as_f64 request_id) obj;
          obj = set_num ''bytesSent'' (u64_as_f64 bytes_sent) obj;
          obj = set_num ''bytesReceived'' (u64_as_f64 bytes_received) obj;
          obj = set_num ''packetsSent'' (u64_as_f64 packets_sent) obj;
          obj = set_num ''packetsReceived'' (u64_as_f64 packets_received) obj;
          obj = set_num ''packetsLost'' (u64_as_f64 packets_lost) obj;
          obj = set_num ''smoothedRtt'' (ms srtt) obj;
          obj = set_num ''rttVariation'' (ms rttvar) obj
      in set_num ''minRtt'' (ms min_rtt) obj)"
| "ev_to_js ms (EvServerReady authority path origin headers requested_protocols protocol remote_addr remote_port) =
     (let obj = set_str ''type'' ''serverReady'' [];
          obj = set_str ''authority'' authority obj;
          obj = set_str ''path'' path obj;
          obj = set_opt_str ''origin'' origin obj;
          obj = obj_set ''headers'' (JObj (fold (\<lambda>(k, v). set_str k v) headers [])) obj;
          obj = obj_set ''requestedProtocols'' (JArr (map JStr requested_protocols)) obj;
          obj = set_opt_str ''protocol'' protocol obj;
          obj = set_str ''remoteAddress'' remote_addr obj
      in set_num ''remotePort'' (nat_as_f64 (unat remote_port)) obj)"
| "ev_to_js ms (EvClosed code reason remote) =
     (let obj = set_str ''type'' ''closed'' [];
          obj = set_num ''code'' (nat_as_f64 (unat code)) obj;
          obj = set_buf ''reason'' reason obj
      in set_bool ''remote'' remote obj)"
| "ev_to_js ms (EvError msg) = set_str ''message'' msg (set_str ''type'' ''error'' [])"
| "ev_to_js ms (EvDatagram data) = set_buf ''data'' data (set_str ''type'' ''datagram'' [])"
| "ev_to_js ms (EvIncomingStream i bidi) =
     set_bool ''bidi'' bidi (set_num ''streamId'' (u64_as_f64 i) (set_str ''type'' ''stream'' []))"
| "ev_to_js ms (EvStreamData i data) =
     set_buf ''data'' data (set_num ''streamId'' (u64_as_f64 i) (set_str ''type'' ''streamData'' []))"
| "ev_to_js ms (EvStreamFinished i) = set_num ''streamId'' (u64_as_f64 i) (set_str ''type'' ''streamFin'' [])"
| "ev_to_js ms (EvStreamReset i code) =
     set_num ''code'' (u64_as_f64 code) (set_num ''streamId'' (u64_as_f64 i) (set_str ''type'' ''streamReset'' []))"
| "ev_to_js ms (EvStreamStopSending i code) =
     set_num ''code'' (u64_as_f64 code) (set_num ''streamId'' (u64_as_f64 i) (set_str ''type'' ''streamStopSending'' []))"
| "ev_to_js ms (EvStreamOpened request_id i) =
     set_num ''streamId'' (u64_as_f64 i)
       (set_num ''requestId'' (u64_as_f64 request_id) (set_str ''type'' ''streamOpened'' []))"
| "ev_to_js ms (EvWriteAck request_id) = set_num ''requestId'' (u64_as_f64 request_id) (set_str ''type'' ''writeAck'' [])"
| "ev_to_js ms (EvDatagramAck request_id sent) =
     set_bool ''sent'' sent (set_num ''requestId'' (u64_as_f64 request_id) (set_str ''type'' ''datagramAck'' []))"
| "ev_to_js ms (EvKeyingMaterial request_id data) =
     (let obj = set_num ''requestId'' (u64_as_f64 request_id) (set_str ''type'' ''keyingMaterial'' [])
      in case data of
           Some b \<Rightarrow> set_buf ''data'' b (set_bool ''ok'' True obj)
         | None \<Rightarrow> set_bool ''ok'' False obj)"

fun server_msg_to_js :: "(nat \<Rightarrow> js_num) \<Rightarrow> server_msg \<Rightarrow> js_obj" where
  "server_msg_to_js ms (Listening port) = set_num ''port'' (nat_as_f64 (unat port)) (set_str ''type'' ''listening'' [])"
| "server_msg_to_js ms (ServerError m) = set_str ''message'' m (set_str ''type'' ''serverError'' [])"
| "server_msg_to_js ms ServerClosed = set_str ''type'' ''serverClosed'' []"
| "server_msg_to_js ms (SessionMsg session e) = set_num ''session'' (u64_as_f64 session) (ev_to_js ms e)"

section \<open>The module\<close>

text \<open>The functions exported for a session and for a server, \<^verbatim>\<open>connect\<close> and \<^verbatim>\<open>serverListen\<close> apart, which make the handles.\<close>

definition session_exports :: "(string \<times> command call) list" where
  "session_exports =
     [(''openStream'', js_open_stream), (''writeStream'', js_write_stream), (''finStream'', js_fin_stream),
      (''resetStream'', js_reset_stream), (''stopSending'', js_stop_sending), (''setPaused'', js_set_paused),
      (''sendDatagram'', js_send_datagram), (''maxDatagramSize'', js_max_datagram_size), (''isReady'', js_is_ready),
      (''isClosed'', js_is_closed), (''closeSession'', js_close_session), (''drain'', js_drain),
      (''getStats'', js_get_stats), (''exportKeyingMaterial'', js_export_keying_material), (''shutdown'', js_shutdown)]"

definition server_exports :: "(string \<times> server_command call) list" where
  "server_exports =
     [(''serverOpenStream'', server_open_stream), (''serverWrite'', server_write), (''serverFin'', server_fin),
      (''serverReset'', server_reset), (''serverStopSending'', server_stop_sending),
      (''serverSetPaused'', server_set_paused), (''serverSendDatagram'', server_send_datagram),
      (''serverMaxDatagramSize'', server_max_datagram_size), (''serverCloseSession'', server_close_session),
      (''serverDrain'', server_drain), (''serverGetStats'', server_get_stats),
      (''serverExportKeyingMaterial'', server_export_keying_material), (''serverShutdown'', server_shutdown)]"

end
