(* ===== verification/Bindings_Props.thy ===== *)
theory Bindings_Props
  imports Bindings
begin

text \<open>
  What the surface of the addon guarantees: a call throws and changes nothing, reads the shared state, or sends one
  well-formed command and wakes the driver; identifiers survive the trip through JavaScript numbers;
  the address and the trust of a connection are what the caller's arguments say.
\<close>

section \<open>Calls send commands\<close>

fun wf_command :: "command \<Rightarrow> bool" where
  "wf_command (ResetStream _ code) \<longleftrightarrow> unat code < 2 ^ 62"
| "wf_command (StopSending _ code) \<longleftrightarrow> unat code < 2 ^ 62"
| "wf_command (ExportKeyingMaterial _ _ _ n) \<longleftrightarrow> 1 \<le> unat n \<and> unat n \<le> 4096"
| "wf_command _ \<longleftrightarrow> True"

fun wf_server_command :: "server_command \<Rightarrow> bool" where
  "wf_server_command (SResetStream _ _ code) \<longleftrightarrow> unat code < 2 ^ 62"
| "wf_server_command (SStopSending _ _ code) \<longleftrightarrow> unat code < 2 ^ 62"
| "wf_server_command (SExportKeyingMaterial _ _ _ _ n) \<longleftrightarrow> 1 \<le> unat n \<and> unat n \<le> 4096"
| "wf_server_command _ \<longleftrightarrow> True"

lemma to_code_bound: "unat (to_code v) < 2 ^ 62"
proof -
  have bound: "unat (push_bit 62 1 - 1 :: u64) = 2 ^ 62 - 1" by (simp add: push_bit_eq_mult)
  have "unat (min x y) \<le> unat y" for x y :: u64 by (simp add: min_def word_le_nat_alt)
  from this [of _ "push_bit 62 1 - 1"] have "unat (min x (push_bit 62 1 - 1 :: u64)) < 2 ^ 62" for x
    unfolding bound by (rule le_less_trans) simp
  then show ?thesis by (simp add: to_code_def split: js_num.split)
qed

lemmas to_code_bound' = to_code_bound [simplified]

lemma output_length_bound: "output_length v = Inr n \<Longrightarrow> Suc 0 \<le> unat n \<and> unat n \<le> 4096"
proof -
  assume "output_length v = Inr n"
  then obtain x :: rat where x: "1 \<le> x" "x \<le> 4096" and n: "n = of_nat (nat \<lfloor>x\<rfloor>)"
    by (cases v) (auto simp: output_length_def Let_def simp del: of_nat_nat split: if_splits)
  from x have "1 \<le> \<lfloor>x\<rfloor>" "\<lfloor>x\<rfloor> \<le> 4096" by (simp_all add: le_floor_iff floor_le_iff)
  then have k: "Suc 0 \<le> nat \<lfloor>x\<rfloor>" "nat \<lfloor>x\<rfloor> \<le> 4096" by linarith+
  then have "unat n = nat \<lfloor>x\<rfloor>" unfolding n by (simp add: unat_of_nat take_bit_nat_eq_self)
  with k show ?thesis by simp
qed

text \<open>The export that sends a command.\<close>

fun session_call :: "command \<Rightarrow> string" where
  "session_call (OpenStream _ _) = ''openStream''"
| "session_call (Write _ _ _) = ''writeStream''"
| "session_call (Fin _) = ''finStream''"
| "session_call (ResetStream _ _) = ''resetStream''"
| "session_call (StopSending _ _) = ''stopSending''"
| "session_call (SetPaused _ _) = ''setPaused''"
| "session_call (SendDatagram _ _) = ''sendDatagram''"
| "session_call (Close _ _) = ''closeSession''"
| "session_call Drain = ''drain''"
| "session_call (GetStats _) = ''getStats''"
| "session_call (ExportKeyingMaterial _ _ _ _) = ''exportKeyingMaterial''"
| "session_call Shutdown = ''shutdown''"

fun server_call :: "server_command \<Rightarrow> string" where
  "server_call (SOpenStream _ _ _) = ''serverOpenStream''"
| "server_call (SWrite _ _ _ _) = ''serverWrite''"
| "server_call (SFin _ _) = ''serverFin''"
| "server_call (SResetStream _ _ _) = ''serverReset''"
| "server_call (SStopSending _ _ _) = ''serverStopSending''"
| "server_call (SSetPaused _ _ _) = ''serverSetPaused''"
| "server_call (SSendDatagram _ _ _) = ''serverSendDatagram''"
| "server_call (SCloseSession _ _ _) = ''serverCloseSession''"
| "server_call (SDrain _) = ''serverDrain''"
| "server_call (SGetStats _ _) = ''serverGetStats''"
| "server_call (SExportKeyingMaterial _ _ _ _ _) = ''serverExportKeyingMaterial''"
| "server_call SShutdown = ''serverShutdown''"

text \<open>The exports that only read the state shared with the thread.\<close>

definition session_readers :: "string list" where
  "session_readers = [''maxDatagramSize'', ''isReady'', ''isClosed'']"

definition server_readers :: "string list" where
  "server_readers = [''serverMaxDatagramSize'']"

text \<open>
  A table of calls: a call that throws, or one of the \<open>readers\<close>, leaves the handle as it was; any other
  sends exactly one command, \<open>good\<close> for the name it was called by.
\<close>

definition sends :: "('cmd \<Rightarrow> bool) \<Rightarrow> 'cmd handle \<Rightarrow> 'cmd handle \<Rightarrow> bool" where
  "sends good h h' \<longleftrightarrow> (\<exists>cmd. good cmd \<and> h' = handle_send cmd h)"

definition behaves ::
  "('cmd \<Rightarrow> bool) \<Rightarrow> bool \<Rightarrow> 'cmd handle \<Rightarrow> (js_error + js_value) \<times> 'cmd handle \<Rightarrow> bool" where
  "behaves good reader h r \<longleftrightarrow>
     (case fst r of Inl _ \<Rightarrow> snd r = h | Inr _ \<Rightarrow> if reader then snd r = h else sends good h (snd r))"

lemma behaves_checked:
  "(\<And>x. r = Inr x \<Longrightarrow> behaves good reader h (k x)) \<Longrightarrow> behaves good reader h (checked h r k)"
  by (auto simp: checked_def behaves_def split: sum.split)

lemma behaves_sending: "good cmd \<Longrightarrow> behaves good False h (sending cmd h)"
  by (auto simp: behaves_def sending_def sends_def)

lemma behaves_reading: "behaves good True h (Inr v, h)"
  by (simp add: behaves_def)

locale command_table =
  fixes table :: "(string \<times> 'cmd call) list" and readers :: "string list" and good :: "string \<Rightarrow> 'cmd \<Rightarrow> bool"
  assumes call_law: "(name, f) \<in> set table \<Longrightarrow> behaves (good name) (name \<in> set readers) h (f args h)"

text \<open>JavaScript calls exported functions by name; there is nothing to call under another name.\<close>

definition call_export ::
  "(string \<times> 'cmd call) list \<Rightarrow> string \<times> js_value list \<Rightarrow> 'cmd handle \<Rightarrow> (js_error + js_value) \<times> 'cmd handle" where
  "call_export table c h = (case map_of table (fst c) of None \<Rightarrow> (Inl TypeError, h) | Some f \<Rightarrow> f (snd c) h)"

definition after_calls :: "(string \<times> 'cmd call) list \<Rightarrow> (string \<times> js_value list) list \<Rightarrow> 'cmd handle \<Rightarrow> 'cmd handle" where
  "after_calls table cs h = fold (\<lambda>c h. snd (call_export table c h)) cs h"

text \<open>
  The commands of a sequence of calls, one block per call: one good command if the call returned and is not a
  reader, none otherwise. After every prefix of the calls the handle is as before, but that it
  has woken the driver once per command and that the queue holds the commands, if there is still a
  receiver; with the sending end gone neither happens.
\<close>

definition queued :: "'cmd list \<Rightarrow> 'cmd handle \<Rightarrow> 'cmd handle" where
  "queued cmds h =
     (if h_tx h then
        h\<lparr>h_queue := (if h_receiver h then h_queue h @ cmds else h_queue h), h_wakes := h_wakes h + length cmds\<rparr>
      else h)"

definition block_of ::
  "(string \<times> 'cmd call) list \<Rightarrow> string list \<Rightarrow> (string \<Rightarrow> 'cmd \<Rightarrow> bool) \<Rightarrow> string \<times> js_value list
    \<Rightarrow> 'cmd handle \<Rightarrow> 'cmd list \<Rightarrow> bool" where
  "block_of table readers good c h b \<longleftrightarrow>
     (case fst (call_export table c h) of
        Inl _ \<Rightarrow> b = []
      | Inr _ \<Rightarrow> if fst c \<in> set readers then b = [] else \<exists>cmd. good (fst c) cmd \<and> b = [cmd])"

definition queues ::
  "(string \<times> 'cmd call) list \<Rightarrow> string list \<Rightarrow> (string \<Rightarrow> 'cmd \<Rightarrow> bool) \<Rightarrow> (string \<times> js_value list) list
    \<Rightarrow> 'cmd handle \<Rightarrow> 'cmd list list \<Rightarrow> bool" where
  "queues table readers good cs h blocks \<longleftrightarrow>
     length blocks = length cs
     \<and> (\<forall>k < length cs. block_of table readers good (cs ! k) (after_calls table (take k cs) h) (blocks ! k))
     \<and> (\<forall>k \<le> length cs. after_calls table (take k cs) h = queued (concat (take k blocks)) h)"

lemma queued_append [simp]: "queued b (queued a h) = queued (a @ b) h"
  by (simp add: queued_def)

lemma queued_Nil [simp]: "queued [] h = h"
  by (simp add: queued_def)

lemma queued_one: "queued [cmd] h = handle_send cmd h"
  by (simp add: queued_def handle_send_def)

lemma after_calls_Cons: "after_calls table (c # cs) h = after_calls table cs (snd (call_export table c h))"
  by (simp add: after_calls_def)

lemma queues_Cons:
  assumes "block_of table readers good c h b" and "snd (call_export table c h) = queued b h"
    and "queues table readers good cs (snd (call_export table c h)) blocks"
  shows "queues table readers good (c # cs) h (b # blocks)"
  unfolding queues_def
proof (intro conjI allI impI)
  show "length (b # blocks) = length (c # cs)" using assms(3) by (simp add: queues_def)
next
  fix k assume k: "k < length (c # cs)"
  show "block_of table readers good ((c # cs) ! k) (after_calls table (take k (c # cs)) h) ((b # blocks) ! k)"
  proof (cases k)
    case 0
    with assms(1) show ?thesis by (simp add: after_calls_def)
  next
    case (Suc n)
    with k have "n < length cs" by simp
    with assms(3) have "block_of table readers good (cs ! n) (after_calls table (take n cs) (snd (call_export table c h))) (blocks ! n)"
      unfolding queues_def by blast
    then show ?thesis by (simp add: Suc after_calls_Cons)
  qed
next
  fix k assume k: "k \<le> length (c # cs)"
  show "after_calls table (take k (c # cs)) h = queued (concat (take k (b # blocks))) h"
  proof (cases k)
    case (Suc n)
    with k have "n \<le> length cs" by simp
    with assms(3) have "after_calls table (take n cs) (snd (call_export table c h)) = queued (concat (take n blocks)) (snd (call_export table c h))"
      unfolding queues_def by blast
    then show ?thesis by (simp add: Suc after_calls_Cons assms(2))
  qed (simp add: after_calls_def)
qed

context command_table
begin

lemma call_export_block:
  obtains b where "block_of table readers good c h b" and "snd (call_export table c h) = queued b h"
proof -
  have law: "behaves (good (fst c)) (fst c \<in> set readers) h (call_export table c h)"
  proof (cases "map_of table (fst c)")
    case (Some f)
    then show ?thesis using call_law [OF map_of_SomeD [OF Some]] by (simp add: call_export_def)
  qed (simp add: call_export_def behaves_def)
  show thesis
  proof (cases "\<exists>v. fst (call_export table c h) = Inr v \<and> fst c \<notin> set readers")
    case True
    with law obtain cmd where "good (fst c) cmd" "snd (call_export table c h) = handle_send cmd h"
      by (auto simp: behaves_def sends_def)
    with True that [of "[cmd]"] show ?thesis by (auto simp: queued_one block_of_def)
  next
    case False
    with law that [of "[]"] show ?thesis by (cases "fst (call_export table c h)") (auto simp: behaves_def block_of_def)
  qed
qed

lemma calls_queue: "\<exists>blocks. queues table readers good cs h blocks"
proof (induction cs arbitrary: h)
  case Nil
  show ?case by (intro exI [of _ "[]"]) (simp add: queues_def after_calls_def)
next
  case (Cons c cs)
  obtain b where b: "block_of table readers good c h b" "snd (call_export table c h) = queued b h" using call_export_block .
  from Cons.IH obtain blocks where "queues table readers good cs (snd (call_export table c h)) blocks" by blast
  with queues_Cons [OF b] show ?case by blast
qed

end

lemmas session_call_defs =
  js_open_stream_def js_write_stream_def js_fin_stream_def js_reset_stream_def js_stop_sending_def
  js_set_paused_def js_send_datagram_def js_max_datagram_size_def js_is_ready_def js_is_closed_def
  js_close_session_def js_drain_def js_get_stats_def js_export_keying_material_def js_shutdown_def

lemmas server_call_defs =
  server_open_stream_def server_write_def server_fin_def server_reset_def server_stop_sending_def
  server_set_paused_def server_send_datagram_def server_max_datagram_size_def server_close_session_def
  server_drain_def server_get_stats_def server_export_keying_material_def server_shutdown_def

definition session_good :: "string \<Rightarrow> command \<Rightarrow> bool" where
  "session_good name cmd \<longleftrightarrow> session_call cmd = name \<and> wf_command cmd"

definition server_good :: "string \<Rightarrow> server_command \<Rightarrow> bool" where
  "server_good name cmd \<longleftrightarrow> server_call cmd = name \<and> wf_server_command cmd"

interpretation sx: command_table session_exports session_readers session_good
proof
  fix name f h args assume "(name, f) \<in> set session_exports"
  then show "behaves (session_good name) (name \<in> set session_readers) h (f args h)"
    unfolding session_exports_def
    by (auto simp: session_readers_def session_call_defs session_good_def to_code_bound'
        intro!: behaves_checked behaves_sending behaves_reading dest!: output_length_bound)
qed

interpretation vx: command_table server_exports server_readers server_good
proof
  fix name f h args assume "(name, f) \<in> set server_exports"
  then show "behaves (server_good name) (name \<in> set server_readers) h (f args h)"
    unfolding server_exports_def
    by (auto simp: server_readers_def server_call_defs server_good_def to_code_bound'
        intro!: behaves_checked behaves_sending behaves_reading dest!: output_length_bound)
qed

text \<open>
  Claim C28. Whatever JavaScript calls on a handle, with whatever arguments and in whatever state the handle is,
  a call that throws leaves it as it was, and so do the calls that read the shared state (the size of
  datagrams, readiness, closedness). Every other call that returns sends one command, the one of
  its own name, in the order of the calls: the driver is woken once, and the command is in the queue
  if the receiver is still there. Every command is well formed: a stream code fits in 62 bits and a
  key export asks for 1 to 4096 bytes.
\<close>

theorem calls_send_wf_commands:
  "(\<exists>blocks. queues session_exports session_readers session_good cs h blocks)
   \<and> (\<exists>blocks. queues server_exports server_readers server_good cs h' blocks)"
  using sx.calls_queue [of cs h] vx.calls_queue [of cs h'] by simp

section \<open>Identifiers and codes\<close>

lemma f64_as_u64_exact: "n < 2 ^ 64 \<Longrightarrow> f64_as_u64 (of_nat n) = of_nat n"
  by (simp add: f64_as_u64_def min_def)

lemma unat_f64_as_u64: "unat (f64_as_u64 x) = min (nat \<lfloor>x\<rfloor>) (2 ^ 64 - 1)"
proof -
  have "min (nat \<lfloor>x\<rfloor>) (2 ^ 64 - 1) < 2 ^ LENGTH(64)" by (simp add: min_def)
  then show ?thesis unfolding f64_as_u64_def unat_of_nat by (rule mod_less)
qed

lemma u64_through_f64:
  assumes "unat i < 2 ^ 53"
  shows "u64_as_f64 i = Finite (of_nat (unat i))" and "f64_as_u64 (of_nat (unat i)) = i"
  using f64_as_u64_exact [of "unat i"] assms by (simp_all add: u64_as_f64_def nat_as_f64_def round53_def)

text \<open>
  Claim C40. An identifier below \<open>2 ^ 53\<close> that an event hands to JavaScript comes back unchanged, as a
  stream, session or request number. A malformed number never names stream 0, the CONNECT stream:
  the only numbers that do are those from 0 up to but not including 1.
\<close>

theorem ids_survive_javascript:
  assumes "unat i < 2 ^ 53"
  shows "to_stream_id (u64_as_f64 i) = i \<and> to_request_id (u64_as_f64 i) = i
    \<and> (to_stream_id v = 0 \<longleftrightarrow> (\<exists>x. v = Finite x \<and> 0 \<le> x \<and> x < 1))"
proof -
  have zero: "f64_as_u64 x = 0 \<longleftrightarrow> x < 1" if "0 \<le> x" for x
    unfolding unat_eq_zero [symmetric] unat_f64_as_u64 using that by (auto simp: min_def not_le le_floor_iff)
  have "to_stream_id v = 0 \<longleftrightarrow> (\<exists>x. v = Finite x \<and> 0 \<le> x \<and> x < 1)"
    by (cases v) (auto simp: to_stream_id_def zero)
  moreover have "(0 :: rat) \<le> of_nat (unat i)" by (rule of_nat_0_le_iff)
  ultimately show ?thesis
    unfolding to_stream_id_def to_request_id_def u64_through_f64 (1) [OF assms] js_num.case
    using u64_through_f64 (2) [OF assms] by simp
qed

theorem ids_survive_javascript_witness:
  "to_stream_id (u64_as_f64 (2 ^ 53 - 1)) = 2 ^ 53 - 1 \<and> to_stream_id (Finite (1 / 2)) = 0"
proof -
  have "unat (2 ^ 53 - 1 :: u64) < 2 ^ 53" by simp
  from ids_survive_javascript [OF this, of "Finite (1 / 2)"] show ?thesis by (auto intro!: exI [of _ "1 / 2"])
qed

lemma unat_to_code:
  assumes "0 \<le> x"
  shows "unat (to_code (Finite x)) = min (nat \<lfloor>x\<rfloor>) (2 ^ 62 - 1)"
proof -
  have "unat (push_bit 62 1 - 1 :: u64) = 2 ^ 62 - 1" by (simp add: push_bit_eq_mult)
  moreover have "unat (min a b) = min (unat a) (unat b)" for a b :: u64
    by (simp add: min_def word_le_nat_alt)
  ultimately show ?thesis using assms by (simp add: to_code_def unat_f64_as_u64 min_def)
qed

text \<open>
  Claim C39. An application code as JavaScript's \<^verbatim>\<open>>>> 0\<close> produces it reaches the wire as a code of the
  WebTransport range, from which the peer reads the same code again. The clamp of \<open>to_code\<close> alone
  does not keep the mapped code within 62 bits: the largest code it lets through is mapped beyond.
\<close>

theorem app_code_on_wire:
  assumes "n < 2 ^ 32"
  shows "http_code_to_webtransport_code (webtransport_code_to_http_code (to_code (nat_as_f64 n))) = Some (of_nat n)
    \<and> 2 ^ 62 \<le> unat (webtransport_code_to_http_code (to_code (Finite (2 ^ 62))))"
proof -
  let ?c = "to_code (nat_as_f64 n)"
  have n: "unat ?c = n"
    using assms unat_to_code [of "of_nat n"] by (simp add: nat_as_f64_def round53_def min_def)
  have "of_nat (unat ?c) = ?c" by simp
  then have "?c = of_nat n" unfolding n ..
  moreover from n have "unat ?c < 2 ^ 62" "?c < 2 ^ 32"
    using assms by (simp_all add: word_less_nat_alt)
  moreover have "unat (to_code (Finite (2 ^ 62))) = 2 ^ 62 - 1"
    using unat_to_code [of "2 ^ 62"] by (simp add: min_def)
  then have "unat (webtransport_code_to_http_code (to_code (Finite (2 ^ 62)))) = 0x52e4a40fa8db + (2 ^ 62 - 1) + (2 ^ 62 - 1) div 30"
    by (simp add: unat_to_http)
  ultimately show ?thesis
    by (simp add: http_code_iff unat_to_http)
qed

theorem app_code_on_wire_witness:
  "http_code_to_webtransport_code (webtransport_code_to_http_code (to_code (nat_as_f64 7))) = Some 7"
  using app_code_on_wire [of 7] by simp

section \<open>Where a connection goes, and whom it trusts\<close>

text \<open>
  Claim C31. A URL is accepted exactly when it parses, is HTTPS without credentials or fragment, and has
  a host and a port. An IP literal then keeps its value through its textual form and gets no server
  name; any other host is its own server name unless it reads as an address.
\<close>

definition url_ok :: "url \<Rightarrow> bool" where
  "url_ok u \<longleftrightarrow> u_scheme u = ''https'' \<and> u_fragment u = None \<and> u_username u = [] \<and> u_password u = None
     \<and> u_host u \<noteq> None \<and> u_port_or_known_default u \<noteq> None"

theorem parse_url_exact:
  assumes "url_parse s = Inr u" and "\<forall>ip. u_host u = Some (HostIp ip) \<longrightarrow> ip_wf ip"
  shows "case parse_url url_parse s of
      Inl _ \<Rightarrow> \<not> url_ok u
    | Inr pu \<Rightarrow> url_ok u \<and> Some (pu_port pu) = u_port_or_known_default u
        \<and> pu_authority pu = u_authority u \<and> pu_path pu = u_path_query u
        \<and> (case u_host u of
             None \<Rightarrow> False
           | Some (HostIp ip) \<Rightarrow> parse_ip (pu_host pu) = Some ip \<and> pu_sni pu = None
           | Some (HostDomain name) \<Rightarrow>
               pu_host pu = name \<and> pu_sni pu = (if parse_ip name = None then Some name else None))"
  using assms by (auto simp: parse_url_def url_ok_def Let_def parse_show_ip split: option.splits url_host.splits)

theorem parse_url_exact_witness:
  "\<exists>pu. parse_url (\<lambda>_. Inr \<lparr>u_scheme = ''https'', u_fragment = None, u_username = [], u_password = None,
        u_host = Some (HostIp (IpV6 (replicate 15 0 @ [1]))), u_port_or_known_default = Some 443,
        u_authority = ''[::1]'', u_path_query = ''/''\<rparr>) ''https://[::1]/'' = Inr pu
     \<and> parse_ip (pu_host pu) = Some (IpV6 (replicate 15 0 @ [1])) \<and> pu_sni pu = None"
  (is "\<exists>pu. parse_url ?f ?s = _ \<and> _ \<and> _")
proof -
  obtain u where u: "?f ?s = Inr u" and host: "u_host u = Some (HostIp (IpV6 (replicate 15 0 @ [1])))" and ok: "url_ok u"
    by (auto simp: url_ok_def)
  then have "\<forall>ip. u_host u = Some (HostIp ip) \<longrightarrow> ip_wf ip" by (simp add: ip_wf_def)
  from parse_url_exact [where url_parse = ?f and s = ?s, OF u this] ok host show ?thesis
    by (cases "parse_url ?f ?s") auto
qed

lemma plumbing_Inr: "plumbing H what su = Inr (su', h) \<Longrightarrow> su' = su \<and> h = handle_new"
  by (auto simp: plumbing_def try_then_Inr)

lemma js_hashes_Inr: "js_hashes vs = Inr hs \<Longrightarrow> vs = map JBytes hs \<and> list_all (\<lambda>h. length h = 32) hs"
proof (induction vs arbitrary: hs)
  case (Cons v vs)
  then show ?case by (cases v) (auto simp: try_then_Inr split: if_splits)
qed simp

lemma argument_Inr: "argument sel args i = Inr x \<longleftrightarrow> i < length args \<and> sel (args ! i) = Some x"
  by (auto simp: argument_def split: option.splits)

lemma as_arr_Some [simp]: "as_arr v = Some xs \<longleftrightarrow> v = JArr xs"
  by (cases v) auto

lemma as_bool_Some [simp]: "as_bool v = Some b \<longleftrightarrow> v = JBool b"
  by (cases v) auto

lemma parse_url_sni:
  "parse_url url_parse s = Inr pu \<Longrightarrow> pu_sni pu = (if parse_ip (pu_host pu) = None then Some (pu_host pu) else None)"
  by (auto simp: parse_url_def Let_def split: sum.splits option.splits if_splits)

lemma js_connect_Inr:
  assumes "js_connect H args = Inr (su, h)"
  obtains hashes insecure where "args ! 1 = JArr (map JBytes hashes)" and "list_all (\<lambda>h. length h = 32) hashes"
    and "args ! 2 = JBool insecure" and "h = handle_new"
    and "su_config su = client_config_default\<lparr>cp_expected_ip := parse_ip (su_host su),
           cp_verify := (if hashes \<noteq> [] then Hashes hashes else if insecure then Insecure else PkiDefault)\<rparr>"
    and "su_sni su = (if parse_ip (su_host su) = None then Some (su_host su) else None)"
  using assms unfolding js_connect_def try_then_Inr argument_Inr Let_def
  by (elim exE conjE) (drule plumbing_Inr, auto simp: throws_def parse_url_sni dest!: js_hashes_Inr split: sum.splits)

text \<open>
  Claim C18. A connection made from JavaScript checks the server the way its caller asked. With hashes
  (each of 32 bytes) only a pinned certificate counts, whatever else was asked, and nothing done to the
  configuration afterwards replaces that; without hashes and without the explicit override,
  BoringSSL checks the chain against roots that are all usable certificates of the system's store, at
  least one, and the peer against the host of the URL, as a name or as a literal address; only
  the override turns the check off. In every case the connection speaks TLS 1.3 and HTTP/3 only.
\<close>

theorem connect_checks_server:
  assumes "js_connect H args = Inr (su, h)" and "build_config A (su_config su) = Inr c"
  shows "\<exists>hashes insecure. args ! 1 = JArr (map JBytes hashes) \<and> args ! 2 = JBool insecure
    \<and> list_all (\<lambda>h. length h = 32) hashes
    \<and> ctx_min_proto (qc_ssl c) = Some TLS1_3 \<and> ctx_max_proto (qc_ssl c) = Some TLS1_3 \<and> qc_alpn c = [H3_ALPN]
    \<and> (if hashes \<noteq> [] then ctx_verify (qc_ssl c) = VerifyPinned hashes
       else if insecure then ctx_verify (qc_ssl c) = VerifyNone
       else ctx_verify (qc_ssl c) = VerifyPeer \<and> ctx_roots (qc_ssl c) \<noteq> []
         \<and> set (ctx_roots (qc_ssl c)) \<subseteq> {der \<in> set (ssl_native_certs (qa_ssl A)). ssl_from_der (qa_ssl A) der}
         \<and> (case parse_ip (su_host su) of
              None \<Rightarrow> su_sni su = Some (su_host su) \<and> ctx_ip (qc_ssl c) = None
            | Some ip \<Rightarrow> su_sni su = None \<and> ctx_ip (qc_ssl c) = Some (ip_octets ip)))"
proof -
  from js_connect_Inr [OF assms(1)] obtain hashes insecure where
    args: "args ! 1 = JArr (map JBytes hashes)" "list_all (\<lambda>h. length h = 32) hashes" "args ! 2 = JBool insecure"
    and config: "su_config su = client_config_default\<lparr>cp_expected_ip := parse_ip (su_host su),
           cp_verify := (if hashes \<noteq> [] then Hashes hashes else if insecure then Insecure else PkiDefault)\<rparr>"
    and sni: "su_sni su = (if parse_ip (su_host su) = None then Some (su_host su) else None)" .
  show ?thesis
    using build_config_trust [OF assms(2)] args
    by (intro exI [of _ hashes] exI [of _ insecure]) (auto simp: config sni split: option.split)
qed

definition mini_host_env :: host_env where
  "mini_host_env =
     \<lparr>he_url_parse = (\<lambda>s. Inr \<lparr>u_scheme = ''https'', u_fragment = None, u_username = [], u_password = None,
        u_host = Some (HostIp (IpV4 [127, 0, 0, 1])), u_port_or_known_default = Some 4433,
        u_authority = ''127.0.0.1:4433'', u_path_query = ''/''\<rparr>),
      he_poll = None, he_waker = None, he_spawn = None\<rparr>"

lemma mini_connect:
  "\<exists>su h c. js_connect mini_host_env
       [JStr ''https://127.0.0.1:4433/'', JArr [], JBool False, JNull, JArr [], JArr [], JArr [], JFun] = Inr (su, h)
     \<and> build_config mini_quic_api (su_config su) = Inr c"
  by (simp add: js_connect_def argument_def mini_host_env_def parse_url_def throws_def plumbing_def mini_config_simps
      split: option.split)

theorem connect_checks_server_witness:
  "\<exists>su h c. js_connect mini_host_env
       [JStr ''https://127.0.0.1:4433/'', JArr [], JBool False, JNull, JArr [], JArr [], JArr [], JFun] = Inr (su, h)
     \<and> build_config mini_quic_api (su_config su) = Inr c \<and> ctx_verify (qc_ssl c) = VerifyPeer \<and> set (ctx_roots (qc_ssl c)) \<subseteq> {[2]}"
proof -
  from mini_connect obtain su h c where r: "js_connect mini_host_env
       [JStr ''https://127.0.0.1:4433/'', JArr [], JBool False, JNull, JArr [], JArr [], JArr [], JFun] = Inr (su, h)"
    and c: "build_config mini_quic_api (su_config su) = Inr c" by blast
  from connect_checks_server [OF r c] have "ctx_verify (qc_ssl c) = VerifyPeer \<and> set (ctx_roots (qc_ssl c)) \<subseteq> {[2]}"
    by (auto simp: mini_quic_api_def)
  with r c show ?thesis by blast
qed

end
