(* ===== verification/Backpressure.thy ===== *)
theory Backpressure
  imports Driver
begin

text \<open>
  The back-pressure protocol between a driver thread and the JavaScript thread
  (\<^verbatim>\<open>NeonSink::emit\<close>, \<^verbatim>\<open>NeonServerSink::emit\<close> and \<^verbatim>\<open>release_inflight_batch\<close> of
  \<^verbatim>\<open>crates/native/src/lib.rs\<close>, with the loads of the counter in \<^verbatim>\<open>driver.rs\<close> and \<^verbatim>\<open>server.rs\<close>). Both
  threads move in atomic steps that interleave freely: one access to the counter, one operation on
  the channel or one use of the waker at a time. The counter is accessed with relaxed ordering; what
  a woken driver loads is ordered after the decrement by the waker itself, so one current value
  of the counter is enough.
\<close>

section \<open>The state of the two threads\<close>

text \<open>
  A driver waits in its poll, runs an iteration, has counted a batch it is about to schedule, has been
  refused by the channel, or has taken that batch off the counter again, which held \<open>prev\<close> before.
\<close>

datatype 'b driver_pc = DPoll | DRun | DCounted 'b | DRefused | DReleased int

text \<open>The JavaScript thread is idle, has dequeued a batch, or has taken it off the counter.\<close>

datatype 'b js_pc = JIdle | JDequeued 'b | JReleased int 'b

text \<open>
  \<open>bp_withheld\<close> says that the present or the last iteration saw back-pressure and left data in
  \<^verbatim>\<open>quiche\<close> or in the socket; \<open>bp_scheduled\<close> and \<open>bp_delivered\<close> record the batches the channel took
  and those the callback has been handed.
\<close>

record 'b bp =
  bp_inflight :: int
  bp_channel :: "'b list"
  bp_wake :: bool
  bp_driver :: "'b driver_pc"
  bp_js :: "'b js_pc"
  bp_withheld :: bool
  bp_scheduled :: "'b list"
  bp_delivered :: "'b list"

definition bp_start :: "'b bp" where
  "bp_start = \<lparr>bp_inflight = 0, bp_channel = [], bp_wake = False, bp_driver = DRun, bp_js = JIdle,
     bp_withheld = False, bp_scheduled = [], bp_delivered = []\<rparr>"

section \<open>The atomic operations\<close>

text \<open>\<^verbatim>\<open>fetch_add(1)\<close>, and the two halves of \<^verbatim>\<open>release_inflight_batch\<close>: \<^verbatim>\<open>fetch_sub(1)\<close>, then the wake.\<close>

definition count_batch :: "'b bp \<Rightarrow> 'b bp" where
  "count_batch s = s\<lparr>bp_inflight := bp_inflight s + 1\<rparr>"

definition release_count :: "'b bp \<Rightarrow> int \<times> 'b bp" where
  "release_count s = (bp_inflight s, s\<lparr>bp_inflight := bp_inflight s - 1\<rparr>)"

definition release_wake :: "int \<Rightarrow> 'b bp \<Rightarrow> 'b bp" where
  "release_wake prev s = (if prev = MAX_INFLIGHT_BATCHES then s\<lparr>bp_wake := True\<rparr> else s)"

definition load_pressure :: "'b bp \<Rightarrow> 'b bp" where
  "load_pressure s = s\<lparr>bp_withheld := (bp_withheld s \<or> bp_inflight s \<ge> MAX_INFLIGHT_BATCHES)\<rparr>"

text \<open>
  An iteration starts with a wake or with an event of the network or a timer, which may or may not pick
  up a pending wake as well. The callback of the channel runs batches in the order they were scheduled.
\<close>

inductive bp_step :: "'b bp \<Rightarrow> 'b bp \<Rightarrow> bool" where
  poll_returns: "bp_driver s = DPoll \<Longrightarrow> w \<longrightarrow> bp_wake s \<Longrightarrow>
    bp_step s (s\<lparr>bp_driver := DRun, bp_wake := w, bp_withheld := False\<rparr>)"
| load: "bp_driver s = DRun \<Longrightarrow> bp_step s (load_pressure s)"
| iterate: "bp_driver s = DRun \<Longrightarrow> bp_step s (s\<lparr>bp_driver := DPoll\<rparr>)"
| emit_count: "bp_driver s = DRun \<Longrightarrow> bp_step s ((count_batch s)\<lparr>bp_driver := DCounted b\<rparr>)"
| emit_schedule: "bp_driver s = DCounted b \<Longrightarrow>
    bp_step s (s\<lparr>bp_driver := DRun, bp_channel := bp_channel s @ [b], bp_scheduled := bp_scheduled s @ [b]\<rparr>)"
| emit_refused: "bp_driver s = DCounted b \<Longrightarrow> bp_step s (s\<lparr>bp_driver := DRefused\<rparr>)"
| emit_release: "bp_driver s = DRefused \<Longrightarrow> release_count s = (prev, s') \<Longrightarrow>
    bp_step s (s'\<lparr>bp_driver := DReleased prev\<rparr>)"
| emit_wake: "bp_driver s = DReleased prev \<Longrightarrow> bp_step s ((release_wake prev s)\<lparr>bp_driver := DRun\<rparr>)"
| js_dequeue: "bp_js s = JIdle \<Longrightarrow> bp_channel s = b # rest \<Longrightarrow>
    bp_step s (s\<lparr>bp_js := JDequeued b, bp_channel := rest\<rparr>)"
| js_release: "bp_js s = JDequeued b \<Longrightarrow> release_count s = (prev, s') \<Longrightarrow>
    bp_step s (s'\<lparr>bp_js := JReleased prev b\<rparr>)"
| js_wake: "bp_js s = JReleased prev b \<Longrightarrow>
    bp_step s ((release_wake prev s)\<lparr>bp_js := JIdle, bp_delivered := bp_delivered s @ [b]\<rparr>)"

inductive bp_reach :: "'b bp \<Rightarrow> bool" where
  start: "bp_reach bp_start"
| step: "bp_reach s \<Longrightarrow> bp_step s s' \<Longrightarrow> bp_reach s'"

inductive_cases bp_stepE: "bp_step s s'"

section \<open>Invariants\<close>

definition driver_holds :: "'b driver_pc \<Rightarrow> int" where
  "driver_holds pc = (case pc of DCounted _ \<Rightarrow> 1 | DRefused \<Rightarrow> 1 | _ \<Rightarrow> 0)"

definition js_holds :: "'b js_pc \<Rightarrow> int" where
  "js_holds pc = (case pc of JDequeued _ \<Rightarrow> 1 | _ \<Rightarrow> 0)"

definition in_callback :: "'b js_pc \<Rightarrow> 'b list" where
  "in_callback pc = (case pc of JIdle \<Rightarrow> [] | JDequeued b \<Rightarrow> [b] | JReleased _ b \<Rightarrow> [b])"

text \<open>The counter is the number of batches that some thread or the channel still holds.\<close>

definition counter_exact :: "'b bp \<Rightarrow> bool" where
  "counter_exact s \<longleftrightarrow>
     bp_inflight s = int (length (bp_channel s)) + driver_holds (bp_driver s) + js_holds (bp_js s)"

definition in_order :: "'b bp \<Rightarrow> bool" where
  "in_order s \<longleftrightarrow> bp_scheduled s = bp_delivered s @ in_callback (bp_js s) @ bp_channel s"

text \<open>A thread that has seen the counter at the cap and is about to use the waker.\<close>

definition about_to_wake :: "'b bp \<Rightarrow> bool" where
  "about_to_wake s \<longleftrightarrow> bp_driver s = DReleased MAX_INFLIGHT_BATCHES \<or> (\<exists>b. bp_js s = JReleased MAX_INFLIGHT_BATCHES b)"

definition no_lost_wake :: "'b bp \<Rightarrow> bool" where
  "no_lost_wake s \<longleftrightarrow>
     (bp_withheld s \<and> bp_inflight s < MAX_INFLIGHT_BATCHES \<longrightarrow> bp_wake s \<or> about_to_wake s)"

lemmas bp_ops = count_batch_def release_count_def release_wake_def load_pressure_def bp_start_def

lemma counter_exact_step: "bp_step s s' \<Longrightarrow> counter_exact s \<Longrightarrow> counter_exact s'"
  by (erule bp_stepE) (auto simp: counter_exact_def driver_holds_def js_holds_def bp_ops)

lemma in_order_step: "bp_step s s' \<Longrightarrow> in_order s \<Longrightarrow> in_order s'"
  by (erule bp_stepE) (auto simp: in_order_def in_callback_def bp_ops)

lemma no_lost_wake_step: "bp_step s s' \<Longrightarrow> no_lost_wake s \<Longrightarrow> no_lost_wake s'"
  by (erule bp_stepE) (auto simp: no_lost_wake_def about_to_wake_def bp_ops split: if_splits)

lemma bp_reach_invariants: "bp_reach s \<Longrightarrow> counter_exact s \<and> in_order s \<and> no_lost_wake s"
proof (induction rule: bp_reach.induct)
  case start
  show ?case
    by (simp add: counter_exact_def in_order_def no_lost_wake_def driver_holds_def js_holds_def in_callback_def bp_start_def)
next
  case (step s s')
  then show ?case by (blast intro: counter_exact_step in_order_step no_lost_wake_step)
qed

text \<open>
  Claim C13. However the two threads interleave, the counter equals the number of batches counted and not
  yet released, so it never goes below zero, and the batches reach the callback in the order they
  were emitted.
\<close>

theorem inflight_counts_batches:
  assumes "bp_reach s"
  shows "bp_inflight s = int (length (bp_channel s)) + driver_holds (bp_driver s) + js_holds (bp_js s)
    \<and> 0 \<le> bp_inflight s \<and> bp_scheduled s = bp_delivered s @ in_callback (bp_js s) @ bp_channel s"
proof -
  from bp_reach_invariants [OF assms] have "counter_exact s" "in_order s" by blast+
  moreover have "0 \<le> driver_holds (bp_driver s)" "0 \<le> js_holds (bp_js s)"
    by (simp_all add: driver_holds_def js_holds_def split: driver_pc.split js_pc.split)
  ultimately show ?thesis by (simp add: counter_exact_def in_order_def)
qed

text \<open>
  Claim C12. No wake-up is lost: whenever data was withheld and the counter is below the cap again, the
  waker has been used or a thread is just about to use it. In particular, when JavaScript has run
  every batch, the driver waits in its poll and no wake is pending, nothing is withheld.
\<close>

theorem withheld_data_is_woken:
  assumes "bp_reach s" and "bp_withheld s"
  shows "(bp_inflight s < MAX_INFLIGHT_BATCHES \<longrightarrow> bp_wake s \<or> about_to_wake s)
    \<and> \<not> (bp_driver s = DPoll \<and> \<not> bp_wake s \<and> bp_js s = JIdle \<and> bp_channel s = [])"
proof -
  from bp_reach_invariants [OF assms(1)] have inv: "counter_exact s" "no_lost_wake s" by blast+
  then have "\<not> (bp_driver s = DPoll \<and> \<not> bp_wake s \<and> bp_js s = JIdle \<and> bp_channel s = [])"
    using assms(2)
    by (auto simp: no_lost_wake_def counter_exact_def about_to_wake_def driver_holds_def js_holds_def MAX_INFLIGHT_BATCHES_def)
  with inv(2) assms(2) show ?thesis by (auto simp: no_lost_wake_def)
qed

text \<open>A run that fills the channel up to the cap, withholds data, and lets JavaScript take one batch.\<close>

definition filled :: "nat \<Rightarrow> unit bp" where
  "filled n = bp_start\<lparr>bp_inflight := int n, bp_channel := replicate n (), bp_scheduled := replicate n ()\<rparr>"

lemma reach_filled: "bp_reach (filled n)"
proof (induction n)
  case 0
  have "filled 0 = bp_start" by (simp add: filled_def bp_start_def)
  then show ?case using bp_reach.start by simp
next
  case (Suc n)
  let ?c = "(count_batch (filled n))\<lparr>bp_driver := DCounted ()\<rparr>"
  have "bp_step (filled n) ?c" by (rule emit_count) (simp add: filled_def bp_start_def)
  moreover have "bp_step ?c
      (?c\<lparr>bp_driver := DRun, bp_channel := bp_channel ?c @ [()], bp_scheduled := bp_scheduled ?c @ [()]\<rparr>)"
    by (rule emit_schedule) simp
  moreover have "?c\<lparr>bp_driver := DRun, bp_channel := bp_channel ?c @ [()], bp_scheduled := bp_scheduled ?c @ [()]\<rparr>
      = filled (Suc n)"
    by (simp add: filled_def bp_ops flip: replicate_append_same)
  ultimately show ?case using Suc bp_reach.step by metis
qed

lemma reach_crossing:
  "\<exists>s :: unit bp. bp_reach s \<and> bp_withheld s \<and> bp_inflight s = 127 \<and> bp_driver s = DPoll \<and> bp_js s = JReleased 128 ()"
proof -
  let ?s1 = "load_pressure (filled 128)"
  let ?s2 = "?s1\<lparr>bp_driver := DPoll\<rparr>"
  let ?s3 = "?s2\<lparr>bp_js := JDequeued (), bp_channel := replicate 127 ()\<rparr>"
  let ?s4 = "(snd (release_count ?s3))\<lparr>bp_js := JReleased 128 ()\<rparr>"
  have "bp_step (filled 128) ?s1" by (rule load) (simp add: filled_def bp_start_def)
  moreover have "bp_step ?s1 ?s2" by (rule iterate) (simp add: filled_def bp_ops)
  moreover have "bp_step ?s2 ?s3" by (rule js_dequeue) (simp_all add: filled_def bp_ops flip: replicate_Suc)
  moreover have "bp_step ?s3 ?s4" by (rule js_release) (simp_all add: filled_def bp_ops)
  ultimately have "bp_reach ?s4" using reach_filled [of 128] bp_reach.step by blast
  moreover have "bp_withheld ?s4 \<and> bp_inflight ?s4 = 127 \<and> bp_driver ?s4 = DPoll \<and> bp_js ?s4 = JReleased 128 ()"
    by (simp add: filled_def bp_ops MAX_INFLIGHT_BATCHES_def)
  ultimately show ?thesis by blast
qed

theorem inflight_counts_batches_witness:
  "\<exists>s :: unit bp. bp_reach s \<and> bp_inflight s = int (length (bp_channel s)) \<and> length (bp_channel s) = 127"
proof -
  from reach_crossing obtain s :: "unit bp" where s: "bp_reach s" "bp_inflight s = 127" "bp_driver s = DPoll"
    "bp_js s = JReleased 128 ()" by blast
  from inflight_counts_batches [OF s(1)] s show ?thesis
    by (intro exI [of _ s]) (simp add: driver_holds_def js_holds_def)
qed

theorem withheld_data_is_woken_witness:
  "\<exists>s :: unit bp. bp_reach s \<and> bp_withheld s \<and> bp_inflight s = 127 \<and> (bp_wake s \<or> about_to_wake s)"
proof -
  from reach_crossing obtain s :: "unit bp" where s: "bp_reach s" "bp_withheld s" "bp_inflight s = 127" by blast
  from withheld_data_is_woken [OF s(1,2)] s show ?thesis by (auto simp: MAX_INFLIGHT_BATCHES_def)
qed

end
