(* ===== verification/Echo.thy ===== *)
theory Echo
  imports Server
begin

text \<open>
  \<^verbatim>\<open>crates/echo-server/src/main.rs\<close>: the echo server that the client is tested against. One
  \<open>echo\<close> is the state of one connection, one \<open>echo_server\<close> that of the event loop. Debug output is left out;
  the loops that run until \<^verbatim>\<open>quiche\<close> has nothing left take a number of rounds, as in the driver.
\<close>

section \<open>Data\<close>

datatype mode = EchoMode | Reject | MalformedHeaders | Garbage | ResetStreams | CloseSession

definition mode_parse :: "string \<Rightarrow> mode" where
  "mode_parse s =
     (if s = ''reject'' then Reject
      else if s = ''malformed-headers'' then MalformedHeaders
      else if s = ''garbage'' then Garbage
      else if s = ''reset'' then ResetStreams
      else if s = ''close'' then CloseSession
      else EchoMode)"

datatype echo_role =
  LocalControlPlane | PeerControlPlane | EchoConnect | WtBidi | WtUniIn | EchoPendingUni | Ignored

record echo_stream =
  es_role :: echo_role
  es_class_buf :: bytes
  es_frames :: bytes
  es_out :: bytes
  es_out_off :: nat
  es_fin_queued :: bool
  es_fin_sent :: bool
  es_prefix_done :: bool
  es_reset_queued :: bool

definition echo_stream_new :: "echo_role \<Rightarrow> echo_stream" where
  "echo_stream_new role =
     \<lparr>es_role = role, es_class_buf = [], es_frames = [], es_out = [], es_out_off = 0, es_fin_queued = False,
      es_fin_sent = False, es_prefix_done = False, es_reset_queued = False\<rparr>"

definition echo_with_prefix :: "echo_role \<Rightarrow> bytes \<Rightarrow> echo_stream" where
  "echo_with_prefix role prefix = (echo_stream_new role)\<lparr>es_out := prefix\<rparr>"

definition echo_queue :: "bytes \<Rightarrow> echo_stream \<Rightarrow> echo_stream" where
  "echo_queue data st = st\<lparr>es_out := es_out st @ data\<rparr>"

text \<open>The next frame of a receive buffer, and the buffer after it.\<close>

definition framebuf_next :: "bytes \<Rightarrow> (u64 \<times> bytes) option \<times> bytes" where
  "framebuf_next buf =
     (case read_varint buf of
        None \<Rightarrow> (None, buf)
      | Some (ty, n1) \<Rightarrow>
         (case read_varint (drop n1 buf) of
            None \<Rightarrow> (None, buf)
          | Some (len, n2) \<Rightarrow>
              if unat len > 2 ^ 20 then (None, buf)
              else
                (let total = n1 + n2 + unat len in
                 if length buf < total then (None, buf)
                 else (Some (ty, drop (n1 + n2) (take total buf)), drop total buf))))"

record 'c echo =
  ec_conn :: 'c
  ec_streams :: "(u64 \<times> echo_stream) list"
  ec_setup_done :: bool
  ec_connected :: bool
  ec_next_server_uni :: u64
  ec_mode :: mode
  ec_adversary_done :: bool

definition echo_new :: "'c \<Rightarrow> mode \<Rightarrow> 'c echo" where
  "echo_new c m =
     \<lparr>ec_conn = c, ec_streams = [], ec_setup_done = False, ec_connected = False, ec_next_server_uni = 15,
      ec_mode = m, ec_adversary_done = False\<rparr>"

definition echo_put :: "u64 \<Rightarrow> echo_stream \<Rightarrow> 'c echo \<Rightarrow> 'c echo" where
  "echo_put i st s = s\<lparr>ec_streams := AList.update i st (ec_streams s)\<rparr>"

definition echo_modify :: "u64 \<Rightarrow> (echo_stream \<Rightarrow> echo_stream) \<Rightarrow> 'c echo \<Rightarrow> 'c echo" where
  "echo_modify i f s = s\<lparr>ec_streams := hm_modify i f (ec_streams s)\<rparr>"

definition echo_classify :: "u64 \<Rightarrow> echo_role" where
  "echo_classify i =
     (if i AND 3 = 0 then (if i = CONNECT_ID then EchoConnect else WtBidi)
      else if i AND 3 = 2 then EchoPendingUni
      else Ignored)"

section \<open>One connection\<close>

definition echo_on_established :: "'c echo \<Rightarrow> 'c echo" where
  "echo_on_established s =
     (if ec_setup_done s then s
      else
        (let s = s\<lparr>ec_setup_done := True\<rparr>;
             s = echo_put 3 (echo_with_prefix LocalControlPlane control_stream_prefix) s;
             s = echo_put 7 (echo_with_prefix LocalControlPlane (put_varint QPACK_ENCODER_STREAM_TYPE [])) s
         in echo_put 11 (echo_with_prefix LocalControlPlane (put_varint QPACK_DECODER_STREAM_TYPE [])) s))"

definition strip_prefix_once :: "u64 \<Rightarrow> bytes \<Rightarrow> 'c echo \<Rightarrow> (bytes \<times> 'c echo) outcome" where
  "strip_prefix_once i chunk s =
     (case map_of (ec_streams s) i of
        None \<Rightarrow> Panicked
      | Some st \<Rightarrow>
          if es_prefix_done st then Done (chunk, s)
          else
            (let buf = es_class_buf st @ chunk;
                 s = echo_modify i (\<lambda>st. st\<lparr>es_class_buf := buf\<rparr>) s
             in case read_varint buf of
                  None \<Rightarrow> Done ([], s)
                | Some (_, n1) \<Rightarrow>
                   (case read_varint (drop n1 buf) of
                      None \<Rightarrow> Done ([], s)
                    | Some (_, n2) \<Rightarrow>
                        Done (drop (n1 + n2) buf,
                              echo_modify i (\<lambda>st. st\<lparr>es_prefix_done := True, es_class_buf := []\<rparr>) s))))"

definition echo_uni :: "bytes \<Rightarrow> bool \<Rightarrow> 'c echo \<Rightarrow> 'c echo" where
  "echo_uni data fin s =
     (let i = ec_next_server_uni s;
          prefix = put_varint CONNECT_ID (put_varint WT_UNI_STREAM_TYPE []);
          s = (case map_of (ec_streams s) i of
                 Some _ \<Rightarrow> s
               | None \<Rightarrow> echo_put i (echo_with_prefix LocalControlPlane prefix) s);
          s = echo_modify i (echo_queue data) s
      in if fin then (echo_modify i (\<lambda>st. st\<lparr>es_fin_queued := True\<rparr>) s)\<lparr>ec_next_server_uni := i + 4\<rparr> else s)"

definition echo_resolve_uni :: "u64 \<Rightarrow> bytes \<Rightarrow> bool \<Rightarrow> 'c echo \<Rightarrow> 'c echo outcome" where
  "echo_resolve_uni i chunk fin s =
     (case map_of (ec_streams s) i of
        None \<Rightarrow> Panicked
      | Some st \<Rightarrow>
          (let buf = es_class_buf st @ chunk;
               s = echo_modify i (\<lambda>st. st\<lparr>es_class_buf := buf\<rparr>) s
           in case read_varint buf of
                None \<Rightarrow> Done s
              | Some (ty, n) \<Rightarrow>
                 (if ty = H3_CONTROL_STREAM_TYPE \<or> ty = QPACK_ENCODER_STREAM_TYPE \<or> ty = QPACK_DECODER_STREAM_TYPE then
                    Done (echo_modify i (\<lambda>st. st\<lparr>es_role := PeerControlPlane, es_class_buf := []\<rparr>) s)
                  else if ty = WT_UNI_STREAM_TYPE then
                    (case read_varint (drop n buf) of
                       None \<Rightarrow> Done s
                     | Some (_, n2) \<Rightarrow>
                         (let data = drop (n + n2) buf;
                              s = echo_modify i (\<lambda>st. st\<lparr>es_role := WtUniIn, es_prefix_done := True, es_class_buf := []\<rparr>) s
                          in Done (if data \<noteq> [] \<or> fin then echo_uni data fin s else s)))
                  else Done (echo_modify i (\<lambda>st. st\<lparr>es_role := Ignored, es_class_buf := []\<rparr>) s))))"

definition echo_connect_frame :: "env \<Rightarrow> u64 \<Rightarrow> u64 \<Rightarrow> bytes \<Rightarrow> 'c echo \<Rightarrow> 'c echo" where
  "echo_connect_frame E i ty payload s =
     (if ty = FRAME_HEADERS then
        (let valid = (case decode_header_block E payload of
                        Inr headers \<Rightarrow> list_ex (\<lambda>h. hname h = as_bytes '':protocol'' \<and> hvalue h = as_bytes ''webtransport'') headers
                      | Inl _ \<Rightarrow> False)
         in if ec_mode s = MalformedHeaders then
              (let framed = frame FRAME_HEADERS [0xff, 0xff, 0xff, 0xff, 0xff, 0xff];
                   s = echo_modify i (\<lambda>st. (echo_queue framed st)\<lparr>es_fin_queued := True\<rparr>) s
               in s\<lparr>ec_connected := False\<rparr>)
            else
              (let ok = (valid \<and> ec_mode s \<noteq> Reject);
                   status = (if ok then as_bytes ''200'' else as_bytes ''404'');
                   s = (case encode_headers_frame E [Header_new (as_bytes '':status'') status] of
                          Inl _ \<Rightarrow> s
                        | Inr fr \<Rightarrow>
                            echo_modify i (\<lambda>st. let st = echo_queue fr st in if \<not> ok then st\<lparr>es_fin_queued := True\<rparr> else st) s)
               in s\<lparr>ec_connected := ok\<rparr>))
      else s)"

definition echo_connect_step :: "env \<Rightarrow> u64 \<Rightarrow> 'c echo \<Rightarrow> bool \<times> 'c echo" where
  "echo_connect_step E i s =
     (case map_of (ec_streams s) i of
        None \<Rightarrow> (False, s)
      | Some st \<Rightarrow>
         (case framebuf_next (es_frames st) of
            (None, _) \<Rightarrow> (False, s)
          | (Some (ty, payload), rest) \<Rightarrow>
              (True, echo_connect_frame E i ty payload (echo_modify i (\<lambda>st. st\<lparr>es_frames := rest\<rparr>) s))))"

definition echo_frames_len :: "u64 \<Rightarrow> 'c echo \<Rightarrow> nat" where
  "echo_frames_len i s = (case map_of (ec_streams s) i of None \<Rightarrow> 0 | Some st \<Rightarrow> length (es_frames st))"

lemma echo_frames_len_modify:
  "(\<And>st. es_frames (f st) = es_frames st) \<Longrightarrow> echo_frames_len i (echo_modify j f s) = echo_frames_len i s"
  by (auto simp: echo_frames_len_def echo_modify_def split: option.split)

lemma echo_connect_frame_frames: "echo_frames_len i (echo_connect_frame E j ty payload s) = echo_frames_len i s"
  unfolding echo_connect_frame_def Let_def
  by (simp add: echo_frames_len_modify echo_queue_def echo_frames_len_def [where s = "s\<lparr>ec_connected := b\<rparr>" for s b]
      echo_frames_len_def [symmetric] split: sum.split)

lemma framebuf_next_shrinks: "framebuf_next buf = (Some tp, rest) \<Longrightarrow> length rest < length buf"
  by (auto simp: framebuf_next_def Let_def split: option.splits if_splits dest!: read_varint_len(1)) linarith

lemma echo_connect_step_shrinks:
  "echo_connect_step E i s = (True, s') \<Longrightarrow> echo_frames_len i s' < echo_frames_len i s"
  by (auto simp: echo_connect_step_def echo_connect_frame_frames split: option.splits prod.splits
      dest!: framebuf_next_shrinks) (simp add: echo_frames_len_def echo_modify_def)

function echo_handle_connect :: "env \<Rightarrow> u64 \<Rightarrow> 'c echo \<Rightarrow> 'c echo" where
  "echo_handle_connect E i s =
     (case echo_connect_step E i s of (go, s') \<Rightarrow> if go then echo_handle_connect E i s' else s')"
  by pat_completeness auto
termination
  by (relation "measure (\<lambda>(E, i, s). echo_frames_len i s)") (auto dest: echo_connect_step_shrinks [OF sym])

declare echo_handle_connect.simps [simp del]

interpretation ech: frame_loop "echo_handle_connect E i" "echo_connect_step E i" "\<lambda>_. False" "echo_frames_len i" for E i
  by unfold_locales (simp_all add: echo_handle_connect.simps [of E i] echo_connect_step_shrinks)

definition echo_process :: "env \<Rightarrow> u64 \<Rightarrow> bytes \<Rightarrow> bool \<Rightarrow> 'c echo \<Rightarrow> 'c echo outcome" where
  "echo_process E i chunk fin s =
     (case map_option es_role (map_of (ec_streams s) i) of
        Some EchoConnect \<Rightarrow>
          Done (echo_handle_connect E i (echo_modify i (\<lambda>st. st\<lparr>es_frames := es_frames st @ chunk\<rparr>) s))
      | Some WtBidi \<Rightarrow>
          (case strip_prefix_once i chunk s of
             Done (data, s) \<Rightarrow>
               (let reset = (ec_mode s = ResetStreams)
                in Done (echo_modify i (\<lambda>st.
                     let st = (if data \<noteq> [] then echo_queue data st else st)
                     in if fin then (if reset then st\<lparr>es_reset_queued := True\<rparr> else st\<lparr>es_fin_queued := True\<rparr>) else st) s))
           | Panicked \<Rightarrow> Panicked
           | OutOfFuel \<Rightarrow> OutOfFuel)
      | Some WtUniIn \<Rightarrow>
          (case strip_prefix_once i chunk s of
             Done (data, s) \<Rightarrow> Done (if data \<noteq> [] \<or> fin then echo_uni data fin s else s)
           | Panicked \<Rightarrow> Panicked
           | OutOfFuel \<Rightarrow> OutOfFuel)
      | Some EchoPendingUni \<Rightarrow> echo_resolve_uni i chunk fin s
      | _ \<Rightarrow> Done s)"

text \<open>Reading a stream until it is finished or has nothing left.\<close>

fun echo_read :: "nat \<Rightarrow> 'c quic \<Rightarrow> u64 \<Rightarrow> bytes \<Rightarrow> 'c \<Rightarrow> (bytes \<times> bool \<times> 'c) option" where
  "echo_read 0 Q i chunk c = None"
| "echo_read (Suc n) Q i chunk c =
     (case q_stream_recv Q c i (16 * 1024) of
        (Inr (bs, f), c) \<Rightarrow>
          (if f then Some (chunk @ bs, True, c)
           else if bs = [] then Some (chunk, False, c)
           else echo_read n Q i (chunk @ bs) c)
      | (Inl _, c) \<Rightarrow> Some (chunk, False, c))"

definition echo_on_readable :: "nat \<Rightarrow> env \<Rightarrow> 'c quic \<Rightarrow> u64 \<Rightarrow> 'c echo \<Rightarrow> 'c echo outcome" where
  "echo_on_readable fuel E Q i s =
     (let s = (case map_of (ec_streams s) i of Some _ \<Rightarrow> s | None \<Rightarrow> echo_put i (echo_stream_new (echo_classify i)) s)
      in case echo_read fuel Q i [] (ec_conn s) of
           None \<Rightarrow> OutOfFuel
         | Some (chunk, fin, c) \<Rightarrow> echo_process E i chunk fin (s\<lparr>ec_conn := c\<rparr>))"

fun echo_on_readables :: "('c \<Rightarrow> nat) \<Rightarrow> env \<Rightarrow> 'c quic \<Rightarrow> u64 list \<Rightarrow> 'c echo \<Rightarrow> 'c echo outcome" where
  "echo_on_readables rounds E Q [] s = Done s"
| "echo_on_readables rounds E Q (i # ids) s =
     (case echo_on_readable (rounds (ec_conn s)) E Q i s of
        Done s \<Rightarrow> echo_on_readables rounds E Q ids s
      | Panicked \<Rightarrow> Panicked
      | OutOfFuel \<Rightarrow> OutOfFuel)"

fun echo_datagrams :: "nat \<Rightarrow> 'c quic \<Rightarrow> 'c \<Rightarrow> 'c option" where
  "echo_datagrams 0 Q c = None"
| "echo_datagrams (Suc n) Q c =
     (case q_dgram_recv Q c 65536 of
        (Inr data, c) \<Rightarrow> echo_datagrams n Q (snd (q_dgram_send Q c data))
      | (Inl _, c) \<Rightarrow> Some c)"

text \<open>
  Flushing one stream. The Rust loop sends the rest of the output and goes on only if all of it was
  taken, so its body runs at most once.
\<close>

definition echo_flush_stream :: "'c quic \<Rightarrow> u64 \<Rightarrow> 'c echo \<Rightarrow> 'c echo outcome" where
  "echo_flush_stream Q i s =
     (case map_of (ec_streams s) i of
        None \<Rightarrow> Panicked
      | Some st \<Rightarrow>
          (let (st, c) =
             (if es_out_off st < length (es_out st) then
                (case q_stream_send Q (ec_conn s) i (drop (es_out_off st) (es_out st)) False of
                   (Inr sent, c) \<Rightarrow> (st\<lparr>es_out_off := es_out_off st + sent\<rparr>, c)
                 | (Inl _, c) \<Rightarrow> (st, c))
              else (st, ec_conn s));
             (st, c) =
             (if es_reset_queued st \<and> \<not> es_fin_sent st then
                (st\<lparr>es_fin_sent := True\<rparr>, q_stream_shutdown Q c i ShutWrite 7)
              else if es_out_off st \<ge> length (es_out st) \<and> es_fin_queued st \<and> \<not> es_fin_sent st then
                (case q_stream_send Q c i [] True of
                   (Inr _, c) \<Rightarrow> (st\<lparr>es_fin_sent := True\<rparr>, c)
                 | (Inl _, c) \<Rightarrow> (st, c))
              else (st, c))
           in Done ((echo_put i st s)\<lparr>ec_conn := c\<rparr>)))"

fun echo_flush_streams :: "'c quic \<Rightarrow> u64 list \<Rightarrow> 'c echo \<Rightarrow> 'c echo outcome" where
  "echo_flush_streams Q [] s = Done s"
| "echo_flush_streams Q (i # ids) s =
     (case echo_flush_stream Q i s of
        Done s \<Rightarrow> echo_flush_streams Q ids s
      | Panicked \<Rightarrow> Panicked
      | OutOfFuel \<Rightarrow> OutOfFuel)"

definition echo_flush :: "env \<Rightarrow> 'c quic \<Rightarrow> 'c echo \<Rightarrow> 'c echo outcome" where
  "echo_flush E Q s = echo_flush_streams Q (e_order E (hm_keys (ec_streams s))) s"

definition adversary :: "'c echo \<Rightarrow> 'c echo" where
  "adversary s =
     (if ec_adversary_done s \<or> \<not> ec_connected s then s
      else
        (case ec_mode s of
           Garbage \<Rightarrow>
             (echo_modify CONNECT_ID
                (echo_queue [0xff, 0xff, 0xff, 0xff, 0xde, 0xad, 0xbe, 0xef, 0x01, 0x02, 0x03]) s)\<lparr>ec_adversary_done := True\<rparr>
         | CloseSession \<Rightarrow>
             (echo_modify CONNECT_ID (\<lambda>st. st\<lparr>es_fin_queued := True\<rparr>) s)\<lparr>ec_adversary_done := True\<rparr>
         | _ \<Rightarrow> s))"

definition echo_drive :: "('c \<Rightarrow> nat) \<Rightarrow> env \<Rightarrow> 'c quic \<Rightarrow> 'c echo \<Rightarrow> 'c echo outcome" where
  "echo_drive rounds E Q s =
     (let s = (if q_is_established Q (ec_conn s) then echo_on_established s else s)
      in case echo_datagrams (rounds (ec_conn s)) Q (ec_conn s) of
           None \<Rightarrow> OutOfFuel
         | Some c \<Rightarrow>
            (case echo_on_readables rounds E Q (q_readable Q c) (s\<lparr>ec_conn := c\<rparr>) of
               Done s \<Rightarrow> echo_flush E Q (adversary s)
             | Panicked \<Rightarrow> Panicked
             | OutOfFuel \<Rightarrow> OutOfFuel))"

section \<open>The event loop\<close>

record echo_cli =
  cli_cert :: string
  cli_key :: string
  cli_host :: string
  cli_port :: u16
  cli_mode :: mode

definition cli_default :: echo_cli where
  "cli_default = \<lparr>cli_cert = [], cli_key = [], cli_host = ''127.0.0.1'', cli_port = 0, cli_mode = EchoMode\<rparr>"

text \<open>The arguments after the program's name; an option at the end has no value.\<close>

fun echo_args :: "string list \<Rightarrow> echo_cli \<Rightarrow> echo_cli" where
  "echo_args [] cli = cli"
| "echo_args [a] cli =
     (if a = ''--cert'' then cli\<lparr>cli_cert := []\<rparr>
      else if a = ''--key'' then cli\<lparr>cli_key := []\<rparr>
      else if a = ''--host'' then cli\<lparr>cli_host := ''127.0.0.1''\<rparr>
      else if a = ''--port'' then cli\<lparr>cli_port := 0\<rparr>
      else if a = ''--mode'' then cli\<lparr>cli_mode := mode_parse []\<rparr>
      else cli)"
| "echo_args (a # v # rest) cli =
     (if a = ''--cert'' then echo_args rest (cli\<lparr>cli_cert := v\<rparr>)
      else if a = ''--key'' then echo_args rest (cli\<lparr>cli_key := v\<rparr>)
      else if a = ''--host'' then echo_args rest (cli\<lparr>cli_host := v\<rparr>)
      else if a = ''--port'' then echo_args rest (cli\<lparr>cli_port := (case parse_u16 v of Some p \<Rightarrow> p | None \<Rightarrow> 0)\<rparr>)
      else if a = ''--mode'' then echo_args rest (cli\<lparr>cli_mode := mode_parse v\<rparr>)
      else echo_args (v # rest) cli)"

text \<open>The connection ids of the test server: a linear congruential generator seeded by the clock.\<close>

fun getrandom_fill :: "nat \<Rightarrow> u64 \<Rightarrow> bytes" where
  "getrandom_fill 0 seed = []"
| "getrandom_fill (Suc n) seed =
     (let seed = seed * 6364136223846793005 + 1442695040888963407
      in ucast (drop_bit 33 seed) # getrandom_fill n seed)"

definition echo_server_config :: "quic_api \<Rightarrow> string \<Rightarrow> string \<Rightarrow> string + quic_config" where
  "echo_server_config A cert key =
     (let B = qa_ssl A in
     try_then (case ssl_new B of Some e \<Rightarrow> Inl e | None \<Rightarrow> Inr ssl_ctx_new) (\<lambda>b.
     try_then (case ssl_set_min B (Some TLS1_3) of Some e \<Rightarrow> Inl e | None \<Rightarrow> Inr (b\<lparr>ctx_min_proto := Some TLS1_3\<rparr>)) (\<lambda>b.
     try_then (case ssl_set_max B (Some TLS1_3) of Some e \<Rightarrow> Inl e | None \<Rightarrow> Inr (b\<lparr>ctx_max_proto := Some TLS1_3\<rparr>)) (\<lambda>b.
     try_then (case qa_with_ctx A b of Some e \<Rightarrow> Inl e | None \<Rightarrow> Inr ((qa_defaults A)\<lparr>qc_ssl := b\<rparr>)) (\<lambda>config.
     try_then (setter ''cert'' (qc_cert_chain_update (\<lambda>_. Some cert)) (qa_load_cert A cert) config) (\<lambda>config.
     try_then (setter ''key'' (qc_priv_key_update (\<lambda>_. Some key)) (qa_load_key A key) config) (\<lambda>config.
     try_then (case qa_set_alpn A [H3_ALPN] of Some e \<Rightarrow> Inl e | None \<Rightarrow> Inr (config\<lparr>qc_alpn := [H3_ALPN]\<rparr>)) (\<lambda>config.
       Inr (config\<lparr>qc_max_idle_timeout := 30000, qc_max_recv_udp_payload_size := 1350,
              qc_max_send_udp_payload_size := 1350, qc_initial_max_data := 10 * 1024 * 1024,
              qc_initial_max_stream_data_bidi_local := 1024 * 1024,
              qc_initial_max_stream_data_bidi_remote := 1024 * 1024, qc_initial_max_stream_data_uni := 1024 * 1024,
              qc_initial_max_streams_bidi := 256, qc_initial_max_streams_uni := 256,
              qc_disable_active_migration := True, qc_dgram := Some (65536, 65536)\<rparr>)))))))))"

record 'c echo_server =
  eo_clients :: "(bytes \<times> 'c echo) list"
  eo_routing :: "(bytes \<times> bytes) list"
  eo_sent :: "(bytes \<times> sock_addr) list"

text \<open>
  What the loop calls of \<^verbatim>\<open>quiche\<close> beside the connection; \<open>eh_accept\<close> takes the new id and the two
  addresses, \<open>eh_due\<close> says whether the timer of a connection has run out.
\<close>

record 'c echo_host =
  eh_header :: "bytes \<Rightarrow> nat \<Rightarrow> packet_header option"
  eh_accept :: "bytes \<Rightarrow> sock_addr \<Rightarrow> sock_addr \<Rightarrow> 'c option"
  eh_due :: "'c \<Rightarrow> bool"
  eh_order :: "bytes list \<Rightarrow> bytes list"

text \<open>The clock, in nanoseconds, seeds the id of a new connection.\<close>

definition echo_route ::
  "'c echo_host \<Rightarrow> mode \<Rightarrow> sock_addr \<Rightarrow> nat \<Rightarrow> packet_header \<Rightarrow> sock_addr \<Rightarrow> 'c echo_server
    \<Rightarrow> bytes option \<times> 'c echo_server" where
  "echo_route H m local_addr clock hdr src sv =
     (case map_of (eo_routing sv) (ph_dcid hdr) of
        Some scid \<Rightarrow> (Some scid, sv)
      | None \<Rightarrow>
          if \<not> ph_initial hdr then (None, sv)
          else
            (let key = getrandom_fill 16 (of_nat clock)
             in case eh_accept H key local_addr src of
                  None \<Rightarrow> (None, sv)
                | Some c \<Rightarrow>
                    (Some key,
                     sv\<lparr>eo_routing := AList.update key key (AList.update (ph_dcid hdr) key (eo_routing sv)),
                        eo_clients := AList.update key (echo_new c m) (eo_clients sv)\<rparr>)))"

fun echo_recv ::
  "'c net \<Rightarrow> 'c echo_host \<Rightarrow> mode \<Rightarrow> sock_addr \<Rightarrow> (io_err + bytes \<times> sock_addr \<times> nat) list \<Rightarrow> 'c echo_server
    \<Rightarrow> 'c echo_server" where
  "echo_recv N H m local_addr [] sv = sv"
| "echo_recv N H m local_addr (Inl e # rest) sv = sv"
| "echo_recv N H m local_addr (Inr (pkt, src, clock) # rest) sv =
     (case eh_header H pkt 16 of
        None \<Rightarrow> echo_recv N H m local_addr rest sv
      | Some hdr \<Rightarrow>
         (case echo_route H m local_addr clock hdr src sv of
            (None, sv) \<Rightarrow> echo_recv N H m local_addr rest sv
          | (Some scid, sv) \<Rightarrow>
              echo_recv N H m local_addr rest
                (sv\<lparr>eo_clients := hm_modify scid
                      (\<lambda>ec. ec\<lparr>ec_conn := snd (n_recv N (ec_conn ec) pkt src local_addr)\<rparr>) (eo_clients sv)\<rparr>)))"

definition echo_timeouts :: "'c quic \<Rightarrow> 'c echo_host \<Rightarrow> 'c echo_server \<Rightarrow> 'c echo_server" where
  "echo_timeouts Q H sv =
     sv\<lparr>eo_clients := hm_map (\<lambda>ec. if eh_due H (ec_conn ec) then ec\<lparr>ec_conn := q_on_timeout Q (ec_conn ec)\<rparr> else ec)
          (eo_clients sv)\<rparr>"

text \<open>Unlike the driver, the test server ignores every error of the socket and goes on.\<close>

fun echo_send :: "nat \<Rightarrow> 'c net \<Rightarrow> 'c \<Rightarrow> (bytes \<times> sock_addr) list \<Rightarrow> ('c \<times> (bytes \<times> sock_addr) list) option" where
  "echo_send 0 N c sent = None"
| "echo_send (Suc n) N c sent =
     (case n_send N c of
        (Inl _, c) \<Rightarrow> Some (c, sent)
      | (Inr p, c) \<Rightarrow> echo_send n N c (case n_send_to N sent p of None \<Rightarrow> sent @ [p] | Some _ \<Rightarrow> sent))"

fun echo_drive_all ::
  "('c \<Rightarrow> nat) \<Rightarrow> env \<Rightarrow> 'c quic \<Rightarrow> 'c net \<Rightarrow> bytes list \<Rightarrow> 'c echo_server \<Rightarrow> 'c echo_server outcome" where
  "echo_drive_all rounds E Q N [] sv = Done sv"
| "echo_drive_all rounds E Q N (key # keys) sv =
     (case map_of (eo_clients sv) key of
        None \<Rightarrow> echo_drive_all rounds E Q N keys sv
      | Some ec \<Rightarrow>
         (case echo_drive rounds E Q ec of
            Panicked \<Rightarrow> Panicked
          | OutOfFuel \<Rightarrow> OutOfFuel
          | Done ec \<Rightarrow>
             (case echo_send (rounds (ec_conn ec)) N (ec_conn ec) (eo_sent sv) of
                None \<Rightarrow> OutOfFuel
              | Some (c, sent) \<Rightarrow>
                  echo_drive_all rounds E Q N keys
                    (sv\<lparr>eo_clients := AList.update key (ec\<lparr>ec_conn := c\<rparr>) (eo_clients sv), eo_sent := sent\<rparr>))))"

definition echo_reap :: "'c quic \<Rightarrow> 'c echo_server \<Rightarrow> 'c echo_server" where
  "echo_reap Q sv =
     (let clients = filter (\<lambda>(_, ec). \<not> q_is_closed Q (ec_conn ec)) (eo_clients sv)
      in sv\<lparr>eo_clients := clients,
            eo_routing := filter (\<lambda>(_, scid). map_of clients scid \<noteq> None) (eo_routing sv)\<rparr>)"

definition echo_wake ::
  "('c \<Rightarrow> nat) \<Rightarrow> env \<Rightarrow> 'c quic \<Rightarrow> 'c net \<Rightarrow> 'c echo_host \<Rightarrow> mode \<Rightarrow> sock_addr
    \<Rightarrow> (io_err + bytes \<times> sock_addr \<times> nat) list \<Rightarrow> 'c echo_server \<Rightarrow> 'c echo_server outcome" where
  "echo_wake rounds E Q N H m local_addr items sv =
     (let sv = echo_timeouts Q H (echo_recv N H m local_addr items sv)
      in case echo_drive_all rounds E Q N (eh_order H (hm_keys (eo_clients sv))) sv of
           Done sv \<Rightarrow> Done (echo_reap Q sv)
         | Panicked \<Rightarrow> Panicked
         | OutOfFuel \<Rightarrow> OutOfFuel)"

section \<open>The program\<close>

text \<open>
  \<^verbatim>\<open>str::parse::<SocketAddr>\<close>: an IPv4 address, or an IPv6 address in brackets with an optional
  scope, then a port; any number of digits whose value fits is a port.
\<close>

definition read_port :: "nat reader" where
  "read_port s = (case s of c # cs \<Rightarrow> if c = CHR '':'' then read_number 10 (length cs + 5) True 65536 cs else None | [] \<Rightarrow> None)"

definition read_scope :: "string \<Rightarrow> string" where
  "read_scope s =
     (case s of
        c # cs \<Rightarrow>
          if c = CHR ''%'' then (case read_number 10 (length cs + 10) True (2 ^ 32) cs of Some (_, r) \<Rightarrow> r | None \<Rightarrow> s)
          else s
      | [] \<Rightarrow> s)"

definition read_socket_v4 :: "sock_addr reader" where
  "read_socket_v4 s =
     (case read_ipv4_addr s of
        None \<Rightarrow> None
      | Some (bs, r) \<Rightarrow>
         (case read_port r of
            None \<Rightarrow> None
          | Some (p, r) \<Rightarrow> Some (\<lparr>sa_ip = IpV4 (map of_nat bs), sa_port = of_nat p\<rparr>, r)))"

definition read_socket_v6 :: "sock_addr reader" where
  "read_socket_v6 s =
     (case s of
        [] \<Rightarrow> None
      | c # cs \<Rightarrow>
          if c \<noteq> CHR ''['' then None
          else
            (case read_ipv6_addr cs of
               None \<Rightarrow> None
             | Some (gs, r) \<Rightarrow>
                (case read_scope r of
                   [] \<Rightarrow> None
                 | d # ds \<Rightarrow>
                     if d \<noteq> CHR '']'' then None
                     else
                       (case read_port ds of
                          None \<Rightarrow> None
                        | Some (p, r) \<Rightarrow> Some (\<lparr>sa_ip = IpV6 (octets_of_groups gs), sa_port = of_nat p\<rparr>, r)))))"

definition parse_sock_addr :: "string \<Rightarrow> sock_addr option" where
  "parse_sock_addr s =
     (case (case read_socket_v4 s of Some x \<Rightarrow> Some x | None \<Rightarrow> read_socket_v6 s) of
        Some (a, r) \<Rightarrow> if r = [] then Some a else None
      | None \<Rightarrow> None)"

text \<open>What the operating system answers: the bound socket's own address, and the poll.\<close>

record echo_os =
  oo_bind :: "sock_addr \<Rightarrow> bool"
  oo_local_addr :: "sock_addr \<Rightarrow> sock_addr option"
  oo_poll :: bool
  oo_register :: bool

record echo_up =
  eu_mode :: mode
  eu_local_addr :: sock_addr
  eu_config :: quic_config

datatype echo_start = UsageExit | SetupPanicked | Up echo_up

definition echo_setup :: "quic_api \<Rightarrow> echo_os \<Rightarrow> string list \<Rightarrow> echo_start" where
  "echo_setup A W args =
     (let cli = echo_args args cli_default in
      if cli_cert cli = [] \<or> cli_key cli = [] then UsageExit
      else
        (case parse_sock_addr (cli_host cli @ '':'' @ show_dec (unat (cli_port cli))) of
           None \<Rightarrow> SetupPanicked
         | Some bind \<Rightarrow>
             if \<not> oo_bind W bind then SetupPanicked
             else
               (case oo_local_addr W bind of
                  None \<Rightarrow> SetupPanicked
                | Some local_addr \<Rightarrow>
                   (case echo_server_config A (cli_cert cli) (cli_key cli) of
                      Inl _ \<Rightarrow> SetupPanicked
                    | Inr cfg \<Rightarrow>
                        if \<not> oo_poll W \<or> \<not> oo_register W then SetupPanicked
                        else Up \<lparr>eu_mode = cli_mode cli, eu_local_addr = local_addr, eu_config = cfg\<rparr>))))"

text \<open>What the test harness reads on the standard output.\<close>

definition echo_handshake :: "echo_up \<Rightarrow> string list" where
  "echo_handshake u = [''PORT '' @ show_dec (unat (sa_port (eu_local_addr u))), ''READY'']"

definition echo_server_new :: "'c echo_server" where
  "echo_server_new = \<lparr>eo_clients = [], eo_routing = [], eo_sent = []\<rparr>"

text \<open>
  The loop never ends; its first iterations, one for each list of what the socket gives. What \<^verbatim>\<open>quiche\<close>
  accepts depends on the configuration.
\<close>

fun echo_loop ::
  "('c \<Rightarrow> nat) \<Rightarrow> env \<Rightarrow> 'c quic \<Rightarrow> 'c net \<Rightarrow> (quic_config \<Rightarrow> 'c echo_host) \<Rightarrow> echo_up
    \<Rightarrow> (io_err + bytes \<times> sock_addr \<times> nat) list list \<Rightarrow> 'c echo_server \<Rightarrow> 'c echo_server outcome" where
  "echo_loop rounds E Q N H u [] sv = Done sv"
| "echo_loop rounds E Q N H u (items # wakes) sv =
     (case echo_wake rounds E Q N (H (eu_config u)) (eu_mode u) (eu_local_addr u) items sv of
        Done sv \<Rightarrow> echo_loop rounds E Q N H u wakes sv
      | Panicked \<Rightarrow> Panicked
      | OutOfFuel \<Rightarrow> OutOfFuel)"

text \<open>\<open>Inl status\<close> is an exit; otherwise what was printed, and the loop.\<close>

definition echo_main ::
  "('c \<Rightarrow> nat) \<Rightarrow> quic_api \<Rightarrow> echo_os \<Rightarrow> env \<Rightarrow> 'c quic \<Rightarrow> 'c net \<Rightarrow> (quic_config \<Rightarrow> 'c echo_host)
    \<Rightarrow> string list \<Rightarrow> (io_err + bytes \<times> sock_addr \<times> nat) list list \<Rightarrow> nat + string list \<times> 'c echo_server outcome" where
  "echo_main rounds A W E Q N H args wakes =
     (case echo_setup A W args of
        UsageExit \<Rightarrow> Inl 2
      | SetupPanicked \<Rightarrow> Inr ([], Panicked)
      | Up u \<Rightarrow> Inr (echo_handshake u, echo_loop rounds E Q N H u wakes echo_server_new))"

end
