(* ===== verification/Echo_Props.thy ===== *)
theory Echo_Props
  imports Echo
begin

text \<open>
  What the echo server sends back: on a bidirectional stream exactly the application bytes of the
  client, however they were cut; on unidirectional streams the bytes of every client stream, but
  on one server stream for as long as none of them ends.
\<close>

section \<open>The prefix of a stream\<close>

text \<open>The length of the signal and the session id at the start of a stream, once both are there.\<close>

definition wt_prefix :: "bytes \<Rightarrow> nat option" where
  "wt_prefix buf =
     (case read_varint buf of
        None \<Rightarrow> None
      | Some (_, n1) \<Rightarrow> (case read_varint (drop n1 buf) of None \<Rightarrow> None | Some (_, n2) \<Rightarrow> Some (n1 + n2)))"

definition app_bytes :: "bytes \<Rightarrow> bytes" where
  "app_bytes buf = (case wt_prefix buf of None \<Rightarrow> [] | Some k \<Rightarrow> drop k buf)"

lemma wt_prefix_append:
  assumes "wt_prefix buf = Some k"
  shows "wt_prefix (buf @ rest) = Some k \<and> k \<le> length buf"
proof -
  from assms obtain v1 n1 v2 n2 where n1: "read_varint buf = Some (v1, n1)" and
    n2: "read_varint (drop n1 buf) = Some (v2, n2)" and k: "k = n1 + n2"
    by (auto simp: wt_prefix_def split: option.splits)
  note l = read_varint_len(2) [OF n1] read_varint_len(2) [OF n2]
  then have "drop n1 (buf @ rest) = drop n1 buf @ rest" by simp
  with l k show ?thesis
    by (simp add: wt_prefix_def read_varint_append [OF n1] read_varint_append [OF n2])
qed

lemma strip_prefix_once_eq:
  assumes "map_of (ec_streams s) i = Some st"
  shows "strip_prefix_once i chunk s =
    (if es_prefix_done st then Done (chunk, s)
     else
       (let buf = es_class_buf st @ chunk; s' = echo_modify i (\<lambda>st. st\<lparr>es_class_buf := buf\<rparr>) s
        in case wt_prefix buf of
             None \<Rightarrow> Done ([], s')
           | Some k \<Rightarrow> Done (drop k buf, echo_modify i (\<lambda>st. st\<lparr>es_prefix_done := True, es_class_buf := []\<rparr>) s')))"
  using assms by (auto simp: strip_prefix_once_def wt_prefix_def Let_def split: option.split)

section \<open>Bidirectional streams\<close>

text \<open>The chunks of a stream in turn; the last one ends it.\<close>

fun echo_feed :: "env \<Rightarrow> u64 \<Rightarrow> bytes list \<Rightarrow> 'c echo \<Rightarrow> 'c echo outcome" where
  "echo_feed E i [] s = Done s"
| "echo_feed E i [c] s = echo_process E i c True s"
| "echo_feed E i (c # cs) s =
     (case echo_process E i c False s of
        Done s \<Rightarrow> echo_feed E i cs s
      | r \<Rightarrow> r)"

text \<open>A stream that has echoed the application bytes of \<open>got\<close> after the output \<open>out0\<close>.\<close>

definition echoed :: "bytes \<Rightarrow> bytes \<Rightarrow> echo_stream \<Rightarrow> bool" where
  "echoed out0 got st \<longleftrightarrow>
     es_role st = WtBidi \<and> es_out st = out0 @ app_bytes got
     \<and> (if es_prefix_done st then wt_prefix got \<noteq> None else wt_prefix got = None \<and> es_class_buf st = got)"

lemma map_of_echo_modify [simp]:
  "map_of (ec_streams (echo_modify i f s)) j = (if j = i then map_option f (map_of (ec_streams s) i) else map_of (ec_streams s) j)"
  by (simp add: echo_modify_def)

lemma echo_modify_mode [simp]: "ec_mode (echo_modify i f s) = ec_mode s"
  by (simp add: echo_modify_def)

lemma echo_process_bidi:
  assumes st: "map_of (ec_streams s) i = Some st" "echoed out0 got st" and "ec_mode s \<noteq> ResetStreams"
  shows "\<exists>s' st'. echo_process E i chunk fin s = Done s' \<and> map_of (ec_streams s') i = Some st'
    \<and> echoed out0 (got @ chunk) st' \<and> ec_mode s' = ec_mode s \<and> es_fin_queued st' = (es_fin_queued st \<or> fin)"
proof (cases "es_prefix_done st")
  case True
  with st(2) obtain k where "wt_prefix got = Some k" by (auto simp: echoed_def)
  with wt_prefix_append [OF this, of chunk] True assms show ?thesis
    by (simp add: echo_process_def strip_prefix_once_eq echoed_def app_bytes_def echo_queue_def Let_def)
next
  case False
  with assms show ?thesis
    by (cases "wt_prefix (got @ chunk)")
      (simp_all add: echo_process_def strip_prefix_once_eq echoed_def app_bytes_def echo_queue_def Let_def)
qed

lemma echo_feed_bidi:
  assumes "map_of (ec_streams s) i = Some st" and "echoed out0 got st" and "ec_mode s \<noteq> ResetStreams" and "chunks \<noteq> []"
  shows "\<exists>s' st'. echo_feed E i chunks s = Done s' \<and> map_of (ec_streams s') i = Some st'
    \<and> echoed out0 (got @ concat chunks) st' \<and> es_fin_queued st'"
  using assms
proof (induction E i chunks s arbitrary: got st rule: echo_feed.induct)
  case (2 E i c s)
  from echo_process_bidi [OF 2(1-3), of E c True] show ?case by auto
next
  case (3 E i c d cs s)
  from echo_process_bidi [OF 3(2-4), of E c False] obtain s1 st1 where
    s1: "echo_process E i c False s = Done s1" "map_of (ec_streams s1) i = Some st1" "echoed out0 (got @ c) st1"
    "ec_mode s1 = ec_mode s" by blast
  with 3(1) [OF s1(1-3)] 3(4) show ?case by simp
qed simp

text \<open>
  Claim C32. Whatever chunks a client's bidirectional stream arrives in, once it has ended the server has
  queued for the same stream exactly the bytes that follow the signal and the session id, and then
  the end of the stream (unless it was told to reset streams).
\<close>

theorem echo_bidi_exact:
  assumes "map_of (ec_streams s) i = Some (echo_stream_new (echo_classify i))" and "echo_classify i = WtBidi"
    and "ec_mode s \<noteq> ResetStreams" and "chunks \<noteq> []"
  shows "\<exists>s' st'. echo_feed E i chunks s = Done s' \<and> map_of (ec_streams s') i = Some st'
    \<and> es_out st' = app_bytes (concat chunks) \<and> es_fin_queued st'"
proof -
  have "wt_prefix [] = None" by (simp add: wt_prefix_def read_varint_def)
  then have "echoed [] [] (echo_stream_new (echo_classify i))"
    using assms(2) by (simp add: echoed_def echo_stream_new_def app_bytes_def)
  from echo_feed_bidi [OF assms(1) this assms(3,4), of E] show ?thesis by (auto simp: echoed_def)
qed

theorem echo_bidi_exact_witness:
  "\<exists>s' st'. echo_feed (mini_env []) 4 [[0x40], [0x41, 0, 7], [8], []]
       (echo_put 4 (echo_stream_new (echo_classify 4)) (echo_new mini_idle EchoMode)) = Done s'
     \<and> map_of (ec_streams s') 4 = Some st' \<and> es_out st' = [7, 8] \<and> es_fin_queued st'"
proof -
  let ?s = "echo_put 4 (echo_stream_new (echo_classify 4)) (echo_new mini_idle EchoMode)"
  have "app_bytes (concat [[0x40], [0x41, 0, 7], [8], []]) = [7, 8]" by code_simp
  then show ?thesis
    using echo_bidi_exact [of ?s 4 "[[0x40], [0x41, 0, 7], [8], []]" "mini_env []"]
    by (simp add: echo_put_def echo_new_def echo_classify_def wt_consts)
qed

section \<open>Unidirectional streams\<close>

definition uni_out :: "'c echo \<Rightarrow> bytes" where
  "uni_out s =
     (case map_of (ec_streams s) (ec_next_server_uni s) of
        Some st \<Rightarrow> es_out st
      | None \<Rightarrow> put_varint CONNECT_ID (put_varint WT_UNI_STREAM_TYPE []))"

lemma echo_uni_out:
  "\<exists>st. map_of (ec_streams (echo_uni data fin s)) (ec_next_server_uni s) = Some st \<and> es_out st = uni_out s @ data
     \<and> (fin \<longrightarrow> es_fin_queued st)"
  by (auto simp: echo_uni_def uni_out_def Let_def echo_put_def echo_with_prefix_def echo_queue_def echo_modify_def
      split: option.split)

lemma echo_uni_next: "ec_next_server_uni (echo_uni data fin s) = (if fin then ec_next_server_uni s + 4 else ec_next_server_uni s)"
  by (simp add: echo_uni_def Let_def echo_put_def echo_modify_def split: option.split)

lemma echo_uni_keeps: "j \<noteq> ec_next_server_uni s \<Longrightarrow> map_of (ec_streams (echo_uni data fin s)) j = map_of (ec_streams s) j"
  by (simp add: echo_uni_def Let_def echo_put_def echo_modify_def split: option.split)

lemma echo_process_uni:
  assumes "map_of (ec_streams s) i = Some st" and "es_role st = WtUniIn" and "es_prefix_done st"
  shows "echo_process E i chunk fin s = Done (if chunk \<noteq> [] \<or> fin then echo_uni chunk fin s else s)"
  using assms by (simp add: echo_process_def strip_prefix_once_eq)

text \<open>
  Claim C33. The server does not open a matching stream for each unidirectional stream of the client: as
  long as no stream ends, what arrives on two of them is echoed, mixed in the order of arrival, on
  one server stream. Only the end of a stream moves on to a new one.
\<close>

theorem uni_echo_shares_stream:
  assumes "map_of (ec_streams s) i = Some st" and "es_role st = WtUniIn" and "es_prefix_done st"
    and "map_of (ec_streams s) j = Some st'" and "es_role st' = WtUniIn" and "es_prefix_done st'"
    and "j \<noteq> ec_next_server_uni s" and "c \<noteq> []" and "d \<noteq> []"
  shows "\<exists>s1 s2 out. echo_process E i c False s = Done s1 \<and> echo_process E j d fin s1 = Done s2
    \<and> map_of (ec_streams s2) (ec_next_server_uni s) = Some out \<and> es_out out = uni_out s @ c @ d
    \<and> ec_next_server_uni s2 = (if fin then ec_next_server_uni s + 4 else ec_next_server_uni s)"
proof -
  let ?s1 = "echo_uni c False s"
  have 1: "echo_process E i c False s = Done ?s1" using assms(8) by (simp add: echo_process_uni [OF assms(1-3)])
  have j: "map_of (ec_streams ?s1) j = Some st'" using assms(4,7) by (simp add: echo_uni_keeps)
  have 2: "echo_process E j d fin ?s1 = Done (echo_uni d fin ?s1)"
    using assms(9) by (simp add: echo_process_uni [OF j assms(5,6)])
  have next_uni: "ec_next_server_uni ?s1 = ec_next_server_uni s" by (simp add: echo_uni_next)
  from echo_uni_out [of c False s] have "uni_out ?s1 = uni_out s @ c"
    by (auto simp: uni_out_def [of ?s1] next_uni)
  with echo_uni_out [of d fin ?s1] 1 2 show ?thesis by (auto simp: next_uni echo_uni_next)
qed

definition two_unis :: "mini echo" where
  "two_unis = (echo_new mini_idle EchoMode)\<lparr>ec_streams :=
     [(2, (echo_stream_new WtUniIn)\<lparr>es_prefix_done := True\<rparr>), (6, (echo_stream_new WtUniIn)\<lparr>es_prefix_done := True\<rparr>)]\<rparr>"

theorem uni_echo_shares_stream_witness:
  "\<exists>s1 s2 out. echo_process (mini_env []) 2 [1] False two_unis = Done s1 \<and> echo_process (mini_env []) 6 [2] True s1 = Done s2
     \<and> map_of (ec_streams s2) 15 = Some out \<and> es_out out = uni_out two_unis @ [1, 2]"
proof -
  let ?st = "(echo_stream_new WtUniIn)\<lparr>es_prefix_done := True\<rparr>"
  have n: "ec_next_server_uni two_unis = 15" by (simp add: two_unis_def echo_new_def)
  have m: "map_of (ec_streams two_unis) 2 = Some ?st" "map_of (ec_streams two_unis) 6 = Some ?st"
    by (simp_all add: two_unis_def)
  have st: "es_role ?st = WtUniIn" "es_prefix_done ?st" by (simp_all add: echo_stream_new_def)
  have "6 \<noteq> ec_next_server_uni two_unis" by (simp add: n)
  from uni_echo_shares_stream [OF m(1) st m(2) st this, of "[1]" "[2]" "mini_env []" True]
  show ?thesis unfolding n append_Cons append_Nil by blast
qed

section \<open>The program\<close>

text \<open>The address the server binds to is the one that was asked for: printing and parsing agree.\<close>

lemma parse_sock_addr_v4:
  assumes "length o4 = 4"
  shows "parse_sock_addr (show_ipv4 o4 @ '':'' @ show_dec (unat (p :: u16))) = Some \<lparr>sa_ip = IpV4 o4, sa_port = p\<rparr>"
proof -
  let ?ds = "digits_base 10 (unat p)"
  have "read_octets (length o4) 0 (separated CHR ''.'' 0 (map (\<lambda>b. show_dec (unat b)) o4) @ CHR '':'' # ?ds)
      = Some (map unat o4, CHR '':'' # ?ds)"
    by (rule read_octets_printed) simp
  with assms have v4: "read_ipv4_addr (show_ipv4 o4 @ CHR '':'' # ?ds) = Some (map unat o4, CHR '':'' # ?ds)"
    by (simp add: read_ipv4_addr_def show_ipv4_def join_separated)
  have p: "unat p < 65536" using unsigned_less [of p] by simp
  have "unat p < 10 ^ (length ?ds + 5)"
  proof -
    have "(10::nat) ^ 5 \<le> 10 ^ (length ?ds + 5)" by (rule power_increasing) simp_all
    with p show ?thesis by simp
  qed
  with p have "read_number 10 (length ?ds + 5) True 65536 (?ds @ []) = Some (unat p, [])"
    by (intro read_number_digits) simp_all
  with v4 show ?thesis
    by (simp add: parse_sock_addr_def read_socket_v4_def read_port_def show_dec_def)
qed

text \<open>
  The tables of the loop: every live connection is reached by its own id, and an id leads to live
  connections only.
\<close>

definition echo_tables :: "'c echo_server \<Rightarrow> bool" where
  "echo_tables sv \<longleftrightarrow>
     (\<forall>k. map_of (eo_clients sv) k \<noteq> None \<longrightarrow> map_of (eo_routing sv) k = Some k)
     \<and> (\<forall>i k. map_of (eo_routing sv) i = Some k \<longrightarrow> map_of (eo_clients sv) k \<noteq> None)
     \<and> distinct (hm_keys (eo_clients sv))"

lemma echo_tables_same_keys:
  assumes "echo_tables sv" and "eo_routing sv' = eo_routing sv" and "distinct (hm_keys (eo_clients sv'))"
    and "\<And>k. map_of (eo_clients sv') k = None \<longleftrightarrow> map_of (eo_clients sv) k = None"
  shows "echo_tables sv'"
  using assms by (simp add: echo_tables_def del: map_of_eq_Some_iff not_None_eq)

lemma echo_tablesD:
  assumes "echo_tables sv"
  shows "map_of (eo_routing sv) k = None \<Longrightarrow> map_of (eo_clients sv) k = None"
    and "map_of (eo_routing sv) i = Some k \<Longrightarrow> map_of (eo_clients sv) k \<noteq> None"
    and "distinct (hm_keys (eo_clients sv))"
  using assms unfolding echo_tables_def by (metis option.distinct(1), blast, blast)

lemma echo_route_tables:
  assumes "echo_tables sv" and "echo_route H m local_addr clock hdr src sv = (r, sv')"
  shows "echo_tables sv' \<and> (\<forall>k. r = Some k \<longrightarrow> map_of (eo_clients sv') k \<noteq> None)"
proof (cases "map_of (eo_routing sv) (ph_dcid hdr)")
  case None
  note d = echo_tablesD(1) [OF assms(1) None]
  show ?thesis
  proof (cases "r")
    case (Some k)
    with assms(2) None obtain c where sv': "sv' = sv\<lparr>eo_routing := AList.update k k (AList.update (ph_dcid hdr) k (eo_routing sv)),
        eo_clients := AList.update k (echo_new c m) (eo_clients sv)\<rparr>"
      by (auto simp: echo_route_def Let_def split: option.splits if_splits)
    have "map_of (eo_routing sv') j = Some j" if "map_of (eo_clients sv') j \<noteq> None" for j
      using that assms(1) d unfolding sv' echo_tables_def by (auto split: if_splits)
    moreover have "map_of (eo_clients sv') j \<noteq> None" if "map_of (eo_routing sv') i = Some j" for i j
      using that echo_tablesD(2) [OF assms(1)] unfolding sv' by (auto split: if_splits)
    moreover have "distinct (hm_keys (eo_clients sv'))"
      using echo_tablesD(3) [OF assms(1)] by (simp add: sv' distinct_update)
    ultimately show ?thesis using Some by (simp add: echo_tables_def sv')
  qed (use None assms in \<open>auto simp: echo_route_def Let_def split: option.splits if_splits\<close>)
next
  case (Some k)
  with assms have "r = Some k" "sv' = sv" by (simp_all add: echo_route_def)
  with echo_tablesD(2) [OF assms(1) Some] assms(1) show ?thesis by simp
qed

lemma echo_recv_tables:
  "echo_tables sv \<Longrightarrow> echo_tables (echo_recv N H m local_addr items sv)"
proof (induction items arbitrary: sv)
  case (Cons item rest)
  show ?case
  proof (cases item)
    case (Inr p)
    then obtain pkt src clock where item: "item = Inr (pkt, src, clock)" by (cases p) auto
    show ?thesis
    proof (cases "eh_header H pkt 16")
      case (Some hdr)
      obtain r sv1 where route: "echo_route H m local_addr clock hdr src sv = (r, sv1)" by fastforce
      from echo_route_tables [OF Cons.prems route] have sv1: "echo_tables sv1" by blast
      show ?thesis
      proof (cases r)
        case None
        with Cons.IH [OF sv1] show ?thesis by (simp add: item \<open>eh_header H pkt 16 = Some hdr\<close> route)
      next
        case (Some k)
        let ?sv2 = "sv1\<lparr>eo_clients := hm_modify k (\<lambda>ec. ec\<lparr>ec_conn := snd (n_recv N (ec_conn ec) pkt src local_addr)\<rparr>)
          (eo_clients sv1)\<rparr>"
        have "echo_tables ?sv2"
          by (rule echo_tables_same_keys [OF sv1]) (use echo_tablesD(3) [OF sv1] in simp_all)
        from Cons.IH [OF this] show ?thesis by (simp add: item \<open>eh_header H pkt 16 = Some hdr\<close> route Some)
      qed
    qed (use Cons item in simp)
  qed (use Cons in simp)
qed simp

lemma echo_drive_all_tables:
  "echo_drive_all rounds E Q N keys sv = Done sv' \<Longrightarrow> echo_tables sv \<Longrightarrow> echo_tables sv'"
proof (induction keys arbitrary: sv)
  case (Cons key keys)
  show ?case
  proof (cases "map_of (eo_clients sv) key")
    case None
    with Cons show ?thesis by simp
  next
    case (Some ec)
    with Cons.prems(1) obtain ec1 c sent where step: "echo_drive rounds E Q ec = Done ec1"
      "echo_send (rounds (ec_conn ec1)) N (ec_conn ec1) (eo_sent sv) = Some (c, sent)"
      by (auto split: outcome.splits option.splits)
    let ?sv1 = "sv\<lparr>eo_clients := AList.update key (ec1\<lparr>ec_conn := c\<rparr>) (eo_clients sv), eo_sent := sent\<rparr>"
    have "echo_tables ?sv1"
      by (rule echo_tables_same_keys [OF Cons.prems(2)])
        (use echo_tablesD(3) [OF Cons.prems(2)] Some in \<open>simp_all add: distinct_update\<close>)
    with Cons.IH [of ?sv1] step Some Cons.prems(1) show ?thesis by simp
  qed
qed simp

lemma echo_timeouts_tables: "echo_tables sv \<Longrightarrow> echo_tables (echo_timeouts Q H sv)"
  by (rule echo_tables_same_keys) (simp_all add: echo_timeouts_def echo_tablesD(3))

text \<open>
  Filtering a table by its values; the first two facts do not ask for distinct keys, which the routing
  table of the loop need not have.
\<close>

lemma map_of_filter_Some: "map_of (filter (\<lambda>(_, v). P v) m) k = Some v \<Longrightarrow> P v"
  by (induction m) (auto split: if_splits)

lemma map_of_filter_keeps: "map_of m k = Some v \<Longrightarrow> P v \<Longrightarrow> map_of (filter (\<lambda>(_, v). P v) m) k = Some v"
  by (induction m) (auto split: if_splits)

lemma echo_reap_tables:
  assumes "echo_tables sv"
  shows "echo_tables (echo_reap Q sv)"
    and "map_of (eo_clients (echo_reap Q sv)) k = Some ec \<Longrightarrow> \<not> q_is_closed Q (ec_conn ec)"
proof -
  let ?live = "filter (\<lambda>(_, ec). \<not> q_is_closed Q (ec_conn ec)) (eo_clients sv)"
  note dist = echo_tablesD(3) [OF assms]
  note live = map_of_filter_val [OF dist, of "\<lambda>ec. \<not> q_is_closed Q (ec_conn ec)"]
  have fields: "eo_clients (echo_reap Q sv) = ?live"
    "eo_routing (echo_reap Q sv) = filter (\<lambda>(_, scid). map_of ?live scid \<noteq> None) (eo_routing sv)"
    by (simp_all add: echo_reap_def Let_def)
  show "\<not> q_is_closed Q (ec_conn ec)" if "map_of (eo_clients (echo_reap Q sv)) k = Some ec"
    using that live unfolding fields by blast
  have "map_of (filter (\<lambda>(_, scid). map_of ?live scid \<noteq> None) (eo_routing sv)) j = Some j" if "map_of ?live j \<noteq> None" for j
  proof (rule map_of_filter_keeps)
    from that obtain ec where "map_of (eo_clients sv) j = Some ec" using live by blast
    with assms show "map_of (eo_routing sv) j = Some j" unfolding echo_tables_def by blast
  qed (use that in simp)
  moreover have "map_of ?live j \<noteq> None"
    if "map_of (filter (\<lambda>(_, scid). map_of ?live scid \<noteq> None) (eo_routing sv)) i = Some j" for i j
    using that by (rule map_of_filter_Some)
  moreover have "distinct (hm_keys ?live)" using dist by (rule distinct_map_filter)
  ultimately show "echo_tables (echo_reap Q sv)" unfolding echo_tables_def fields by blast
qed

lemma echo_wake_tables:
  assumes "echo_tables sv" and "echo_wake rounds E Q N H m local_addr items sv = Done sv'"
  shows "echo_tables sv' \<and> (\<forall>k ec. map_of (eo_clients sv') k = Some ec \<longrightarrow> \<not> q_is_closed Q (ec_conn ec))"
proof -
  let ?sv1 = "echo_timeouts Q H (echo_recv N H m local_addr items sv)"
  from assms(2) obtain sv2 where d: "echo_drive_all rounds E Q N (eh_order H (hm_keys (eo_clients ?sv1))) ?sv1 = Done sv2"
    and sv': "sv' = echo_reap Q sv2" by (auto simp: echo_wake_def Let_def split: outcome.splits)
  have "echo_tables sv2"
    using echo_drive_all_tables [OF d] echo_timeouts_tables [OF echo_recv_tables [OF assms(1)]] by blast
  from echo_reap_tables [OF this, of Q] show ?thesis unfolding sv' by blast
qed

text \<open>
  However the program is called and whatever arrives: if it gets to its loop it has named the port it is
  bound to, and after any number of iterations a live connection is reached by its own id, and every
  id in the routing table leads to a connection that is not closed.
\<close>

lemma echo_loop_tables:
  "echo_tables sv \<Longrightarrow> \<forall>k ec. map_of (eo_clients sv) k = Some ec \<longrightarrow> \<not> q_is_closed Q (ec_conn ec) \<Longrightarrow>
   echo_loop rounds E Q N H u wakes sv = Done sv' \<Longrightarrow>
   echo_tables sv' \<and> (\<forall>k ec. map_of (eo_clients sv') k = Some ec \<longrightarrow> \<not> q_is_closed Q (ec_conn ec))"
proof (induction wakes arbitrary: sv)
  case (Cons items wakes)
  from Cons.prems(3) obtain sv1 where w: "echo_wake rounds E Q N (H (eu_config u)) (eu_mode u) (eu_local_addr u) items sv = Done sv1"
    and l: "echo_loop rounds E Q N H u wakes sv1 = Done sv'" by (auto split: outcome.splits)
  from echo_wake_tables [OF Cons.prems(1) w] Cons.IH [OF _ _ l] show ?case by blast
qed simp

theorem echo_main_routes:
  assumes "echo_main rounds A W E Q N H args wakes = Inr (printed, Done sv)"
  shows "\<exists>bound :: sock_addr. printed = [''PORT '' @ show_dec (unat (sa_port bound)), ''READY'']
    \<and> (\<forall>k. map_of (eo_clients sv) k \<noteq> None \<longrightarrow> map_of (eo_routing sv) k = Some k)
    \<and> (\<forall>i k. map_of (eo_routing sv) i = Some k \<longrightarrow>
         (\<exists>ec. map_of (eo_clients sv) k = Some ec \<and> \<not> q_is_closed Q (ec_conn ec)))"
proof -
  from assms obtain u where u: "printed = echo_handshake u" "echo_loop rounds E Q N H u wakes echo_server_new = Done sv"
    by (auto simp: echo_main_def split: echo_start.splits)
  have "echo_tables (echo_server_new :: 'a echo_server)" by (simp add: echo_tables_def echo_server_new_def)
  from echo_loop_tables [OF this _ u(2)] have t: "echo_tables sv"
    "\<forall>k ec. map_of (eo_clients sv) k = Some ec \<longrightarrow> \<not> q_is_closed Q (ec_conn ec)" by (simp_all add: echo_server_new_def)
  have "\<exists>ec. map_of (eo_clients sv) k = Some ec \<and> \<not> q_is_closed Q (ec_conn ec)"
    if "map_of (eo_routing sv) i = Some k" for i k using echo_tablesD(2) [OF t(1) that] t(2) by blast
  moreover have "\<forall>k. map_of (eo_clients sv) k \<noteq> None \<longrightarrow> map_of (eo_routing sv) k = Some k"
    using t(1) unfolding echo_tables_def by blast
  ultimately show ?thesis
    by (intro exI [of _ "eu_local_addr u"]) (simp add: u(1) echo_handshake_def del: map_of_eq_Some_iff)
qed

end
