(* ===== verification/Session_Streams.thy ===== *)
theory Session_Streams
  imports Session_Wire
begin

text \<open>
  A WebTransport stream from one session to the other: what one side writes to a stream it opened is
  what the other side hands to its application, however the bytes are cut on the way.
\<close>

section \<open>The preamble of a stream\<close>

definition stream_prefix :: "bool \<Rightarrow> bytes" where
  "stream_prefix bidi = put_varint CONNECT_ID (put_varint (if bidi then WT_BIDI_FRAME_TYPE else WT_UNI_STREAM_TYPE) [])"

lemma stream_prefix_bytes: "stream_prefix bidi = [0x40, if bidi then 0x41 else 0x54, 0]"
  by (cases bidi) (simp_all add: stream_prefix_def put_varint_def wt_consts)

lemma stream_prefix_length [simp]: "length (stream_prefix bidi) = 3"
  by (simp add: stream_prefix_bytes)

abbreviation stream_signal :: "bool \<Rightarrow> u64" where
  "stream_signal bidi \<equiv> (if bidi then WT_BIDI_FRAME_TYPE else WT_UNI_STREAM_TYPE)"

lemma read_stream_signal:
  "read_varint (0x40 # (if bidi then 0x41 else 0x54) # rest) = Some (stream_signal bidi, 2)"
  using read_put [of "stream_signal bidi" rest]
  by (cases bidi) (simp_all add: put_varint_def varint_len_def wt_consts)

lemma read_signal_short: "read_varint [0x40] = None"
  by (simp add: read_varint_def)

lemma read_connect_id: "read_varint (0 # rest) = Some (CONNECT_ID, 1)"
  using read_put [of CONNECT_ID rest] by (simp add: put_varint_def varint_len_def wt_consts)

text \<open>A proper prefix of the preamble does not yet classify the stream.\<close>

lemma preamble_incomplete:
  assumes "buf @ later = stream_prefix bidi @ data" and "length buf < 3"
  shows "read_varint buf = None \<or> read_varint buf = Some (stream_signal bidi, 2) \<and> read_varint (drop 2 buf) = None"
proof -
  from assms have "buf = [] \<or> buf = [0x40] \<or> buf = [0x40, if bidi then 0x41 else 0x54]"
    by (auto simp: stream_prefix_bytes append_eq_Cons_conv)
  then show ?thesis
    using read_stream_signal [of bidi "[]"] by (auto simp: read_signal_short)
qed

lemma preamble_whole:
  assumes "buf @ later = stream_prefix bidi @ data" and "\<not> length buf < 3"
  shows "buf = stream_prefix bidi @ drop 3 buf"
proof -
  have "take 3 buf = take 3 (buf @ later)" using assms(2) by simp
  also have "\<dots> = stream_prefix bidi" unfolding assms(1) by simp
  finally show ?thesis by (metis append_take_drop_id)
qed

section \<open>The receiving side\<close>

definition pending_role :: "bool \<Rightarrow> role" where
  "pending_role bidi = (if bidi then PendingBidi else PendingUni)"

text \<open>Session flow control leaves room for \<open>n\<close> bytes of payload, and for one more stream.\<close>

definition data_credit :: "'c sys \<Rightarrow> nat \<Rightarrow> bool" where
  "data_credit s n \<longleftrightarrow> (uses_session_flow_control (sess s) \<longrightarrow>
     unat (s_fc_data_received (sess s)) + n \<le> unat (s_fc_max_data_local (sess s)))"

definition stream_credit :: "'c sys \<Rightarrow> bool \<Rightarrow> bool" where
  "stream_credit s bidi \<longleftrightarrow> (uses_session_flow_control (sess s) \<longrightarrow>
     s_fc_streams_received (sess s) bidi < s_fc_max_streams_local (sess s) bidi)"

lemmas stream_frame = get_stream_def modify_stream_def upd_def push_ev_def set_memory_def

definition flowing :: "u64 \<Rightarrow> bool \<Rightarrow> nat \<Rightarrow> 'c sys \<Rightarrow> bool" where
  "flowing i bidi n s \<longleftrightarrow> \<not> closed s \<and> map_option st_role (get_stream s i) = Some (WtData bidi) \<and> data_credit s n"

lemma push_ev_views:
  "get_stream (push_ev e s) i = get_stream s i" "data_credit (push_ev e s) n = data_credit s n"
  "closed (push_ev e s) = closed s" "evs (push_ev e s) = evs s @ [e]" "conn (push_ev e s) = conn s"
  by (simp_all add: stream_frame data_credit_def)

lemma uses_fc_cong: "s_peer_settings w = s_peer_settings w' \<Longrightarrow> uses_session_flow_control w = uses_session_flow_control w'"
  by (simp add: uses_session_flow_control_def)

lemma account_receive_credit:
  assumes "data_credit s (n + k)" and "n < 2 ^ 64"
  shows "\<exists>s'. account_receive i (of_nat n) s = (True, s') \<and> data_credit s' k \<and> evs s' = evs s \<and> closed s' = closed s
    \<and> conn s' = conn s
    \<and> map_option st_role (get_stream s' j) = map_option st_role (get_stream s j)"
proof -
  let ?w = "sess s"
  have n: "unat (of_nat n :: u64) = n" using assms(2) by (simp add: unat_of_nat take_bit_nat_eq_self)
  have lim: "unat (s_fc_max_data_local ?w) < 2 ^ 64" by (rule unat_lt_u64)
  let ?r = "saturating_add (s_fc_data_received ?w) (of_nat n)"
  have fc: "uses_session_flow_control ?w \<Longrightarrow> unat ?r = unat (s_fc_data_received ?w) + n"
    using assms(1) lim by (simp add: data_credit_def unat_saturating_add n)
  have le: "\<not> (uses_session_flow_control ?w \<and> ?r > s_fc_max_data_local ?w)"
    using fc assms(1) by (auto simp: data_credit_def word_less_nat_alt)
  let ?s = "modify_stream i (\<lambda>st. st\<lparr>st_recv_payload := saturating_add (st_recv_payload st) (of_nat n)\<rparr>)
      (upd (\<lambda>w. w\<lparr>s_fc_data_received := saturating_add (s_fc_data_received w) (of_nat n)\<rparr>) s)"
  have u: "uses_session_flow_control (sess ?s) = uses_session_flow_control ?w"
    by (rule uses_fc_cong) (simp add: stream_frame)
  have v: "s_fc_data_received (sess ?s) = ?r" "s_fc_max_data_local (sess ?s) = s_fc_max_data_local ?w"
    "evs ?s = evs s" "closed ?s = closed s" "conn ?s = conn s"
    by (simp_all add: stream_frame)
  have role: "map_option st_role (get_stream ?s j) = map_option st_role (get_stream s j)"
    by (simp add: stream_frame option.map_comp comp_def)
  have "account_receive i (of_nat n) s = (True, ?s)"
    using le unfolding account_receive_def Let_def u v by simp
  moreover have "data_credit ?s k" using fc assms(1) unfolding data_credit_def u v by auto
  ultimately show ?thesis using v role by blast
qed

lemma process_flowing:
  assumes "flowing i bidi (length c + n) s" and "length c < 2 ^ 64"
  shows "flowing i bidi n (process_recv E Q i c False s)"
    and "evs (process_recv E Q i c False s) = evs s @ (if c = [] then [] else [EvStreamData i c])"
    and "conn (process_recv E Q i c False s) = conn s"
proof -
  obtain s' where a: "account_receive i (of_nat (length c)) s = (True, s')" "data_credit s' n" "evs s' = evs s"
      "conn s' = conn s" "closed s' = closed s" "map_option st_role (get_stream s' i) = map_option st_role (get_stream s i)"
    using account_receive_credit [of s "length c" n i i] assms by (auto simp: flowing_def)
  have p: "process_recv E Q i c False s = (if c \<noteq> [] then push_ev (EvStreamData i c) s' else s')"
    using assms(1) unfolding process_recv_def flowing_def by (simp add: a(1) del: map_option_eq_Some)
  show "flowing i bidi n (process_recv E Q i c False s)"
    using assms(1) a unfolding p flowing_def by (simp add: push_ev_views del: map_option_eq_Some)
  show "evs (process_recv E Q i c False s) = evs s @ (if c = [] then [] else [EvStreamData i c])"
    unfolding p using a(3) by (simp add: push_ev_def)
  show "conn (process_recv E Q i c False s) = conn s"
    unfolding p using a(4) by (simp add: push_ev_def)
qed

text \<open>A stream whose preamble is not yet complete: \<open>got\<close> is what has arrived.\<close>

definition preamble_cap :: nat where "preamble_cap = READ_BUF + 3"

definition awaiting :: "u64 \<Rightarrow> bool \<Rightarrow> bytes \<Rightarrow> nat \<Rightarrow> 'c sys \<Rightarrow> bool" where
  "awaiting i bidi got n s \<longleftrightarrow> \<not> closed s \<and> data_credit s n \<and> stream_credit s bidi
     \<and> (\<exists>st. get_stream s i = Some st \<and> st_role st = pending_role bidi \<and> pb_data (st_class_buf st) = got
          \<and> roomy preamble_cap (memory s) (st_class_buf st))"

text \<open>The next chunk is appended to the accumulator, which has room for it.\<close>

lemma awaiting_extend:
  assumes "awaiting i bidi got n s" and "e_alloc E = Some" and "length got < 3" and "length c \<le> READ_BUF"
    and "get_stream s i = Some st"
  obtains s' where "extend_class_buf E i c st s = (True, s')" and "awaiting i bidi (got @ c) n s'"
    and "evs s' = evs s" and "conn s' = conn s" and "class_bytes s' i = got @ c"
proof -
  have a: "roomy preamble_cap (memory s) (st_class_buf st)" "pb_data (st_class_buf st) = got" "st_role st = pending_role bidi"
    using assms(1,5) by (auto simp: awaiting_def)
  have "length (pb_data (st_class_buf st)) + length c \<le> preamble_cap"
    using a(2) assms(3,4) by (simp add: preamble_cap_def)
  from extend_roomy [OF a(1) this] obtain m b where
    x: "extend_from_slice Some (memory s) (st_class_buf st) c = (True, m, b)" "roomy preamble_cap m b" "pb_data b = got @ c"
    using a(2) by auto
  let ?s = "set_memory m (modify_stream i (\<lambda>st. st\<lparr>st_class_buf := b\<rparr>) s)"
  have e: "extend_class_buf E i c st s = (True, ?s)" using x(1) assms(2) by (simp add: extend_class_buf_def)
  have g: "get_stream ?s i = Some (st\<lparr>st_class_buf := b\<rparr>)" "memory ?s = m" "evs ?s = evs s" "closed ?s = closed s" "conn ?s = conn s"
    using assms(5) by (simp_all add: stream_frame)
  have u: "uses_session_flow_control (sess ?s) = uses_session_flow_control (sess s)"
    by (rule uses_fc_cong) (simp add: stream_frame)
  have f: "data_credit ?s n = data_credit s n" "stream_credit ?s bidi = stream_credit s bidi"
    unfolding data_credit_def stream_credit_def u by (simp_all add: stream_frame)
  have "awaiting i bidi (got @ c) n ?s"
    unfolding awaiting_def g f using assms(1) a(3) x by (simp add: awaiting_def)
  moreover have "class_bytes ?s i = got @ c" unfolding class_bytes_def g using x(3) by simp
  ultimately show ?thesis using that e g(3,5) by blast
qed

lemma process_awaiting_short:
  assumes "awaiting i bidi got n s" and "e_alloc E = Some" and "length c \<le> READ_BUF"
    and "got @ c @ later = stream_prefix bidi @ data" and "length (got @ c) < 3"
  shows "awaiting i bidi (got @ c) n (process_recv E Q i c False s) \<and> evs (process_recv E Q i c False s) = evs s
    \<and> conn (process_recv E Q i c False s) = conn s"
proof -
  obtain st where st: "get_stream s i = Some st" "st_role st = pending_role bidi" using assms(1) by (auto simp: awaiting_def)
  obtain s' where s': "extend_class_buf E i c st s = (True, s')" "awaiting i bidi (got @ c) n s'" "evs s' = evs s"
      "conn s' = conn s" "class_bytes s' i = got @ c"
    using awaiting_extend [OF assms(1,2) _ assms(3) st(1)] assms(5) by auto
  have "process_recv E Q i c False s = s'"
  proof (cases bidi)
    case True
    then show ?thesis using preamble_incomplete [of "got @ c" later bidi data] assms(4,5) st s'
      by (auto simp: process_recv_def resolve_pending_bidi_def pending_role_def Let_def wt_consts)
  next
    case False
    then show ?thesis using preamble_incomplete [of "got @ c" later bidi data] assms(4,5) st s'
      by (auto simp: process_recv_def resolve_pending_uni_def pending_role_def Let_def wt_consts)
  qed
  with s' show ?thesis by simp
qed

lemma process_awaiting_whole:
  assumes "awaiting i bidi got n s" and "e_alloc E = Some" and "length c \<le> READ_BUF" and "length got < 3"
    and "got @ c = stream_prefix bidi @ d"
  shows "\<exists>s'. process_recv E Q i c False s = incoming_stream i bidi 3 d False s' \<and> awaiting i bidi (got @ c) n s' \<and> evs s' = evs s
    \<and> conn s' = conn s"
proof -
  obtain st where st: "get_stream s i = Some st" "st_role st = pending_role bidi" using assms(1) by (auto simp: awaiting_def)
  obtain s' where s': "extend_class_buf E i c st s = (True, s')" "awaiting i bidi (got @ c) n s'" "evs s' = evs s"
      "conn s' = conn s" "class_bytes s' i = got @ c"
    using awaiting_extend [OF assms(1,2,4,3) st(1)] by blast
  have b: "class_bytes s' i = 0x40 # (if bidi then 0x41 else 0x54) # 0 # d"
    unfolding s'(5) assms(5) by (simp add: stream_prefix_bytes)
  have r: "read_varint (class_bytes s' i) = Some (stream_signal bidi, 2)" unfolding b by (rule read_stream_signal)
  have d: "drop 2 (class_bytes s' i) = 0 # d" "drop (Suc (Suc (Suc 0))) (class_bytes s' i) = d" unfolding b by (simp_all add: numeral_eq_Suc)
  have "process_recv E Q i c False s = incoming_stream i bidi 3 d False s'"
  proof (cases bidi)
    case True
    with st s'(1) r d show ?thesis
      by (simp add: process_recv_def resolve_pending_bidi_def pending_role_def Let_def read_connect_id numeral_3_eq_3)
  next
    case False
    with st s'(1) r d show ?thesis
      by (simp add: process_recv_def resolve_pending_uni_def pending_role_def Let_def read_connect_id numeral_3_eq_3)
        (simp add: wt_consts)
  qed
  with s' show ?thesis by blast
qed

text \<open>Once the preamble is complete, the stream is announced and the rest of the chunk is its data.\<close>

lemma clear_class_buf_views:
  "closed (clear_class_buf i s) = closed s" "evs (clear_class_buf i s) = evs s" "conn (clear_class_buf i s) = conn s"
  "data_credit (clear_class_buf i s) n = data_credit s n" "stream_credit (clear_class_buf i s) b = stream_credit s b"
  "map_option st_role (get_stream (clear_class_buf i s) j) = map_option st_role (get_stream s j)"
proof -
  have "sess (clear_class_buf i s) = sess s \<or> (\<exists>m f. sess (clear_class_buf i s) =
      (sess s)\<lparr>s_streams := hm_modify i f (s_streams (sess s)), s_parser_memory := m\<rparr> \<and> (\<forall>st. st_role (f st) = st_role st))"
    by (auto simp: clear_class_buf_def stream_frame split: option.split prod.split)
      (metis stream.select_convs(1) stream.update_convs(2) stream.surjective)
  then show "closed (clear_class_buf i s) = closed s" "data_credit (clear_class_buf i s) n = data_credit s n"
    "stream_credit (clear_class_buf i s) b = stream_credit s b"
    "map_option st_role (get_stream (clear_class_buf i s) j) = map_option st_role (get_stream s j)"
    by (auto simp: data_credit_def stream_credit_def uses_session_flow_control_def get_stream_def option.map_comp comp_def)
  show "evs (clear_class_buf i s) = evs s" "conn (clear_class_buf i s) = conn s" by (simp_all add: clear_class_buf_def stream_frame split: option.split prod.split)
qed

lemma modify_stream_views:
  "closed (modify_stream i f s) = closed s" "evs (modify_stream i f s) = evs s" "conn (modify_stream i f s) = conn s"
  "data_credit (modify_stream i f s) n = data_credit s n" "stream_credit (modify_stream i f s) b = stream_credit s b"
  "get_stream (modify_stream i f s) j = (if j = i then map_option f (get_stream s i) else get_stream s j)"
  by (simp_all add: stream_frame data_credit_def stream_credit_def uses_session_flow_control_def)

lemma account_incoming_credit:
  assumes "stream_credit s bidi"
  shows "\<exists>s'. account_incoming bidi s = (True, s') \<and> closed s' = closed s \<and> evs s' = evs s \<and> conn s' = conn s
    \<and> data_credit s' n = data_credit s n \<and> get_stream s' = get_stream s"
proof -
  let ?s = "upd (\<lambda>w. w\<lparr>s_fc_streams_received := (s_fc_streams_received w)(bidi := s_fc_streams_received w bidi + 1)\<rparr>) s"
  have u: "uses_session_flow_control (sess ?s) = uses_session_flow_control (sess s)"
    by (rule uses_fc_cong) (simp add: stream_frame)
  have "\<not> (uses_session_flow_control (sess s) \<and> s_fc_streams_received (sess s) bidi + 1 > s_fc_max_streams_local (sess s) bidi)"
    using assms inc_le by (auto simp: stream_credit_def not_less)
  then have "account_incoming bidi s = (True, ?s)" unfolding account_incoming_def Let_def u by (simp add: upd_def)
  moreover have "data_credit ?s n = data_credit s n" unfolding data_credit_def u by (simp add: upd_def)
  ultimately show ?thesis by (auto simp: upd_def get_stream_def)
qed

lemma incoming_stream_announced:
  assumes "awaiting i bidi got (length d + n) s" and "length d < 2 ^ 64"
  shows "flowing i bidi n (incoming_stream i bidi k d False s)
    \<and> evs (incoming_stream i bidi k d False s) = evs s @ EvIncomingStream i bidi # (if d = [] then [] else [EvStreamData i d])
    \<and> conn (incoming_stream i bidi k d False s) = conn s"
proof -
  define s1 where "s1 = modify_stream i (\<lambda>st. st\<lparr>st_recv_prefix := of_nat k\<rparr>) (set_role i (WtData bidi) s)"
  have v1: "closed s1 = closed s" "evs s1 = evs s" "conn s1 = conn s" "data_credit s1 n' = data_credit s n'" "stream_credit s1 b = stream_credit s b"
    for n' b
    by (simp_all add: s1_def set_role_def clear_class_buf_views modify_stream_views)
  have "map_option st_role (get_stream (clear_class_buf i (modify_stream i (\<lambda>st. st\<lparr>st_role := WtData bidi\<rparr>) s)) i) = Some (WtData bidi)"
    unfolding clear_class_buf_views modify_stream_views using assms(1) by (auto simp: awaiting_def)
  then have r1: "map_option st_role (get_stream s1 i) = Some (WtData bidi)"
    by (auto simp: s1_def set_role_def modify_stream_views)
  have c: "\<not> closed s1" "data_credit s1 (length d + n)" "stream_credit s1 bidi"
    using assms(1) v1 by (simp_all add: awaiting_def)
  obtain s2 where s2: "account_incoming bidi s1 = (True, s2)" "closed s2 = closed s1" "evs s2 = evs s1" "conn s2 = conn s1"
      "data_credit s2 (length d + n)" "get_stream s2 = get_stream s1"
    using account_incoming_credit [OF c(3), of "length d + n"] c(2) by auto
  obtain s3 where s3: "account_receive i (of_nat (length d)) s2 = (True, s3)" "data_credit s3 n" "evs s3 = evs s2" "conn s3 = conn s2"
      "closed s3 = closed s2" "map_option st_role (get_stream s3 i) = map_option st_role (get_stream s2 i)"
    using account_receive_credit [OF s2(5) assms(2), of i i] by blast
  have "incoming_stream i bidi k d False s =
      (let s = push_ev (EvIncomingStream i bidi) s3 in if d \<noteq> [] then push_ev (EvStreamData i d) s else s)"
    using s2(1) s3(1) by (simp add: incoming_stream_def s1_def Let_def)
  then show ?thesis
    using c(1) r1 s2 s3 v1(2,3) by (simp add: flowing_def push_ev_views Let_def del: map_option_eq_Some)
qed

section \<open>Reading a stream\<close>

text \<open>
  What \<^verbatim>\<open>stream_recv\<close> is documented to do on a stream the peer has not finished: each call takes a piece
  off the front of the bytes that have arrived, at most as long as the buffer, and reports \<^verbatim>\<open>Done\<close> when there are none.
\<close>

definition stream_laws :: "'c quic \<Rightarrow> ('c \<Rightarrow> u64 \<Rightarrow> bytes) \<Rightarrow> ('c \<Rightarrow> u64 \<Rightarrow> bool) \<Rightarrow> bool" where
  "stream_laws Q arrived ended \<longleftrightarrow>
     (\<forall>c i n r c'. q_stream_recv Q c i n = (r, c') \<longrightarrow> 0 < n \<longrightarrow> \<not> ended c i \<longrightarrow>
        (case r of
           Inr (x, f) \<Rightarrow> \<not> f \<and> length x \<le> n \<and> arrived c i = x @ arrived c' i \<and> \<not> ended c' i \<and> (x = [] \<longrightarrow> arrived c i = [])
         | Inl e \<Rightarrow> e = QDone \<and> arrived c i = []))"

lemma read_step:
  assumes "stream_laws Q arrived ended" and "\<not> ended (conn s) i" and "get_stream s i = Some st"
  obtains (empty) c where "arrived (conn s) i = []" and "read_loop (Suc n) E Q i False s = Done (Some None, s\<lparr>conn := c\<rparr>)"
  | (piece) x c where "length x \<le> READ_BUF" and "arrived (conn s) i = x @ arrived c i" and "\<not> ended c i"
      and "x = [] \<longrightarrow> arrived (conn s) i = []"
      and "read_loop (Suc n) E Q i False s = (let s = process_recv E Q i x False (s\<lparr>conn := c\<rparr>) in
          if closed s then Done (None, s) else if x = [] then Done (Some None, s) else read_loop n E Q i False s)"
proof -
  obtain r c where r: "q_stream_recv Q (conn s) i READ_BUF = (r, c)" by fastforce
  have "0 < READ_BUF" by (simp add: READ_BUF_def)
  note law = assms(1) [unfolded stream_laws_def, rule_format, OF r this assms(2)]
  show ?thesis
  proof (cases r)
    case (Inl e)
    with law r assms(3) show ?thesis by (intro empty [of c]) simp_all
  next
    case (Inr xf)
    obtain x f where xf: "xf = (x, f)" by (cases xf)
    with Inr law r assms(3) show ?thesis by (intro piece [of x c]) (auto simp: Let_def)
  qed
qed

lemma flowing_conn: "flowing i bidi n (s\<lparr>conn := c\<rparr>) = flowing i bidi n s"
  by (simp add: flowing_def get_stream_def data_credit_def)

lemma awaiting_conn: "awaiting i bidi got n (s\<lparr>conn := c\<rparr>) = awaiting i bidi got n s"
  by (simp add: awaiting_def get_stream_def data_credit_def stream_credit_def)

lemma READ_BUF_small: "length x \<le> READ_BUF \<Longrightarrow> length x < 2 ^ 64"
  by (simp add: READ_BUF_def)

lemma read_flowing:
  assumes "stream_laws Q arrived ended"
  shows "flowing i bidi (length (arrived (conn s) i)) s \<Longrightarrow> \<not> ended (conn s) i \<Longrightarrow> length (arrived (conn s) i) < n \<Longrightarrow>
    \<exists>s' pieces. read_loop n E Q i False s = Done (Some None, s') \<and> flowing i bidi 0 s'
      \<and> evs s' = evs s @ map (EvStreamData i) pieces \<and> [] \<notin> set pieces \<and> concat pieces = arrived (conn s) i"
proof (induction n arbitrary: s)
  case (Suc n)
  obtain st where st: "get_stream s i = Some st" using Suc.prems(1) by (auto simp: flowing_def)
  show ?case
  proof (cases rule: read_step [OF assms Suc.prems(2) st, where E = E and n = n, case_names empty piece])
    case (empty c)
    with Suc.prems(1) show ?thesis
      by (intro exI [of _ "s\<lparr>conn := c\<rparr>"] exI [of _ "[]"]) (simp add: flowing_conn)
  next
    case (piece x c)
    let ?s = "process_recv E Q i x False (s\<lparr>conn := c\<rparr>)"
    have "flowing i bidi (length x + length (arrived c i)) (s\<lparr>conn := c\<rparr>)"
      using Suc.prems(1) piece(2) by (simp add: flowing_conn)
    note p = process_flowing [OF this READ_BUF_small [OF piece(1)], of E Q]
    have nc: "\<not> closed ?s" using p(1) by (simp add: flowing_def)
    show ?thesis
    proof (cases "x = []")
      case True
      with piece p nc show ?thesis by (intro exI [of _ ?s] exI [of _ "[]"]) (simp add: Let_def)
    next
      case False
      have "length (arrived (conn ?s) i) < n" using False piece(2) p(3) Suc.prems(3) by (cases x) simp_all
      with Suc.IH [of ?s] p piece obtain s' pieces where
        "read_loop n E Q i False ?s = Done (Some None, s')" "flowing i bidi 0 s'"
        "evs s' = evs ?s @ map (EvStreamData i) pieces" "[] \<notin> set pieces" "concat pieces = arrived c i"
        by auto
      with False piece p nc show ?thesis by (intro exI [of _ s'] exI [of _ "x # pieces"]) (simp add: Let_def)
    qed
  qed
qed simp

lemma read_awaiting:
  assumes "stream_laws Q arrived ended" and "e_alloc E = Some"
  shows "awaiting i bidi got (length (arrived (conn s) i)) s \<Longrightarrow> \<not> ended (conn s) i \<Longrightarrow> length (arrived (conn s) i) < n \<Longrightarrow>
    length got < 3 \<Longrightarrow> got @ arrived (conn s) i @ later = stream_prefix bidi @ data \<Longrightarrow>
    \<exists>s' pieces. read_loop n E Q i False s = Done (Some None, s') \<and> \<not> closed s'
      \<and> evs s' = evs s @ (if length (got @ arrived (conn s) i) < 3 then []
                          else EvIncomingStream i bidi # map (EvStreamData i) pieces)
      \<and> [] \<notin> set pieces \<and> concat pieces = drop 3 (got @ arrived (conn s) i)"
proof (induction n arbitrary: s got)
  case (Suc n)
  note wire = Suc.prems(5)
  obtain st where st: "get_stream s i = Some st" using Suc.prems(1) by (auto simp: awaiting_def)
  show ?case
  proof (cases rule: read_step [OF assms(1) Suc.prems(2) st, where E = E and n = n, case_names empty piece])
    case (empty c)
    with Suc.prems(1,4) show ?thesis
      by (intro exI [of _ "s\<lparr>conn := c\<rparr>"] exI [of _ "[]"]) (simp add: awaiting_def)
  next
    case (piece x c)
    let ?c = "s\<lparr>conn := c\<rparr>"
    let ?s = "process_recv E Q i x False ?c"
    show ?thesis
    proof (cases "length (got @ x) < 3")
      case True
      have a: "awaiting i bidi got (length (arrived (conn s) i)) ?c" using Suc.prems(1) by (simp add: awaiting_conn)
      have "got @ x @ arrived c i @ later = stream_prefix bidi @ data" using wire piece(2) by simp
      note p = process_awaiting_short [OF a assms(2) piece(1) this True, of Q]
      have aw: "awaiting i bidi (got @ x) (length (arrived c i)) ?s"
        using p piece(2) by (auto simp: awaiting_def data_credit_def)
      have nc: "\<not> closed ?s" using p by (simp add: awaiting_def)
      show ?thesis
      proof (cases "x = []")
        case True
        with piece p nc Suc.prems(4) show ?thesis by (intro exI [of _ ?s] exI [of _ "[]"]) (simp add: Let_def)
      next
        case False
        have "length (arrived (conn ?s) i) < n" using False piece(2) p Suc.prems(3) by (cases x) simp_all
        with Suc.IH [of "got @ x" ?s] aw p piece True wire obtain s' pieces where
          "read_loop n E Q i False ?s = Done (Some None, s')" "\<not> closed s'"
          "evs s' = evs ?s @ (if length (got @ x @ arrived c i) < 3 then []
             else EvIncomingStream i bidi # map (EvStreamData i) pieces)"
          "[] \<notin> set pieces" "concat pieces = drop 3 (got @ x @ arrived c i)"
          by auto
        with False piece p nc show ?thesis by (intro exI [of _ s'] exI [of _ pieces]) (simp add: Let_def)
      qed
    next
      case False
      define d where "d = drop 3 (got @ x)"
      have pre: "got @ x = stream_prefix bidi @ d"
        unfolding d_def using preamble_whole [of "got @ x" "arrived c i @ later" bidi data] False wire piece(2) by simp
      have x: "x \<noteq> []" using False Suc.prems(4) by auto
      have "length (got @ x) = 3 + length d" unfolding pre by simp
      then have ld: "length d \<le> length x" using Suc.prems(4) by simp
      have "awaiting i bidi got (length d + length (arrived c i)) ?c"
        using Suc.prems(1) piece(2) ld by (auto simp: awaiting_def awaiting_conn data_credit_def get_stream_def stream_credit_def)
      from process_awaiting_whole [OF this assms(2) piece(1) Suc.prems(4) pre, of Q] obtain s1 where
        s1: "?s = incoming_stream i bidi 3 d False s1" "awaiting i bidi (got @ x) (length d + length (arrived c i)) s1"
          "evs s1 = evs s" "conn s1 = c" by auto
      have "length d < 2 ^ 64" using ld READ_BUF_small [OF piece(1)] by simp
      note p = incoming_stream_announced [OF s1(2) this, of 3, folded s1(1)]
      have nc: "\<not> closed ?s" using p by (simp add: flowing_def)
      have "length (arrived (conn ?s) i) < n" using x piece(2) p s1(4) Suc.prems(3) by (cases x) simp_all
      with read_flowing [OF assms(1), of i bidi ?s n E] p piece(3) s1(4) obtain s' pieces where
        "read_loop n E Q i False ?s = Done (Some None, s')" "flowing i bidi 0 s'"
        "evs s' = evs ?s @ map (EvStreamData i) pieces" "[] \<notin> set pieces" "concat pieces = arrived c i"
        by auto
      with x piece p nc s1(3) False show ?thesis
        by (intro exI [of _ s'] exI [of _ "(if d = [] then [] else [d]) @ pieces"])
          (auto simp: Let_def flowing_def d_def)
    qed
  qed
qed simp

section \<open>The sending side\<close>

definition write_all :: "u64 \<Rightarrow> (bytes \<times> u64) list \<Rightarrow> 'c sys \<Rightarrow> 'c sys" where
  "write_all i ws s = foldl (\<lambda>s (data, request_id). stream_write i data request_id s) s ws"

lemma write_all_queues:
  "get_stream s i = Some st \<Longrightarrow> chunks_ok (st_out st) \<Longrightarrow>
   \<exists>st'. get_stream (write_all i ws s) i = Some st' \<and> chunks_ok (st_out st') \<and> conn (write_all i ws s) = conn s
     \<and> pending_bytes (st_out st') = pending_bytes (st_out st) @ concat (map fst ws)"
proof (induction ws arbitrary: s st)
  case (Cons w ws)
  obtain d r where w: "w = (d, r)" by (cases w)
  let ?s = "stream_write i d r s" and ?st = "push_chunk d (Some r) st"
  have "get_stream ?s i = Some ?st" "conn ?s = conn s"
    using Cons.prems(1) by (simp_all add: stream_write_def stream_frame)
  moreover have "chunks_ok (st_out ?st)" "pending_bytes (st_out ?st) = pending_bytes (st_out st) @ d"
    using Cons.prems(2) by (simp_all add: push_chunk_def chunks_ok_def pending_bytes_def)
  ultimately show ?case using Cons.IH [of ?s ?st] w by (auto simp: write_all_def)
qed (simp add: write_all_def)

lemma allocate_queues_prefix:
  assumes "i = next_id bidi (sess s)"
  shows "\<exists>st. get_stream (allocate_stream bidi rid s) i = Some st \<and> chunks_ok (st_out st)
    \<and> conn (allocate_stream bidi rid s) = conn s \<and> pending_bytes (st_out st) = stream_prefix bidi"
proof -
  let ?st = "with_prefix (WtData bidi) (stream_prefix bidi)"
  have "get_stream (allocate_stream bidi rid s) i = Some ?st" "conn (allocate_stream bidi rid s) = conn s"
    using assms by (cases bidi; simp add: allocate_stream_def insert_stream_def stream_frame next_id_def stream_prefix_def Let_def)+
  moreover have "chunks_ok (st_out ?st)" "pending_bytes (st_out ?st) = stream_prefix bidi"
    by (simp_all add: with_prefix_def push_chunk_def Stream_new_def chunks_ok_def pending_bytes_def stream_prefix_bytes)
  ultimately show ?thesis by blast
qed

text \<open>Whatever part of the queue the transport takes, what it has sent is a prefix of preamble and data.\<close>

lemma sent_prefix:
  assumes "send_laws Q sent" and "i = next_id bidi (sess a)" and "sent (conn a) i = []"
    and "flush_stream Q i (write_all i ws (allocate_stream bidi rid a), w) = (a', w')"
  shows "\<exists>later. sent (conn a') i @ later = stream_prefix bidi @ concat (map fst ws)"
proof -
  obtain st where st: "get_stream (allocate_stream bidi rid a) i = Some st" "chunks_ok (st_out st)"
      "conn (allocate_stream bidi rid a) = conn a" "pending_bytes (st_out st) = stream_prefix bidi"
    using allocate_queues_prefix [OF assms(2)] by blast
  obtain st2 where st2: "get_stream (write_all i ws (allocate_stream bidi rid a)) i = Some st2" "chunks_ok (st_out st2)"
      "conn (write_all i ws (allocate_stream bidi rid a)) = conn a"
      "pending_bytes (st_out st2) = stream_prefix bidi @ concat (map fst ws)"
    using write_all_queues [OF st(1,2), of ws] st(3,4) by auto
  note fl = flush_stream_ok [OF assms(1) st2(1,2) assms(4)]
  have "\<exists>rest. sent (conn a') i @ rest = pending_bytes (st_out st2)
      \<or> (\<exists>n. sent (conn a') i = take n (pending_bytes (st_out st2)))"
    using fl st2(3) assms(3) by auto
  then show ?thesis using st2(4) by (metis append_take_drop_id)
qed

text \<open>The identifiers one side allocates are those the other side takes for its peer's streams.\<close>

lemma and_3: "unat ((i :: u64) AND 3) = unat i mod 4"
proof -
  have "i AND 3 = i mod 4"
    using take_bit_eq_mask [of 2 i] by (simp add: mask_eq_exp_minus_1 take_bit_eq_mod)
  then show ?thesis by (simp add: unat_mod_distrib)
qed

lemma classify_allocated:
  assumes "i = first_wt_id srv bidi + 4 * of_nat k" and "k < 2 ^ 60"
  shows "classify_new i (\<not> srv) = pending_role bidi"
proof -
  have k: "unat (of_nat k :: u64) = k" using assms(2) by (simp add: unat_of_nat take_bit_nat_eq_self)
  have "unat i = unat (first_wt_id srv bidi) + 4 * k"
    using assms k by (cases srv; cases bidi) (simp_all add: first_wt_id_def wt_consts unat_word_ariths)
  then have i: "unat (i AND 3) = unat (first_wt_id srv bidi) mod 4" "unat i \<noteq> 0"
    using k by (cases srv; cases bidi; simp add: and_3 first_wt_id_def wt_consts)+
  have w: "i AND 3 = of_nat (unat (first_wt_id srv bidi) mod 4)" unfolding i(1) [symmetric] by simp
  show ?thesis
    using w i(2) unfolding classify_new_def pending_role_def
    by (cases srv; cases bidi) (auto simp: first_wt_id_def wt_consts)
qed

section \<open>From one application to the other\<close>

text \<open>A session that can take \<open>n\<close> bytes on a stream it has not seen yet.\<close>

definition can_take :: "u64 \<Rightarrow> bool \<Rightarrow> nat \<Rightarrow> 'c sys \<Rightarrow> bool" where
  "can_take i bidi n s \<longleftrightarrow> \<not> closed s \<and> get_stream s i = None \<and> data_credit s n \<and> stream_credit s bidi
     \<and> pm_ok (memory s) \<and> pm_fits (memory s) (4 * preamble_cap + 2)"

lemma entry_awaiting:
  assumes "can_take i bidi n s" and "classify_new i (s_is_server (sess s)) = pending_role bidi"
  shows "awaiting i bidi [] n (entry_or_insert i s)" and "evs (entry_or_insert i s) = evs s"
    and "conn (entry_or_insert i s) = conn s" and "get_stream (entry_or_insert i s) i = Some (Stream_new (pending_role bidi))"
proof -
  let ?st = "Stream_new (pending_role bidi)"
  have n: "map_of (s_streams (sess s)) i = None" using assms(1) by (simp add: can_take_def get_stream_def)
  have e: "entry_or_insert i s = upd (\<lambda>w. w\<lparr>s_streams := AList.update i ?st (s_streams w)\<rparr>) s"
    using n assms(2) by (simp add: entry_or_insert_def insert_stream_def get_stream_def upd_def)
  have room: "roomy preamble_cap (memory s) ParserBuffer_new"
    using assms(1) by (simp add: roomy_new can_take_def preamble_cap_def READ_BUF_def)
  have u: "uses_session_flow_control (sess (entry_or_insert i s)) = uses_session_flow_control (sess s)"
    unfolding e by (rule uses_fc_cong) (simp add: upd_def)
  show "get_stream (entry_or_insert i s) i = Some ?st" unfolding e by (simp add: stream_frame)
  show "evs (entry_or_insert i s) = evs s" "conn (entry_or_insert i s) = conn s" unfolding e by (simp_all add: upd_def)
  have "get_stream (entry_or_insert i s) i = Some ?st" "memory (entry_or_insert i s) = memory s"
    "s_closed (sess (entry_or_insert i s)) = closed s"
    "data_credit (entry_or_insert i s) n = data_credit s n" "stream_credit (entry_or_insert i s) bidi = stream_credit s bidi"
    unfolding data_credit_def stream_credit_def u unfolding e by (simp_all add: stream_frame)
  with assms(1) room show "awaiting i bidi [] n (entry_or_insert i s)"
    unfolding awaiting_def by (simp add: can_take_def Stream_new_def ParserBuffer_new_def)
qed

text \<open>
  Claim C1. Data crosses from one application to the other unchanged: when one side opens a stream
  and writes to it, and some of what it has flushed has arrived, reading the stream on the other
  side announces it once, with its direction, and hands out its payload as non-empty pieces that
  make up exactly the bytes arrived beyond the preamble, in order; before the preamble is complete
  nothing is reported. Neither the transport's segmentation nor the reader's buffer matters, and the
  accumulator of the preamble never outgrows a reservation of the budget.
\<close>

theorem stream_end_to_end:
  assumes "send_laws Qa sent" and "stream_laws Qb arrived ended" and "e_alloc E = Some"
    and "i = next_id bidi (sess a)" and "i = first_wt_id (s_is_server (sess a)) bidi + 4 * of_nat k" and "k < 2 ^ 60"
    and "sent (conn a) i = []"
    and "flush_stream Qa i (write_all i ws (allocate_stream bidi rid a), w) = (a', w')"
    and "sent (conn a') i = arrived (conn b) i @ in_flight" and "\<not> ended (conn b) i"
    and "s_is_server (sess b) \<noteq> s_is_server (sess a)" and "can_take i bidi (length (arrived (conn b) i)) b"
    and "length (arrived (conn b) i) < n"
  shows "\<exists>b' pieces. on_readable n E Qb i False b = Done b' \<and> \<not> closed b'
    \<and> evs b' = evs b @ (if length (arrived (conn b) i) < 3 then []
                         else EvIncomingStream i bidi # map (EvStreamData i) pieces)
    \<and> [] \<notin> set pieces \<and> concat pieces = take (length (arrived (conn b) i) - 3) (concat (map fst ws))"
proof -
  let ?got = "arrived (conn b) i" and ?data = "concat (map fst ws)"
  obtain later where "sent (conn a') i @ later = stream_prefix bidi @ ?data"
    using sent_prefix [OF assms(1,4,7,8)] by blast
  then have wire: "?got @ in_flight @ later = stream_prefix bidi @ ?data" using assms(9) by simp
  have "s_is_server (sess b) = (\<not> s_is_server (sess a))" using assms(11) by simp
  then have role: "classify_new i (s_is_server (sess b)) = pending_role bidi"
    using classify_allocated [OF assms(5,6)] by simp
  note e = entry_awaiting [OF assms(12) role]
  have "\<exists>b' pieces. read_loop n E Qb i False (entry_or_insert i b) = Done (Some None, b') \<and> \<not> closed b'
      \<and> evs b' = evs (entry_or_insert i b) @ (if length ([] @ ?got) < 3 then []
                          else EvIncomingStream i bidi # map (EvStreamData i) pieces)
      \<and> [] \<notin> set pieces \<and> concat pieces = drop 3 ([] @ ?got)"
    using read_awaiting [OF assms(2,3), of i bidi "[]" "entry_or_insert i b" n "in_flight @ later" ?data] e(1,3) wire assms(10,13)
    by simp
  then obtain b' pieces where r: "read_loop n E Qb i False (entry_or_insert i b) = Done (Some None, b')" "\<not> closed b'"
      "evs b' = evs b @ (if length ?got < 3 then [] else EvIncomingStream i bidi # map (EvStreamData i) pieces)"
      "[] \<notin> set pieces" "concat pieces = drop 3 ?got"
    using e(2) by auto
  have "on_readable n E Qb i False b = Done b'"
    using r(1) e(4) assms(12) by (simp add: on_readable_def can_take_def Stream_new_def)
  moreover have "drop 3 ?got = take (length ?got - 3) ?data"
  proof -
    have "drop 3 ?got = take (length ?got - 3) (drop 3 (?got @ in_flight @ later))" by simp
    also have "drop 3 (?got @ in_flight @ later) = ?data" unfolding wire by simp
    finally show ?thesis .
  qed
  ultimately show ?thesis using r by auto
qed

definition mini_arrived :: "mini \<Rightarrow> u64 \<Rightarrow> bytes" where
  "mini_arrived c i = (case map_of (mi_in c) i of None \<Rightarrow> [] | Some (bs, _) \<Rightarrow> bs)"

definition mini_ended :: "mini \<Rightarrow> u64 \<Rightarrow> bool" where
  "mini_ended c i = (case map_of (mi_in c) i of None \<Rightarrow> False | Some (_, f) \<Rightarrow> f)"

lemma mini_stream_laws: "stream_laws mini_quic mini_arrived mini_ended"
  unfolding stream_laws_def
proof (intro allI impI)
  fix c i n r c'
  assume r: "q_stream_recv mini_quic c i n = (r, c')" and n: "0 < n" and e: "\<not> mini_ended c i"
  show "case r of Inr (x, f) \<Rightarrow> \<not> f \<and> length x \<le> n \<and> mini_arrived c i = x @ mini_arrived c' i \<and> \<not> mini_ended c' i
           \<and> (x = [] \<longrightarrow> mini_arrived c i = [])
         | Inl e \<Rightarrow> e = QDone \<and> mini_arrived c i = []"
  proof (cases "map_of (mi_in c) i")
    case None
    with r show ?thesis by (auto simp: mini_quic_def mini_recv_def mini_arrived_def)
  next
    case (Some v)
    obtain bs f where v: "v = (bs, f)" by (cases v)
    with Some r n e show ?thesis
      by (auto simp: mini_quic_def mini_recv_def mini_arrived_def mini_ended_def split: if_splits)
  qed
qed

theorem stream_end_to_end_witness:
  "\<exists>b' pieces. on_readable 9 (mini_env []) mini_quic 4 False (session_start (new_server (''::1'', 443) [] None [] (ParserMemory_new 100000))
        (mini_idle\<lparr>mi_in := [(4, [0x40, 0x41, 0, 7], False)]\<rparr>)) = Done b'
    \<and> evs b' = EvIncomingStream 4 True # map (EvStreamData 4) pieces \<and> concat pieces = [7]"
proof -
  let ?a = "session_start (new_client [] [] None [] []) mini_idle"
  let ?b = "session_start (new_server (''::1'', 443) [] None [] (ParserMemory_new 100000))
      (mini_idle\<lparr>mi_in := [(4, [0x40, 0x41, 0, 7], False)]\<rparr>)"
  let ?ws = "[([7, 8], 1)] :: (bytes \<times> u64) list"
  obtain a' w' where fl: "flush_stream mini_quic 4 (write_all 4 ?ws (allocate_stream True 9 ?a), 0) = (a', w')" by fastforce
  have "mini_sent (conn (fst (flush_stream mini_quic 4 (write_all 4 ?ws (allocate_stream True 9 ?a), 0)))) 4 = [0x40, 0x41, 0, 7, 8]"
    by (simp add: write_all_def stream_write_def allocate_stream_def session_start_def new_client_def insert_stream_def
        stream_frame Let_def with_prefix_def push_chunk_def Stream_new_def put_varint_def wt_consts hm_modify_def
        flush_stream_def reconcile_send_final_size_def mini_quic_def uses_session_flow_control_def chunk_rest_def
        chunk_amount_def mini_send_def mini_idle_def mini_sent_def)
  then have sent: "mini_sent (conn a') 4 = mini_arrived (conn ?b) 4 @ [8]"
    using fl by (simp add: mini_arrived_def session_start_def)
  have arr: "mini_arrived (conn ?b) 4 = [0x40, 0x41, 0, 7]" "\<not> mini_ended (conn ?b) 4" "mini_sent (conn ?a) 4 = []" "evs ?b = []"
    by (simp_all add: mini_arrived_def mini_ended_def session_start_def mini_sent_def mini_idle_def)
  have ids: "4 = next_id True (sess ?a)" "4 = first_wt_id (s_is_server (sess ?a)) True + 4 * of_nat 0"
    "s_is_server (sess ?b) \<noteq> s_is_server (sess ?a)"
    by (simp_all add: session_start_def new_client_def new_server_def next_id_def first_wt_id_def wt_consts)
  have take: "can_take 4 True n ?b" for n
    by (simp add: can_take_def session_start_def new_server_def get_stream_def data_credit_def stream_credit_def
        uses_session_flow_control_def preamble_cap_def READ_BUF_def ParserMemory_child_def ParserMemory_new_def wt_consts usize_max_def)
  have env: "e_alloc (mini_env []) = Some" by (simp add: mini_env_def)
  show ?thesis
    using stream_end_to_end [where k = 0 and n = 9, OF mini_send_laws mini_stream_laws env ids(1,2) _ arr(3) fl sent arr(2) ids(3) take]
    unfolding arr by auto
qed

end
