(* ===== verification/Session_Credit.thy ===== *)
theory Session_Credit
  imports Session_Wire
begin

text \<open>
  The two ends of a session agree on flow-control credit: the limits one side announces, in its
  SETTINGS and then in capsules, are the limits it enforces, and the other side accepts every one
  of them.
\<close>

section \<open>Credit at both ends\<close>

text \<open>The limits a session enforces, and those it has been granted, for data and per direction for streams.\<close>

definition enforced :: "wt_session \<Rightarrow> u64 \<times> u64 \<times> u64" where
  "enforced w = (s_fc_max_data_local w, s_fc_max_streams_local w True, s_fc_max_streams_local w False)"

definition granted :: "wt_session \<Rightarrow> u64 \<times> u64 \<times> u64" where
  "granted w = (s_fc_max_data_remote w, s_fc_max_streams_bidi_remote w, s_fc_max_streams_uni_remote w)"

text \<open>Limits fit their encoding, and the first grant is above what SETTINGS announced.\<close>

definition credit_ok :: "wt_session \<Rightarrow> bool" where
  "credit_ok w \<longleftrightarrow> s_fc_max_data_local w < 2 ^ 62 \<and> s_fc_max_streams_local w True \<le> push_bit 60 1
     \<and> s_fc_max_streams_local w False \<le> push_bit 60 1
     \<and> (\<not> s_fc_credit_granted w \<longrightarrow> s_fc_max_data_local w < WT_GRANT_MAX_DATA
         \<and> s_fc_max_streams_local w True < WT_GRANT_MAX_STREAMS \<and> s_fc_max_streams_local w False < WT_GRANT_MAX_STREAMS)"

text \<open>The peer takes the values of the credit capsules in the order they were queued.\<close>

fun accept_credits :: "(u64 \<times> u64) list \<Rightarrow> 'c sys \<Rightarrow> bool \<times> 'c sys" where
  "accept_credits [] p = (True, p)"
| "accept_credits ((ty, v) # cs) p =
     (case apply_capsule ty (put_varint v []) p of
        (True, p') \<Rightarrow> accept_credits cs p'
      | (False, p') \<Rightarrow> (False, p'))"

lemma accept_credits_append:
  "accept_credits cs p = (True, p') \<Longrightarrow> accept_credits (cs @ ds) p = accept_credits ds p'"
  by (induction cs p rule: accept_credits.induct) (auto split: prod.splits bool.splits)

definition capsule_chunk :: "u64 \<times> u64 \<Rightarrow> out_chunk" where
  "capsule_chunk = (\<lambda>(ty, v). \<lparr>oc_data = session_capsule ty v, oc_off = 0, oc_request_id = None\<rparr>)"

text \<open>
  What one operation of the granting side does: it queues credit capsules on the session stream
  such that a peer in agreement before is in agreement again once it has taken them.
\<close>

definition credit_wire :: "u64 \<times> u64 \<Rightarrow> bool" where
  "credit_wire = (\<lambda>(ty, v). vi.split (session_capsule ty v) = Some (FRAME_DATA, vi.tlv ty (put_varint v []), [])
     \<and> vi.split (vi.tlv ty (put_varint v [])) = Some (ty, put_varint v [], []))"

lemma credit_wireI:
  assumes "ty < 2 ^ 62"
  shows "credit_wire (ty, v)"
proof -
  let ?val = "put_varint v []" and ?cap = "vi.tlv ty (put_varint v [])"
  have vl: "length (put_varint x []) \<le> 8" for x by (simp add: varint_len_def)
  have n: "(of_nat k :: u64) < 2 ^ 62" "unat (of_nat k :: u64) = k" if "k \<le> 32" for k
    using that by (simp_all add: word_less_nat_alt unat_of_nat take_bit_nat_eq_self)
  have cl: "length ?cap \<le> 32" using vl [of ty] vl [of v] vl [of "of_nat (length ?val)"] by (simp add: vi.tlv_def)
  have f: "session_capsule ty v = frame FRAME_DATA ?cap"
    by (simp add: session_capsule_def vi.tlv_def Let_def put_varint_append [of _ "put_varint ty []"])
  have "vi.split ?cap = Some (ty, ?val, [])"
    using vi.split_tlv [of ty ?val "[]"] assms vl [of v] n [of "length ?val"] by simp
  moreover have "vi.split (session_capsule ty v) = Some (FRAME_DATA, ?cap, [])"
    unfolding f frame_tlv using vi.split_tlv [of FRAME_DATA ?cap "[]"] cl n [of "length ?cap"] by (simp add: wt_consts)
  ultimately show ?thesis by (simp add: credit_wire_def)
qed

definition grants :: "'c sys \<Rightarrow> 'c sys \<Rightarrow> (u64 \<times> u64) list \<Rightarrow> bool" where
  "grants g g' cs \<longleftrightarrow>
     (credit_ok (sess g) \<longrightarrow> credit_ok (sess g')) \<and> list_all credit_wire cs
     \<and> get_stream g' CONNECT_ID = map_option (\<lambda>st. st\<lparr>st_out := st_out st @ map capsule_chunk cs\<rparr>) (get_stream g CONNECT_ID)
     \<and> (\<forall>p :: 'c sys. credit_ok (sess g) \<and> \<not> closed p \<and> granted (sess p) = enforced (sess g) \<longrightarrow>
          (\<exists>p'. accept_credits cs p = (True, p') \<and> granted (sess p') = enforced (sess g') \<and> \<not> closed p' \<and> evs p' = evs p))"

lemma grants_refl: "grants g g []"
  by (simp add: grants_def option.map_ident)

lemma grants_trans: "grants a b cs \<Longrightarrow> grants b c ds \<Longrightarrow> grants a c (cs @ ds)"
  unfolding grants_def by (fastforce simp: option.map_comp comp_def accept_credits_append)

section \<open>The peer accepts an increase\<close>

lemma credit_capsules [simp]:
  "is_fc_capsule WT_MAX_DATA_CAPSULE" "is_fc_capsule WT_MAX_STREAMS_BIDI_CAPSULE" "is_fc_capsule WT_MAX_STREAMS_UNI_CAPSULE"
  "WT_MAX_DATA_CAPSULE \<noteq> WT_CLOSE_SESSION_CAPSULE" "WT_MAX_STREAMS_BIDI_CAPSULE \<noteq> WT_CLOSE_SESSION_CAPSULE"
  "WT_MAX_STREAMS_UNI_CAPSULE \<noteq> WT_CLOSE_SESSION_CAPSULE" "WT_MAX_DATA_CAPSULE \<noteq> WT_DRAIN_SESSION_CAPSULE"
  "WT_MAX_STREAMS_BIDI_CAPSULE \<noteq> WT_DRAIN_SESSION_CAPSULE" "WT_MAX_STREAMS_UNI_CAPSULE \<noteq> WT_DRAIN_SESSION_CAPSULE"
  "WT_MAX_STREAMS_BIDI_CAPSULE \<noteq> WT_MAX_DATA_CAPSULE" "WT_MAX_STREAMS_UNI_CAPSULE \<noteq> WT_MAX_DATA_CAPSULE"
  "WT_MAX_STREAMS_UNI_CAPSULE \<noteq> WT_MAX_STREAMS_BIDI_CAPSULE"
  by (simp_all add: is_fc_capsule_def wt_consts)

lemma apply_credit_capsule:
  assumes "is_fc_capsule ty" and "ty \<noteq> WT_CLOSE_SESSION_CAPSULE" and "ty \<noteq> WT_DRAIN_SESSION_CAPSULE" and "v < 2 ^ 62"
    and "ty \<noteq> WT_MAX_DATA_CAPSULE \<Longrightarrow> \<not> push_bit 60 1 < v"
  shows "apply_capsule ty (put_varint v []) p = apply_credit ty v p"
proof -
  have r: "read_varint (put_varint v []) = Some (v, length (put_varint v []))" using assms(4) by simp
  show ?thesis unfolding apply_capsule_def r using assms(1-3,5) by auto
qed

lemma apply_max_data:
  assumes "v < 2 ^ 62" and "s_fc_max_data_remote (sess p) < v"
  shows "apply_capsule WT_MAX_DATA_CAPSULE (put_varint v []) p = (True, upd (\<lambda>w. w\<lparr>s_fc_max_data_remote := v\<rparr>) p)"
proof -
  have "\<not> v \<le> s_fc_max_data_remote (sess p)" using assms(2) by simp
  with assms(1) show ?thesis by (simp only: apply_credit_capsule [of WT_MAX_DATA_CAPSULE] credit_capsules simp_thms) (simp add: apply_credit_def)
qed

lemma small_limit: "v \<le> push_bit 60 1 \<Longrightarrow> v < (2 ^ 62 :: u64)"
  by (simp add: word_le_nat_alt word_less_nat_alt)

lemma apply_max_bidi:
  assumes "v \<le> push_bit 60 1" and "s_fc_max_streams_bidi_remote (sess p) < v"
  shows "apply_capsule WT_MAX_STREAMS_BIDI_CAPSULE (put_varint v []) p
    = (True, upd (\<lambda>w. w\<lparr>s_fc_max_streams_bidi_remote := v\<rparr>) p)"
proof -
  have "\<not> push_bit 60 1 < v" "\<not> v \<le> s_fc_max_streams_bidi_remote (sess p)" using assms by (simp_all only: not_less not_le)
  with apply_credit_capsule [of WT_MAX_STREAMS_BIDI_CAPSULE v p, OF _ _ _ small_limit [OF assms(1)]] show ?thesis
    by (simp add: apply_credit_def del: push_bit_of_1)
qed

lemma apply_max_uni:
  assumes "v \<le> push_bit 60 1" and "s_fc_max_streams_uni_remote (sess p) < v"
  shows "apply_capsule WT_MAX_STREAMS_UNI_CAPSULE (put_varint v []) p
    = (True, upd (\<lambda>w. w\<lparr>s_fc_max_streams_uni_remote := v\<rparr>) p)"
proof -
  have "\<not> push_bit 60 1 < v" "\<not> v \<le> s_fc_max_streams_uni_remote (sess p)" using assms by (simp_all only: not_less not_le)
  with apply_credit_capsule [of WT_MAX_STREAMS_UNI_CAPSULE v p, OF _ _ _ small_limit [OF assms(1)]] show ?thesis
    by (simp add: apply_credit_def del: push_bit_of_1)
qed

section \<open>Each grant\<close>

lemma queue_capsule_stream:
  "get_stream (queue_session_capsule ty v s) CONNECT_ID
     = map_option (\<lambda>st. st\<lparr>st_out := st_out st @ [capsule_chunk (ty, v)]\<rparr>) (get_stream s CONNECT_ID)"
  "enforced (sess (queue_session_capsule ty v s)) = enforced (sess s)"
  "credit_ok (sess (queue_session_capsule ty v s)) = credit_ok (sess s)"
  by (cases "get_stream s CONNECT_ID"; simp add: queue_session_capsule_def modify_stream_def get_stream_def upd_def
      push_chunk_def capsule_chunk_def enforced_def credit_ok_def)+

lemma grants_flush_grant:
  shows "\<exists>cs. grants g (flush_grant g) cs"
proof (cases "s_ready (sess g) \<and> \<not> s_fc_credit_granted (sess g) \<and> \<not> closed g")
  case False
  then have "flush_grant g = g" by (auto simp: flush_grant_def)
  then show ?thesis using grants_refl by metis
next
  case True
  let ?cs = "[(WT_MAX_DATA_CAPSULE, WT_GRANT_MAX_DATA), (WT_MAX_STREAMS_BIDI_CAPSULE, WT_GRANT_MAX_STREAMS),
      (WT_MAX_STREAMS_UNI_CAPSULE, WT_GRANT_MAX_STREAMS)]"
  let ?u = "upd (\<lambda>w. w\<lparr>s_fc_credit_granted := True, s_fc_max_data_local := WT_GRANT_MAX_DATA,
                s_fc_max_streams_local := (\<lambda>_. WT_GRANT_MAX_STREAMS)\<rparr>) g"
  have g': "flush_grant g = queue_session_capsule WT_MAX_STREAMS_UNI_CAPSULE WT_GRANT_MAX_STREAMS
      (queue_session_capsule WT_MAX_STREAMS_BIDI_CAPSULE WT_GRANT_MAX_STREAMS
        (queue_session_capsule WT_MAX_DATA_CAPSULE WT_GRANT_MAX_DATA ?u))"
    using True by (simp add: flush_grant_def Let_def)
  have fits: "WT_GRANT_MAX_DATA < 2 ^ 62" "WT_GRANT_MAX_STREAMS \<le> push_bit 60 1"
    by (simp_all add: wt_consts push_bit_eq_mult)
  have ok: "credit_ok (sess (flush_grant g))"
    unfolding g' queue_capsule_stream using fits by (simp add: credit_ok_def upd_def)
  have st: "get_stream (flush_grant g) CONNECT_ID = map_option (\<lambda>st. st\<lparr>st_out := st_out st @ map capsule_chunk ?cs\<rparr>) (get_stream g CONNECT_ID)"
    unfolding g' queue_capsule_stream by (simp add: option.map_comp comp_def get_stream_def upd_def)
  have en: "enforced (sess (flush_grant g)) = (WT_GRANT_MAX_DATA, WT_GRANT_MAX_STREAMS, WT_GRANT_MAX_STREAMS)"
    unfolding g' queue_capsule_stream by (simp add: enforced_def upd_def)
  have "\<exists>p'. accept_credits ?cs p = (True, p') \<and> granted (sess p') = enforced (sess (flush_grant g)) \<and> \<not> closed p' \<and> evs p' = evs p"
    if "credit_ok (sess g)" "\<not> closed p" "granted (sess p) = enforced (sess g)" for p :: "'a sys"
  proof -
    have lt: "s_fc_max_data_remote (sess p) < WT_GRANT_MAX_DATA" "s_fc_max_streams_bidi_remote (sess p) < WT_GRANT_MAX_STREAMS"
      "s_fc_max_streams_uni_remote (sess p) < WT_GRANT_MAX_STREAMS"
      using that True by (auto simp: credit_ok_def granted_def enforced_def)
    let ?p1 = "upd (\<lambda>w. w\<lparr>s_fc_max_data_remote := WT_GRANT_MAX_DATA\<rparr>) p"
    let ?p2 = "upd (\<lambda>w. w\<lparr>s_fc_max_streams_bidi_remote := WT_GRANT_MAX_STREAMS\<rparr>) ?p1"
    have "s_fc_max_streams_bidi_remote (sess ?p1) < WT_GRANT_MAX_STREAMS" "s_fc_max_streams_uni_remote (sess ?p2) < WT_GRANT_MAX_STREAMS"
      using lt by (simp_all add: upd_def)
    then have "accept_credits ?cs p = (True, upd (\<lambda>w. w\<lparr>s_fc_max_streams_uni_remote := WT_GRANT_MAX_STREAMS\<rparr>) ?p2)"
      using apply_max_data [OF fits(1) lt(1)] apply_max_bidi [OF fits(2), of ?p1] apply_max_uni [OF fits(2), of ?p2] by simp
    then show ?thesis using that(2) by (simp add: en granted_def upd_def)
  qed
  moreover have "list_all credit_wire ?cs" by (auto intro!: credit_wireI simp: wt_consts)
  ultimately show ?thesis using ok st unfolding grants_def by blast
qed

lemma grants_data:
  assumes "s_fc_credit_granted (sess g)" and "limit < 2 ^ 62" and "s_fc_max_data_local (sess g) < limit"
  shows "grants g (queue_session_capsule WT_MAX_DATA_CAPSULE limit (upd (\<lambda>w. w\<lparr>s_fc_max_data_local := limit\<rparr>) g))
    [(WT_MAX_DATA_CAPSULE, limit)]"
  unfolding grants_def queue_capsule_stream
proof (intro conjI allI impI)
  fix p :: "'a sys"
  assume p: "credit_ok (sess g) \<and> \<not> closed p \<and> granted (sess p) = enforced (sess g)"
  then have "s_fc_max_data_remote (sess p) < limit" using assms(3) by (simp add: granted_def enforced_def)
  from apply_max_data [OF assms(2) this] p
  show "\<exists>p'. accept_credits [(WT_MAX_DATA_CAPSULE, limit)] p = (True, p')
      \<and> granted (sess p') = enforced (sess (upd (\<lambda>w. w\<lparr>s_fc_max_data_local := limit\<rparr>) g)) \<and> \<not> closed p' \<and> evs p' = evs p"
    by (simp add: granted_def enforced_def upd_def)
qed (use assms in \<open>simp_all add: credit_ok_def upd_def get_stream_def credit_wireI wt_consts\<close>)

lemma grants_streams:
  assumes "s_fc_credit_granted (sess g)" and "limit \<le> push_bit 60 1" and "s_fc_max_streams_local (sess g) bidi < limit"
  shows "grants g (queue_session_capsule (if \<not> bidi then WT_MAX_STREAMS_UNI_CAPSULE else WT_MAX_STREAMS_BIDI_CAPSULE) limit
      (upd (\<lambda>w. w\<lparr>s_fc_max_streams_local := (s_fc_max_streams_local w)(bidi := limit)\<rparr>) g))
    [(if \<not> bidi then WT_MAX_STREAMS_UNI_CAPSULE else WT_MAX_STREAMS_BIDI_CAPSULE, limit)]"
  unfolding grants_def queue_capsule_stream
proof (intro conjI allI impI)
  fix p :: "'a sys"
  assume p: "credit_ok (sess g) \<and> \<not> closed p \<and> granted (sess p) = enforced (sess g)"
  then have "(if bidi then s_fc_max_streams_bidi_remote (sess p) else s_fc_max_streams_uni_remote (sess p)) < limit"
    using assms(3) by (auto simp: granted_def enforced_def)
  with apply_max_bidi [OF assms(2), of p] apply_max_uni [OF assms(2), of p] p
  show "\<exists>p'. accept_credits [(if \<not> bidi then WT_MAX_STREAMS_UNI_CAPSULE else WT_MAX_STREAMS_BIDI_CAPSULE, limit)] p = (True, p')
      \<and> granted (sess p') = enforced (sess (upd (\<lambda>w. w\<lparr>s_fc_max_streams_local := (s_fc_max_streams_local w)(bidi := limit)\<rparr>) g))
      \<and> \<not> closed p' \<and> evs p' = evs p"
    by (cases bidi) (simp_all add: granted_def enforced_def upd_def)
qed (use assms in \<open>cases bidi; simp add: credit_ok_def upd_def get_stream_def credit_wireI wt_consts\<close>)+

lemma granted_flag:
  "s_fc_credit_granted (sess (queue_session_capsule ty v s)) = s_fc_credit_granted (sess s)"
  by (simp add: queue_session_capsule_def modify_stream_def upd_def)

lemma grants_replenish_data:
  assumes "s_fc_credit_granted (sess g)"
  shows "\<exists>cs. grants g (replenish_data g) cs" and "s_fc_credit_granted (sess (replenish_data g))"
proof -
  define limit where "limit = min (saturating_add (s_fc_data_received (sess g)) WT_GRANT_MAX_DATA) (push_bit 62 1 - 1)"
  have "limit \<le> push_bit 62 1 - 1" by (simp add: limit_def)
  then have "limit < 2 ^ 62" by (simp add: word_le_nat_alt word_less_nat_alt)
  from grants_data [OF assms this] grants_refl [of g] show "\<exists>cs. grants g (replenish_data g) cs"
    unfolding replenish_data_def Let_def limit_def [symmetric] by auto
  show "s_fc_credit_granted (sess (replenish_data g))"
    using assms by (simp add: replenish_data_def Let_def granted_flag) (simp add: upd_def)
qed

lemma grants_replenish_streams:
  assumes "s_fc_credit_granted (sess g)"
  shows "\<exists>cs. grants g (replenish_streams bidi g) cs" and "s_fc_credit_granted (sess (replenish_streams bidi g))"
proof -
  define limit where "limit = min (saturating_add (s_fc_streams_received (sess g) bidi) WT_GRANT_MAX_STREAMS) (push_bit 60 1)"
  have "limit \<le> push_bit 60 1" by (simp only: limit_def min.cobounded2)
  from grants_streams [OF assms this, of bidi] grants_refl [of g] show "\<exists>cs. grants g (replenish_streams bidi g) cs"
    unfolding replenish_streams_def Let_def limit_def [symmetric] by (cases bidi) auto
  show "s_fc_credit_granted (sess (replenish_streams bidi g))"
    using assms by (simp add: replenish_streams_def Let_def granted_flag) (simp add: upd_def)
qed

lemma grants_flush_replenish: "\<exists>cs. grants g (flush_replenish g) cs"
proof (cases "s_fc_credit_granted (sess g)")
  case True
  note d = grants_replenish_data [OF True]
  note u = grants_replenish_streams [OF d(2), of False]
  note b = grants_replenish_streams [OF u(2), of True]
  have "\<exists>cs. grants g (replenish_streams True (replenish_streams False (replenish_data g))) cs"
    using d(1) u(1) b(1) grants_trans by metis
  then show ?thesis using grants_refl [of g] by (auto simp: flush_replenish_def)
qed (use grants_refl in \<open>auto simp: flush_replenish_def\<close>)

text \<open>The limits a new session enforces are those its SETTINGS announce.\<close>

lemma initial_credit:
  "credit_ok (new_client au pa og ex pr)" "credit_ok (new_server rem sp al rh root)"
  "enforced (new_client au pa og ex pr) = (WT_INITIAL_MAX_DATA, WT_INITIAL_MAX_STREAMS, WT_INITIAL_MAX_STREAMS)"
  "enforced (new_server rem sp al rh root) = (WT_INITIAL_MAX_DATA, WT_INITIAL_MAX_STREAMS, WT_INITIAL_MAX_STREAMS)"
  by (simp_all add: credit_ok_def enforced_def new_client_def new_server_def wt_consts)

lemma announced_credit:
  "parse_settings settings_payload = Inr \<lparr>enable_connect_protocol = True, h3_datagram = True, enable_webtransport = True,
     wt_max_sessions = 256, wt_initial_max_data = WT_INITIAL_MAX_DATA,
     wt_initial_max_streams_bidi = WT_INITIAL_MAX_STREAMS, wt_initial_max_streams_uni = WT_INITIAL_MAX_STREAMS\<rparr>"
proof -
  have "list_all (\<lambda>(i, v). i < 2 ^ 62 \<and> v < 2 ^ 62) settings_pairs" "distinct (map fst settings_pairs)"
    "list_all setting_ok settings_pairs" by code_simp+
  then have "parse_settings settings_payload = Inr (apply_settings settings_pairs PeerSettings_default)"
    by (simp add: settings_payload_def parse_settings_def parse_settings_loop_iff settings_decode_put_pairs)
  then show ?thesis by (simp add: settings_pairs_def apply_setting_def PeerSettings_default_def wt_consts)
qed

section \<open>Agreement\<close>

text \<open>
  Claim C5. Both ends always agree on the session's flow-control credit. A new session enforces exactly the
  limits its SETTINGS announce; and whenever a flush grants or replenishes credit, it queues capsules
  on the session stream that a peer in agreement accepts one by one (none of them is ever taken for
  credit that does not increase, so that the session would be closed), and
  after which the peer's limits are again the limits enforced.
\<close>

theorem credit_stays_in_sync:
  fixes g p :: "'c sys"
  assumes "credit_ok (sess g)" and "granted (sess p) = enforced (sess g)" and "\<not> closed p"
    and "get_stream g CONNECT_ID = Some st"
  shows "(\<exists>ps. parse_settings settings_payload = Inr ps
        \<and> enforced (new_client au pa og ex pr)
            = (wt_initial_max_data ps, wt_initial_max_streams_bidi ps, wt_initial_max_streams_uni ps)
        \<and> enforced (new_server rem sp al rh root) = enforced (new_client au pa og ex pr)
        \<and> credit_ok (new_client au pa og ex pr) \<and> credit_ok (new_server rem sp al rh root))
    \<and> (\<exists>cs p'. get_stream (flush_replenish (flush_grant g)) CONNECT_ID = Some (st\<lparr>st_out := st_out st @ map capsule_chunk cs\<rparr>)
      \<and> list_all credit_wire cs
      \<and> accept_credits cs p = (True, p') \<and> \<not> closed p' \<and> evs p' = evs p
      \<and> granted (sess p') = enforced (sess (flush_replenish (flush_grant g)))
      \<and> credit_ok (sess (flush_replenish (flush_grant g))))"
proof -
  obtain cs where "grants g (flush_replenish (flush_grant g)) cs"
    using grants_flush_grant [of g] grants_flush_replenish [of "flush_grant g"] grants_trans by metis
  with assms have "\<exists>p'. get_stream (flush_replenish (flush_grant g)) CONNECT_ID = Some (st\<lparr>st_out := st_out st @ map capsule_chunk cs\<rparr>)
      \<and> list_all credit_wire cs
      \<and> accept_credits cs p = (True, p') \<and> \<not> closed p' \<and> evs p' = evs p
      \<and> granted (sess p') = enforced (sess (flush_replenish (flush_grant g)))
      \<and> credit_ok (sess (flush_replenish (flush_grant g)))"
    by (auto simp: grants_def)
  then show ?thesis by (auto simp: initial_credit announced_credit)
qed

theorem credit_stays_in_sync_witness:
  "\<exists>cs p'. accept_credits cs ((session_start (new_client [] [] None [] []) mini_idle)
        \<lparr>sess := (new_client [] [] None [] [])\<lparr>s_fc_max_data_remote := WT_INITIAL_MAX_DATA,
           s_fc_max_streams_bidi_remote := WT_INITIAL_MAX_STREAMS, s_fc_max_streams_uni_remote := WT_INITIAL_MAX_STREAMS\<rparr>\<rparr>) = (True, p')
      \<and> granted (sess p') = (WT_GRANT_MAX_DATA, WT_GRANT_MAX_STREAMS, WT_GRANT_MAX_STREAMS)"
proof -
  let ?w = "(new_server (''::1'', 443) [] None [] (ParserMemory_new 1000))
      \<lparr>s_ready := True, s_streams := [(CONNECT_ID, Stream_new Connect)]\<rparr>"
  let ?g = "(session_start (new_client [] [] None [] []) mini_idle)\<lparr>sess := ?w\<rparr>"
  let ?p = "(session_start (new_client [] [] None [] []) mini_idle)
        \<lparr>sess := (new_client [] [] None [] [])\<lparr>s_fc_max_data_remote := WT_INITIAL_MAX_DATA,
           s_fc_max_streams_bidi_remote := WT_INITIAL_MAX_STREAMS, s_fc_max_streams_uni_remote := WT_INITIAL_MAX_STREAMS\<rparr>\<rparr>"
  have "credit_ok (sess ?g)" "granted (sess ?p) = enforced (sess ?g)" "\<not> closed ?p"
    "get_stream ?g CONNECT_ID = Some (Stream_new Connect)"
    by (simp_all add: credit_ok_def granted_def enforced_def new_server_def new_client_def get_stream_def wt_consts)
  from credit_stays_in_sync [OF this] obtain cs p' where "accept_credits cs ?p = (True, p')"
    "granted (sess p') = enforced (sess (flush_replenish (flush_grant ?g)))" by blast
  moreover have "enforced (sess (flush_replenish (flush_grant ?g))) = (WT_GRANT_MAX_DATA, WT_GRANT_MAX_STREAMS, WT_GRANT_MAX_STREAMS)"
    by (simp add: flush_grant_def flush_replenish_def uses_session_flow_control_def new_server_def Let_def upd_def
        queue_session_capsule_def modify_stream_def enforced_def)
  ultimately show ?thesis by auto
qed

end
