(* ===== verification/Server_Commands.thy ===== *)
theory Server_Commands
  imports Server_Claims
begin

text \<open>
  The commands of the application, in the server and in the client. The two have a copy each of the
  dispatch (\<^verbatim>\<open>apply_command\<close> in \<^verbatim>\<open>server.rs\<close>, the loop in \<^verbatim>\<open>driver.rs\<close>); here the server's, with all its
  sessions, is measured by the client's, with its one.
\<close>

section \<open>States that differ in memory and in earlier events\<close>

definition alike :: "ev list \<Rightarrow> ev list \<Rightarrow> 'c sys \<Rightarrow> 'c sys \<Rightarrow> bool" where
  "alike a b s t \<longleftrightarrow> conn t = conn s \<and> (\<exists>m. sess t = (sess s)\<lparr>s_parser_memory := m\<rparr>)
     \<and> (\<exists>new. evs s = a @ new \<and> evs t = b @ new)"

lemma alike_views:
  assumes "alike a b s t"
  shows "conn t = conn s" "get_stream t i = get_stream s i" "closed t = closed s"
    "s_streams (sess t) = s_streams (sess s)" "s_is_server (sess t) = s_is_server (sess s)"
    "s_ready (sess t) = s_ready (sess s)"
    "s_next_bidi (sess t) = s_next_bidi (sess s)" "s_next_uni (sess t) = s_next_uni (sess s)"
    "s_pending_opens (sess t) = s_pending_opens (sess s)" "s_close_req (sess t) = s_close_req (sess s)"
    "s_drain_sent (sess t) = s_drain_sent (sess s)"
    "s_fc_max_streams_bidi_remote (sess t) = s_fc_max_streams_bidi_remote (sess s)"
    "s_fc_max_streams_uni_remote (sess t) = s_fc_max_streams_uni_remote (sess s)"
    "uses_session_flow_control (sess t) = uses_session_flow_control (sess s)"
    "stream_limit bidi (sess t) = stream_limit bidi (sess s)" "next_id bidi (sess t) = next_id bidi (sess s)"
  using assms by (auto simp: alike_def get_stream_def uses_session_flow_control_def stream_limit_def next_id_def)

lemma alike_push: "alike a b s t \<Longrightarrow> alike a b (push_ev e s) (push_ev e t)"
  by (auto simp: alike_def push_ev_def)

lemma alike_conn: "alike a b s t \<Longrightarrow> alike a b (s\<lparr>conn := c\<rparr>) (t\<lparr>conn := c\<rparr>)"
  by (auto simp: alike_def)

lemma alike_upd:
  "alike a b s t \<Longrightarrow> (\<And>w m. \<exists>m'. f (w\<lparr>s_parser_memory := m\<rparr>) = (f w)\<lparr>s_parser_memory := m'\<rparr>) \<Longrightarrow> alike a b (upd f s) (upd f t)"
  by (auto simp: alike_def upd_def)

text \<open>A change that neither reads nor writes the memory.\<close>

lemma alike_upd_apart:
  "alike a b s t \<Longrightarrow> (\<And>w m. f (w\<lparr>s_parser_memory := m\<rparr>) = (f w)\<lparr>s_parser_memory := m\<rparr>) \<Longrightarrow> alike a b (upd f s) (upd f t)"
  by (rule alike_upd) blast+

lemma alike_modify: "alike a b s t \<Longrightarrow> alike a b (modify_stream i f s) (modify_stream i f t)"
  unfolding modify_stream_def by (erule alike_upd_apart) simp

lemma alike_insert: "alike a b s t \<Longrightarrow> alike a b (insert_stream i st s) (insert_stream i st t)"
  unfolding insert_stream_def by (erule alike_upd) (auto split: option.split)

lemma alike_allocate: "alike a b s t \<Longrightarrow> alike a b (allocate_stream bidi r s) (allocate_stream bidi r t)"
  by (auto simp: allocate_stream_def Let_def alike_views(7,8) intro!: alike_push alike_insert alike_upd_apart)

lemma alike_release: "alike a b s t \<Longrightarrow> alike a b (release_opens ps s) (release_opens ps t)"
proof (induction ps arbitrary: s t)
  case (Cons p ps)
  obtain bidi r where p: "p = (bidi, r)" by fastforce
  let ?defer = "upd (\<lambda>w. w\<lparr>s_pending_opens := s_pending_opens w @ [(bidi, r)]\<rparr>)"
  have "alike a b (?defer s) (?defer t)" using Cons.prems by (rule alike_upd_apart) simp
  note IH = Cons.IH [OF this] Cons.IH [OF alike_allocate [OF Cons.prems, of bidi r]]
  show ?case
    unfolding p release_opens_Cons alike_views(5,14,15,16) [OF Cons.prems]
    using IH by simp
qed simp

lemma alike_open: "alike a b s t \<Longrightarrow> alike a b (open_stream bidi r s) (open_stream bidi r t)"
proof -
  assume al: "alike a b s t"
  let ?add = "upd (\<lambda>w. w\<lparr>s_pending_opens := s_pending_opens w @ [(bidi, r)]\<rparr>)"
  let ?none = "upd (\<lambda>w. w\<lparr>s_pending_opens := []\<rparr>)"
  have add: "alike a b (?add s) (?add t)" using al by (rule alike_upd_apart) simp
  then have "alike a b (?none (?add s)) (?none (?add t))" by (rule alike_upd_apart) simp
  with add show ?thesis
    by (simp add: open_stream_def release_pending_opens_def alike_views [OF add] alike_release)
qed

lemma alike_reconcile:
  "alike a b s t \<Longrightarrow> alike a b (reconcile_send_final_size Q i s) (reconcile_send_final_size Q i t)"
  by (auto simp: reconcile_send_final_size_def Let_def alike_views split: option.split intro!: alike_modify alike_upd_apart)

lemma alike_command:
  assumes "alike a b s t"
  shows "alike a b (run_command Q c s) (run_command Q c t)"
proof (cases c)
  case (ResetStream i code)
  have "alike a b (s\<lparr>conn := q\<rparr>) (t\<lparr>conn := q\<rparr>)" for q using assms by (rule alike_conn)
  then show ?thesis
    using assms by (auto simp: ResetStream stream_reset_def Let_def alike_views split: option.split
        intro!: alike_modify alike_reconcile)
next
  case (ExportKeyingMaterial r label ctx n)
  then show ?thesis
    using assms by (auto simp: alike_views split: prod.split intro!: alike_push alike_conn)
qed (use assms in \<open>auto simp: stream_write_def stream_fin_def stream_stop_sending_def set_paused_def send_datagram_def
       close_def send_drain_def Let_def alike_views split: option.split prod.split
       intro!: alike_open alike_modify alike_push alike_conn alike_upd_apart\<close>)

section \<open>The client's command in a server command\<close>

fun client_command :: "server_command \<Rightarrow> (u64 \<times> command) option" where
  "client_command (SOpenStream i r bidi) = Some (i, OpenStream r bidi)"
| "client_command (SWrite i s data r) = Some (i, Write s data r)"
| "client_command (SFin i s) = Some (i, Fin s)"
| "client_command (SResetStream i s code) = Some (i, ResetStream s code)"
| "client_command (SStopSending i s code) = Some (i, StopSending s code)"
| "client_command (SSetPaused i s p) = Some (i, SetPaused s p)"
| "client_command (SSendDatagram i data r) = Some (i, SendDatagram data r)"
| "client_command (SCloseSession i code reason) = Some (i, Close code reason)"
| "client_command (SDrain i) = Some (i, Drain)"
| "client_command (SGetStats i r) = Some (i, GetStats r)"
| "client_command (SExportKeyingMaterial i r label ctx n) = Some (i, ExportKeyingMaterial r label ctx n)"
| "client_command SShutdown = None"

text \<open>The commands for one session, up to the shutdown of the server, and the events it was tagged with.\<close>

definition commands_for :: "u64 \<Rightarrow> server_command list \<Rightarrow> command list" where
  "commands_for i cmds =
     List.map_filter (\<lambda>cmd. case client_command cmd of None \<Rightarrow> None | Some (j, c) \<Rightarrow> if j = i then Some c else None)
       (takeWhile (\<lambda>cmd. cmd \<noteq> SShutdown) cmds)"

definition msgs_of :: "u64 \<Rightarrow> server_msg list \<Rightarrow> ev list" where
  "msgs_of i msgs = concat (map (\<lambda>m. case m of SessionMsg j e \<Rightarrow> if j = i then [e] else [] | _ \<Rightarrow> []) msgs)"

lemma msgs_of_simps [simp]:
  "msgs_of i (a @ b) = msgs_of i a @ msgs_of i b" "msgs_of i (map (SessionMsg j) es) = (if j = i then es else [])"
  "msgs_of i [] = []"
proof -
  show "msgs_of i (map (SessionMsg j) es) = (if j = i then es else [])"
    unfolding msgs_of_def by (induction es) auto
qed (simp_all add: msgs_of_def)

lemma commands_for_simps:
  "commands_for i [] = []" "commands_for i (SShutdown # cmds) = []"
  "client_command cmd = Some (j, c) \<Longrightarrow> commands_for i (cmd # cmds) = (if j = i then [c] else []) @ commands_for i cmds"
  by (cases cmd; auto simp: commands_for_def List.map_filter_def)+

lemma client_command_cases:
  obtains "cmd = SShutdown" | j c where "client_command cmd = Some (j, c)" "command_session cmd = Some j" "cmd \<noteq> SShutdown" "c \<noteq> Shutdown"
    "\<And>s. session_command Q cmd s = run_command Q c s"
  by (cases cmd) (auto intro: that)

text \<open>The session \<open>i\<close> under \<open>key\<close> is where \<open>s\<close> is, up to the memory, and has reported the same since \<open>old\<close>.\<close>

definition keeps_up :: "u64 \<Rightarrow> bytes \<Rightarrow> ev list \<Rightarrow> 'c server_conn \<Rightarrow> 'c sys \<Rightarrow> 'c server \<Rightarrow> bool" where
  "keeps_up i key old sc s sv \<longleftrightarrow>
     (\<exists>m. map_of (sv_clients sv) key = Some (sc\<lparr>sc_conn := conn s, sc_session := (sess s)\<lparr>s_parser_memory := m\<rparr>\<rparr>))
     \<and> msgs_of i (sv_out sv) = old @ evs s"

lemma keeps_up_step:
  assumes up: "keeps_up i key old sc s sv" and key: "map_of (sv_sessions sv) i = Some key"
    and only: "\<forall>j. map_of (sv_sessions sv) j = Some key \<longrightarrow> j = i"
    and cmd: "client_command cmd = Some (j, c)" "command_session cmd = Some j" "\<And>s. session_command Q cmd s = run_command Q c s"
  shows "keeps_up i key old sc (if j = i then run_command Q c s else s) (apply_command Q cmd sv)"
proof -
  obtain m where m: "map_of (sv_clients sv) key = Some (sc\<lparr>sc_conn := conn s, sc_session := (sess s)\<lparr>s_parser_memory := m\<rparr>\<rparr>)"
    and out: "msgs_of i (sv_out sv) = old @ evs s"
    using up by (auto simp: keeps_up_def)
  show ?thesis
  proof (cases "j = i")
    case True
    let ?sc = "sc\<lparr>sc_conn := conn s, sc_session := (sess s)\<lparr>s_parser_memory := m\<rparr>\<rparr>"
    let ?t = "lend (sv_parser_memory sv) ?sc"
    have "alike (evs s) [] s ?t" by (auto simp: alike_def lend_def)
    from alike_command [OF this, of Q c] obtain m' new where
      t: "conn (run_command Q c ?t) = conn (run_command Q c s)"
        "sess (run_command Q c ?t) = (sess (run_command Q c s))\<lparr>s_parser_memory := m'\<rparr>"
        "evs (run_command Q c s) = evs s @ new" "evs (run_command Q c ?t) = new"
      by (auto simp: alike_def)
    have eq: "apply_command Q cmd sv = (give_back key ?sc ((run_command Q c ?t)\<lparr>evs := []\<rparr>) sv)
        \<lparr>sv_out := sv_out sv @ map (SessionMsg i) (evs (run_command Q c ?t))\<rparr>"
      using key m True by (simp add: apply_command_def cmd Let_def)
    show ?thesis
      unfolding eq keeps_up_def using True t out by (auto simp: give_back_def)
  next
    case False
    have "map_of (sv_clients (apply_command Q cmd sv)) key = map_of (sv_clients sv) key
        \<and> msgs_of i (sv_out (apply_command Q cmd sv)) = msgs_of i (sv_out sv)"
      using False only by (auto simp: apply_command_def cmd give_back_def Let_def split: option.split)
    with False m out show ?thesis by (auto simp: keeps_up_def)
  qed
qed

lemma give_back_tables:
  "map_of (sv_clients sv) key = Some sc' \<Longrightarrow> hm_keys (sv_clients (give_back key sc s sv)) = hm_keys (sv_clients sv)"
  "sv_sessions (give_back key sc s sv) = sv_sessions sv" "sv_routing (give_back key sc s sv) = sv_routing sv"
  by (simp_all add: give_back_def keys_update_Some)

lemma apply_command_tables:
  "sv_sessions (apply_command Q cmd sv) = sv_sessions sv \<and> sv_routing (apply_command Q cmd sv) = sv_routing sv
   \<and> hm_keys (sv_clients (apply_command Q cmd sv)) = hm_keys (sv_clients sv)"
  unfolding apply_command_def Let_def by (simp add: give_back_tables split: option.split)

lemma commands_keep_up:
  assumes "keeps_up i key old sc s sv" and "map_of (sv_sessions sv) i = Some key"
    and "\<forall>j. map_of (sv_sessions sv) j = Some key \<longrightarrow> j = i" and "drain_server_commands Q cmds sv = (stop, sv')"
  shows "keeps_up i key old sc (snd (drain_commands Q (commands_for i cmds) s)) sv'
    \<and> sv_sessions sv' = sv_sessions sv \<and> sv_routing sv' = sv_routing sv \<and> hm_keys (sv_clients sv') = hm_keys (sv_clients sv)
    \<and> (stop \<longleftrightarrow> SShutdown \<in> set cmds)"
  using assms
proof (induction cmds arbitrary: s sv)
  case Nil
  from Nil.prems(1,4) show ?case by (simp add: commands_for_simps)
next
  case (Cons cmd cmds)
  show ?case
  proof (cases rule: client_command_cases [where cmd = cmd and Q = Q])
    case 1
    from Cons.prems(1,4) 1 show ?thesis by (simp add: commands_for_simps)
  next
    case (2 j c)
    let ?sv = "apply_command Q cmd sv"
    let ?s = "if j = i then run_command Q c s else s"
    have up: "keeps_up i key old sc ?s ?sv" by (rule keeps_up_step [OF Cons.prems(1-3) 2(1,2,5)])
    have d: "drain_server_commands Q cmds ?sv = (stop, sv')" using Cons.prems(4) 2(3) by simp
    have client: "drain_commands Q (commands_for i (cmd # cmds)) s = drain_commands Q (commands_for i cmds) ?s"
      unfolding commands_for_simps(3) [OF 2(1)] using 2(4) by simp
    have tables: "sv_sessions ?sv = sv_sessions sv" "sv_routing ?sv = sv_routing sv" "hm_keys (sv_clients ?sv) = hm_keys (sv_clients sv)"
      by (simp_all only: apply_command_tables)
    have in_rest: "(SShutdown \<in> set (cmd # cmds)) = (SShutdown \<in> set cmds)" using 2(3) by auto
    have "map_of (sv_sessions ?sv) i = Some key" "\<forall>j. map_of (sv_sessions ?sv) j = Some key \<longrightarrow> j = i"
      unfolding tables by (fact Cons.prems(2,3))+
    from Cons.IH [OF up this d] show ?thesis by (simp only: client in_rest tables)
  qed
qed

text \<open>
  Claim C34. Sessions are isolated from each other's commands, and the server's dispatch agrees with
  the client's. Whatever commands the application queues, for whatever sessions and in whatever order,
  once they are drained every session is where a client's driver would have brought it with just the
  commands that name it, in their order, up to the shared memory budget; the events tagged with
  its id are the events of that driver, none of another session; the tables are left alone; and only
  a shutdown cuts the queue short.
\<close>

theorem commands_isolated:
  assumes "map_of (sv_sessions sv) i = Some key" and "map_of (sv_clients sv) key = Some sc"
    and "\<forall>j. map_of (sv_sessions sv) j = Some key \<longrightarrow> j = i" and "drain_server_commands Q cmds sv = (stop, sv')"
  shows "let s' = snd (drain_commands Q (commands_for i cmds) (lend (sv_parser_memory sv) sc)) in
      (\<exists>m. map_of (sv_clients sv') key = Some (sc\<lparr>sc_conn := conn s', sc_session := (sess s')\<lparr>s_parser_memory := m\<rparr>\<rparr>))
      \<and> msgs_of i (sv_out sv') = msgs_of i (sv_out sv) @ evs s'
      \<and> sv_sessions sv' = sv_sessions sv \<and> sv_routing sv' = sv_routing sv \<and> hm_keys (sv_clients sv') = hm_keys (sv_clients sv)
      \<and> (stop \<longleftrightarrow> SShutdown \<in> set cmds)"
proof -
  have "keeps_up i key (msgs_of i (sv_out sv)) sc (lend (sv_parser_memory sv) sc) sv"
    using assms(2) by (auto simp: keeps_up_def lend_def intro!: exI [of _ "s_parser_memory (sc_session sc)"])
  from commands_keep_up [OF this assms(1,3,4)] show ?thesis by (simp add: keeps_up_def Let_def)
qed

text \<open>Two sessions: one is closed, the other asked for its statistics.\<close>

definition two_sessions :: "mini server" where
  "two_sessions = new_connection mini_server_setup [8] mini_addr mini_idle
     (new_connection mini_server_setup [7] mini_addr mini_idle (server_start []))"

theorem commands_isolated_witness:
  "\<exists>sv' sc1 sc2. drain_server_commands mini_quic [SCloseSession 1 5 [65], SGetStats 2 9, SShutdown, SDrain 2] two_sessions = (True, sv')
     \<and> map_of (sv_clients sv') [7] = Some sc1 \<and> map_of (sv_clients sv') [8] = Some sc2
     \<and> s_close_req (sc_session sc1) = Some \<lparr>cr_code = 5, cr_reason = [65], cr_capsule_queued = False\<rparr>
     \<and> s_close_req (sc_session sc2) = None
     \<and> msgs_of 1 (sv_out sv') = [] \<and> msgs_of 2 (sv_out sv') = [build_stats mini_quic mini_idle 9]"
proof -
  let ?cmds = "[SCloseSession 1 5 [65], SGetStats 2 9, SShutdown, SDrain 2]"
  obtain stop sv' where d: "drain_server_commands mini_quic ?cmds two_sessions = (stop, sv')" by fastforce
  have tables: "map_of (sv_sessions two_sessions) 1 = Some [7]" "map_of (sv_sessions two_sessions) 2 = Some [8]"
    "\<forall>j. map_of (sv_sessions two_sessions) j = Some [7] \<longrightarrow> j = 1" "\<forall>j. map_of (sv_sessions two_sessions) j = Some [8] \<longrightarrow> j = 2"
    "sv_out two_sessions = []"
    by (simp_all add: two_sessions_def new_connection_def server_start_def Let_def)
  obtain sc1 sc2 where clients: "map_of (sv_clients two_sessions) [7] = Some sc1" "map_of (sv_clients two_sessions) [8] = Some sc2"
    "s_close_req (sc_session sc1) = None" "s_close_req (sc_session sc2) = None" "sc_conn sc2 = mini_idle"
    by (simp add: two_sessions_def new_connection_def server_start_def new_server_def Let_def)
  have cmds: "commands_for 1 ?cmds = [Close 5 [65]]" "commands_for 2 ?cmds = [GetStats 9]"
    by (simp_all add: commands_for_def List.map_filter_def)
  have reason: "truncate_close_reason [65] = [65]" by code_simp
  from commands_isolated [OF tables(1) clients(1) tables(3) d] commands_isolated [OF tables(2) clients(2) tables(4) d] d
  show ?thesis
    by (auto simp: Let_def cmds close_def upd_def push_ev_def lend_def clients tables(5) reason)
qed

end
