(* ===== verification/Session_Admission.thy ===== *)
theory Session_Admission
  imports Session_Life
begin

text \<open>
  How a session comes about: which CONNECT requests a server admits, what a client takes for an answer,
  and that the server reads from a client's request exactly what the client was asked to send.
\<close>

section \<open>Who is admitted\<close>

fun is_client_ready :: "ev \<Rightarrow> bool" where
  "is_client_ready (EvReady _ _) = True"
| "is_client_ready _ = False"

fun is_ready_ev :: "ev \<Rightarrow> bool" where
  "is_ready_ev (EvReady _ _) = True"
| "is_ready_ev (EvServerReady _ _ _ _ _ _ _ _) = True"
| "is_ready_ev _ = False"

text \<open>
  What a ready event may say, given the configuration of the session: a client's subprotocol is one it
  offered; a server's request comes from a permitted origin, its subprotocol is the first
  supported one among those requested, and the address is the peer's.
\<close>

fun admitted :: "wt_session \<Rightarrow> ev \<Rightarrow> bool" where
  "admitted w (EvReady p _) \<longleftrightarrow> offered (s_protocols w) p"
| "admitted w (EvServerReady _ _ orig _ req sel ip port) \<longleftrightarrow>
     origin_permitted (s_allowed_origins w) orig \<and> sel = select_protocol (s_supported_protocols w) req
     \<and> ip = peer_ip w \<and> port = peer_port w"
| "admitted w _ \<longleftrightarrow> True"

lemma admitted_config: "config w = config w' \<Longrightarrow> admitted w e = admitted w' e"
  by (cases e) (simp_all add: config_def peer_ip_def peer_port_def)

lemma ordinary_admitted: "ordinary e \<Longrightarrow> admitted w e \<and> \<not> is_ready_ev e \<and> \<not> is_client_ready e"
  by (cases e) simp_all

definition admits :: "'c sys \<Rightarrow> 'c sys \<Rightarrow> bool" where
  "admits a s \<longleftrightarrow>
     config (sess s) = config (sess a)
     \<and> (\<exists>new. evs s = evs a @ new \<and> list_all (admitted (sess a)) new
          \<and> (s_ready (sess s) \<longleftrightarrow> s_ready (sess a) \<or> list_ex is_ready_ev new)
          \<and> length (filter is_client_ready new) + of_bool (s_ready (sess a)) \<le> (of_bool (s_ready (sess s)) :: nat))"

lemma admitsI:
  "config (sess s) = config (sess a) \<Longrightarrow> evs s = evs a @ new \<Longrightarrow> list_all (admitted (sess a)) new \<Longrightarrow>
   (s_ready (sess s) \<longleftrightarrow> s_ready (sess a) \<or> list_ex is_ready_ev new) \<Longrightarrow>
   length (filter is_client_ready new) + of_bool (s_ready (sess a)) \<le> (of_bool (s_ready (sess s)) :: nat) \<Longrightarrow> admits a s"
  unfolding admits_def by blast

lemma admits_same:
  "config (sess s) = config (sess a) \<Longrightarrow> s_ready (sess s) = s_ready (sess a) \<Longrightarrow> evs s = evs a \<Longrightarrow> admits a s"
  by (rule admitsI [of _ _ "[]"]) simp_all

lemma admits_event:
  "config (sess s) = config (sess a) \<Longrightarrow> s_ready (sess s) = s_ready (sess a) \<Longrightarrow> evs s = evs a @ [e] \<Longrightarrow>
   admitted (sess a) e \<Longrightarrow> \<not> is_ready_ev e \<Longrightarrow> \<not> is_client_ready e \<Longrightarrow> admits a s"
  by (rule admitsI [of _ _ "[e]"]) simp_all

lemma admits_trans:
  assumes "admits a b" and "admits b c"
  shows "admits a c"
proof -
  from assms obtain n1 n2 where 1: "config (sess b) = config (sess a)" "evs b = evs a @ n1"
      "list_all (admitted (sess a)) n1" "s_ready (sess b) \<longleftrightarrow> s_ready (sess a) \<or> list_ex is_ready_ev n1"
      "length (filter is_client_ready n1) + of_bool (s_ready (sess a)) \<le> (of_bool (s_ready (sess b)) :: nat)"
    and 2: "config (sess c) = config (sess b)" "evs c = evs b @ n2"
      "list_all (admitted (sess b)) n2" "s_ready (sess c) \<longleftrightarrow> s_ready (sess b) \<or> list_ex is_ready_ev n2"
      "length (filter is_client_ready n2) + of_bool (s_ready (sess b)) \<le> (of_bool (s_ready (sess c)) :: nat)"
    unfolding admits_def by blast
  have "list_all (admitted (sess a)) n2"
    using 2(3) admitted_config [OF 1(1)] by (simp add: list_all_iff)
  with 1 2 show ?thesis by (intro admitsI [of _ _ "n1 @ n2"]) auto
qed

interpretation ad: session_relation admits Q for Q :: "'c quic"
proof
  show "admits s s" for s :: "'c sys" by (rule admits_same) simp_all
  show "admits a c" if "admits a b" "admits b c" for a b c :: "'c sys" using that by (rule admits_trans)
  show "admits s (push_ev e s)" if "ordinary e" for e and s :: "'c sys"
    using ordinary_admitted [OF that] by (intro admits_event [of _ _ e]) (auto simp: push_ev_def)
  show "admits s (upd f s)" if "untracked f" for f and s :: "'c sys"
    using that by (intro admits_same) (simp_all add: untracked_def upd_def)
  show "admits s (modify_stream i g s)" for i g and s :: "'c sys"
    by (rule admits_same) (simp_all add: modify_stream_def upd_def config_def)
  show "admits s (insert_stream i st s)" for i st and s :: "'c sys"
    by (rule admits_same) (simp_all add: insert_stream_def upd_def config_def)
  show "admits s (remove_stream i s)" for i and s :: "'c sys"
    by (rule admits_same) (simp_all add: remove_stream_def upd_def config_def)
  show "admits s (prune_streams s)" for s :: "'c sys"
    by (rule admits_same) (simp_all add: prune_streams_def upd_def config_def Let_def)
  show "admits s (mark_closed c r b s)" for c r b and s :: "'c sys"
  proof (cases "closed s")
    case False
    then show ?thesis
      by (intro admits_event [of _ _ "EvClosed c r b"])
        (simp_all add: mark_closed_def push_ev_def upd_def config_def split: prod.split)
  qed (auto intro!: admits_same simp: mark_closed_def)
  show "admits s (push_ev EvDraining (upd (\<lambda>w. w\<lparr>s_drain_emitted := True\<rparr>) s))" for s :: "'c sys"
    by (rule admits_event [of _ _ EvDraining]) (simp_all add: push_ev_def upd_def config_def)
  show "admits s (push_ev (EvReady p hs) (upd (\<lambda>w. w\<lparr>s_ready := True\<rparr>) s))"
    if "\<not> s_ready (sess s)" "offered (s_protocols (sess s)) p" for p hs and s :: "'c sys"
    using that by (intro admitsI [of _ _ "[EvReady p hs]"]) (simp_all add: push_ev_def upd_def config_def)
  show "admits s (push_ev (EvServerReady au pa orig ex req (select_protocol (s_supported_protocols (sess s)) req)
      (peer_ip (sess s)) (peer_port (sess s))) (upd (\<lambda>w. w\<lparr>s_ready := True\<rparr>) s))"
    if "origin_permitted (s_allowed_origins (sess s)) orig" for au pa orig ex req and s :: "'c sys"
    using that
    by (intro admitsI [of _ _ "[EvServerReady au pa orig ex req (select_protocol (s_supported_protocols (sess s)) req)
        (peer_ip (sess s)) (peer_port (sess s))]"]) (simp_all add: push_ev_def upd_def config_def)
  have conn: "admits s (s\<lparr>conn := c\<rparr>)" for c and s :: "'c sys" by (rule admits_same) simp_all
  show "admits s (s\<lparr>conn := q_close Q (conn s) x y z\<rparr>)" for x y z and s :: "'c sys" by (rule conn)
  show "admits s (s\<lparr>conn := q_stream_shutdown Q (conn s) i d n\<rparr>)" for i d n and s :: "'c sys" by (rule conn)
  show "admits s (s\<lparr>conn := c\<rparr>)" for c and s :: "'c sys" by (rule conn)
qed

text \<open>
  Claim C7. Over any sequence of operations a session is ready exactly when it has said so, a client
  says so at most once and only with a subprotocol it offered, and a server only for a request whose
  origin its allowlist permits, with the first supported subprotocol that was requested and with
  the address of the peer.
\<close>

theorem session_admission:
  assumes "\<not> s_ready w" and "(session_step E Q)\<^sup>*\<^sup>* (session_start w c) s"
  shows "(s_ready (sess s) \<longleftrightarrow> list_ex is_ready_ev (evs s))
    \<and> length (filter is_client_ready (evs s)) \<le> 1 \<and> list_all (admitted w) (evs s)"
proof -
  have "admits (session_start w c) s" using ad.session_steps_rel [OF assms(2)] .
  with assms(1) show ?thesis by (auto simp: admits_def session_start_def split: if_splits)
qed

theorem session_admission_witness:
  "\<not> s_ready (sess (mark_closed 5 [] False (on_established
     (session_start (new_server (''::1'', 443) [] None [] (ParserMemory_new 1000)) mini_idle))))"
proof -
  let ?w = "new_server (''::1'', 443) [] None [] (ParserMemory_new 1000)"
  let ?a = "session_start ?w mini_idle"
  let ?s = "mark_closed 5 [] False (on_established ?a)"
  have "session_step (mini_env []) mini_quic ?a (on_established ?a)" by (rule session_step.established)
  moreover have "session_step (mini_env []) mini_quic (on_established ?a) ?s" by (rule session_step.closing)
  ultimately have r: "(session_step (mini_env []) mini_quic)\<^sup>*\<^sup>* ?a ?s"
    by (meson rtranclp.rtrancl_refl rtranclp.rtrancl_into_rtrancl)
  have nr: "\<not> s_ready ?w" by (simp add: new_server_def)
  have "evs ?s = [EvClosed 5 [] False]"
    by (simp add: mark_closed_def on_established_def session_start_def new_server_def push_ev_def upd_def
        insert_stream_def split: prod.split)
  with session_admission [OF nr r] show ?thesis by simp
qed

section \<open>The request the client sends\<close>

lemma as_bytes_eq [simp]: "as_bytes a = as_bytes b \<longleftrightarrow> a = b"
  by (metis bytes_str_as_bytes)

lemma take_as_bytes [simp]: "take n (as_bytes x) = as_bytes (take n x)"
  by (simp add: as_bytes_def take_map)

lemma utf8_lossy_valid: "utf8_valid xs \<Longrightarrow> utf8_lossy xs = xs"
proof (induction xs rule: utf8_lossy.induct)
  case (1 xs)
  show ?case
  proof (cases "xs = []")
    case False
    with 1(3) have "fst (utf8_seq xs)" "utf8_valid (drop (snd (utf8_seq xs)) xs)"
      by (auto simp: utf8_valid.simps [of xs])
    with 1(1) False show ?thesis by (simp add: utf8_lossy.simps [of xs])
  qed (simp add: utf8_lossy.simps [of "[]"])
qed

definition utf8_str :: "string \<Rightarrow> bool" where
  "utf8_str x \<longleftrightarrow> utf8_valid (as_bytes x)"

lemma from_utf8_lossy_str [simp]: "utf8_str x \<Longrightarrow> from_utf8_lossy (as_bytes x) = x"
  by (simp add: utf8_str_def from_utf8_lossy_def utf8_lossy_valid)











lemma get_stream_views [simp]:
  "get_stream (push_ev e s) i = get_stream s i"
  "(\<And>w. s_streams (f w) = s_streams w) \<Longrightarrow> get_stream (upd f s) i = get_stream s i"
  "get_stream (modify_stream i g s) i = map_option g (get_stream s i)"
  by (simp_all add: get_stream_def push_ev_def upd_def modify_stream_def)




end
