(* ===== verification/Server_Example.thy ===== *)
theory Server_Example
  imports Server_Props Session_Admission
begin

text \<open>
  A run of the server that announces a session, evaluated in the logic: one packet with a token of the server
  brings a connection on which the client's control stream and its CONNECT request are waiting.
\<close>

section \<open>The client and the server\<close>

text \<open>SETTINGS with HTTP/3 datagrams and WebTransport enabled, then a HEADERS frame.\<close>

definition wt_client :: mini where
  "wt_client = mini_idle\<lparr>mi_in := [(2, [0, 4, 7, 0x33, 1, 0xAB, 0x60, 0x37, 0x42, 1], False), (0, [1, 0], False)]\<rparr>"

definition wt_headers :: "header list" where
  "wt_headers = connect_headers ''h:1'' ''/a'' (Some ''https://o'') [(''x-a'', ''b'')] []"

definition wt_sha256 :: "bytes \<Rightarrow> bytes" where
  "wt_sha256 x = replicate 32 (of_nat (length x))"

definition wt_acceptor :: "mini acceptor" where
  "wt_acceptor =
     \<lparr>a_header = (\<lambda>pkt n. case pkt of [] \<Rightarrow> None
        | b # rest \<Rightarrow> Some \<lparr>ph_initial = (b = 0), ph_dcid = take 2 rest, ph_scid = [], ph_token = Some (drop 2 rest), ph_version = 1\<rparr>),
      a_accept = (\<lambda>_ _ _ _ _. Some wt_client), a_retry = (\<lambda>_ _ _ token _. Some token),
      a_order = (\<lambda>ks. ks), a_sha256 = wt_sha256\<rparr>"

definition wt_setup :: server_setup where
  "wt_setup = \<lparr>sv_host = ''127.0.0.1'', sv_port = 443, sv_cert_path = ''c'', sv_key_path = ''k'', sv_reuse_port = False,
     sv_supported_protocols = [], sv_allowed_origins = Some [''https://o''], sv_response_headers = []\<rparr>"

definition wt_env :: server_env where
  "wt_env = \<lparr>ve_udp = \<lparr>uo_socket = (\<lambda>_. None), uo_nonblocking = None, uo_reuse_port = None, uo_bind = (\<lambda>_. None)\<rparr>, ve_local_addr = Inr mini_addr,
     ve_quic = mini_quic_api, ve_register = None, ve_random = (Some [1, 2, 3], 0)\<rparr>"

definition wt_net :: "mini net" where
  "wt_net = mini_net\<lparr>n_recv := (\<lambda>c pkt src dst. (Inr (length pkt), c))\<rparr>"

definition wt_packet :: bytes where
  "wt_packet = 0 # 7 # 8 # mint_token wt_sha256 [1, 2, 3] [9] mini_addr"

definition wt_wake :: server_wake where
  "wt_wake = \<lparr>sw_poll_ok = True, sw_recv = [Inr (wt_packet, mini_addr, 0, (None, 0))], sw_cmds = [], sw_inflight = 0\<rparr>"

section \<open>The session\<close>

definition wt_conn :: "mini server_conn" where
  "wt_conn =
     \<lparr>sc_conn = wt_client,
      sc_session = new_server (''127.0.0.1'', 443) [] (Some [''https://o'']) [] (ParserMemory_new MAX_PARSER_MEMORY),
      sc_session_id = 1, sc_closed_emitted = False\<rparr>"

definition wt_begin :: "mini sys" where
  "wt_begin = on_established (lend (ParserMemory_new MAX_PARSER_MEMORY) wt_conn)"

lemma wt_settings:
  "parse_settings_loop [] \<lparr>enable_connect_protocol = False, h3_datagram = False, enable_webtransport = False,
     wt_max_sessions = 0, wt_initial_max_data = 0, wt_initial_max_streams_bidi = 0, wt_initial_max_streams_uni = 0\<rparr>
     [51, 1, 171, 96, 55, 66, 1]
   = Inr \<lparr>enable_connect_protocol = False, h3_datagram = True, enable_webtransport = True,
     wt_max_sessions = 0, wt_initial_max_data = 0, wt_initial_max_streams_bidi = 0, wt_initial_max_streams_uni = 0\<rparr>"
  by (simp add: parse_settings_loop.simps read_varint_def apply_setting_def wt_consts Let_def)

lemma wt_request:
  "collect_headers wt_headers =
     \<lparr>rq_method = Some (as_bytes ''CONNECT''), rq_protocol = Some (as_bytes ''webtransport''), rq_authority = ''h:1'',
      rq_path = ''/a'', rq_origin = Some ''https://o'', rq_protocol_fields = [], rq_extra = [(''x-a'', ''b'')]\<rparr>"
  by code_simp

lemma wt_env_fields:
  "e_alloc (mini_env hs) = Some" "e_qpack_encode (mini_env hs) = (\<lambda>_ _. Inr [])"
  "e_qpack_decode (mini_env hs) = (\<lambda>_ _. Inr hs)" "e_sf_list (mini_env hs) = (\<lambda>_. Some [])"
  by (simp_all add: mini_env_def)

lemma wt_capacities:
  "pow2_from (Suc 0) (Suc (Suc (Suc (Suc (Suc (Suc (Suc (Suc (Suc (Suc 0)))))))))) = 16"
  "pow2_from (Suc 0) (Suc (Suc (Suc (Suc (Suc (Suc (Suc (Suc (Suc 0))))))))) = 16"
  "pow2_from (Suc 0) (Suc (Suc (Suc (Suc (Suc (Suc (Suc 0))))))) = 8"
  "pow2_from (Suc 0) (Suc (Suc 0)) = 2" "pow2_from (Suc 0) (Suc 0) = 1" "pow2_from (Suc 0) 0 = 1"
  by (simp_all add: pow2_from.simps)

lemma wt_control_prefix: "control_stream_prefix \<noteq> []"
  by code_simp

lemmas wt_eval =
  wt_consts hm_modify_def upd_def push_ev_def get_stream_def modify_stream_def insert_stream_def set_memory_def
  Stream_new_def with_prefix_def push_chunk_def FrameParser_new_def ParserBuffer_new_def
  on_readable_def entry_or_insert_def classify_new_def READ_BUF_def process_recv_def resolve_pending_uni_def
  extend_class_buf_def class_bytes_def read_varint_def set_role_def clear_class_buf_def other_has_role_def
  recv_peer_control_def stream_push_bytes_def push_bytes_def extend_from_slice_def checked_next_power_of_two_def
  usize_max_def frame_error_def control_step_def stream_next_frame_def next_frame_def drop_buffer_def
  buffer_drop_def buffer_clear_def buffer_consume_def copy_range_def fetch_sub_def
  control_frame_def stream_headers_done_def set_headers_done_def parse_settings_def PeerSettings_default_def
  apply_peer_settings_def parse_server_connect_frames_def recv_connect_def server_connect_step_def
  server_connect_frame_def decode_header_block_def accept_connect_def encode_headers_frame_def
  origin_permitted_def select_protocol_def parse_sf_string_list_def frame_def put_varint_def
  mini_quic_def mini_recv_def wt_env_fields wt_control_prefix wt_capacities wt_settings wt_request

definition said :: "mini sys outcome \<Rightarrow> ev list" where
  "said r = (case r of Done s \<Rightarrow> evs s | _ \<Rightarrow> [])"

lemma wt_reads:
  "said (on_readables (\<lambda>_. Suc (Suc (Suc 0))) (mini_env wt_headers) mini_quic False [2, 0] wt_begin)
     = [EvServerReady ''h:1'' ''/a'' (Some ''https://o'') [(''x-a'', ''b'')] [] None ''127.0.0.1'' 443]"
  by (simp add: wt_begin_def lend_def wt_conn_def new_server_def on_established_def ParserMemory_new_def
        ParserMemory_child_def wt_client_def mini_idle_def wt_eval,
      subst parse_control_frames.simps, simp add: wt_eval, subst parse_control_frames.simps, simp add: wt_eval,
      subst server_connect_loop.simps, simp add: wt_eval, subst server_connect_loop.simps, simp add: wt_eval said_def)

section \<open>The run\<close>

abbreviation three_rounds :: "mini \<Rightarrow> nat" where
  "three_rounds \<equiv> \<lambda>_. Suc (Suc (Suc 0))"

definition wt_ready :: ev where
  "wt_ready = EvServerReady ''h:1'' ''/a'' (Some ''https://o'') [(''x-a'', ''b'')] [] None ''127.0.0.1'' 443"

lemma wt_session_ready:
  obtains s where "drive_session three_rounds (mini_env wt_headers) mini_quic False wt_begin = Done s" "wt_ready \<in> set (evs s)"
proof -
  obtain s2 where s2: "on_readables three_rounds (mini_env wt_headers) mini_quic False [2, 0] wt_begin = Done s2" "evs s2 = [wt_ready]"
    using wt_reads by (cases "on_readables three_rounds (mini_env wt_headers) mini_quic False [2, 0] wt_begin")
      (simp_all add: said_def wt_ready_def)
  have c: "conn wt_begin = wt_client"
    by (simp add: wt_begin_def lend_def wt_conn_def new_server_def on_established_def insert_stream_def upd_def)
  have d: "on_datagrams (Suc n) mini_quic wt_begin = Some wt_begin" for n
    by (simp add: c wt_client_def mini_idle_def mini_quic_def mini_dgram_recv_def)
  have "q_readable mini_quic (conn wt_begin) = [2, 0]"
    by (simp add: c wt_client_def mini_quic_def)
  with d s2(1) have "drive_session three_rounds (mini_env wt_headers) mini_quic False wt_begin
      = Done (flush (mini_env wt_headers) mini_quic s2)"
    by (simp add: drive_session_def)
  moreover have "steps (mini_env wt_headers) mini_quic s2 (flush (mini_env wt_headers) mini_quic s2)"
    by (rule r_into_rtranclp) (rule session_step.flushed)
  then have "set (evs s2) \<subseteq> set (evs (flush (mini_env wt_headers) mini_quic s2))"
    using steps_log by (metis Un_iff set_append subsetI)
  ultimately show thesis using s2(2) that by auto
qed

lemma wt_flush_send: "server_flush_send (Suc n) wt_net c sent = Some (c, sent)"
  by (simp add: wt_net_def mini_net_def)

lemma wt_drive:
  assumes "map_of (sv_clients sv) key = Some wt_conn" and "sv_parser_memory sv = ParserMemory_new MAX_PARSER_MEMORY"
  shows "\<exists>sv'. drive_conn three_rounds (mini_env wt_headers) mini_quic wt_net False key sv = Done sv'
    \<and> SessionMsg 1 wt_ready \<in> set (sv_out sv')"
proof -
  obtain s where s: "drive_session three_rounds (mini_env wt_headers) mini_quic False wt_begin = Done s" "wt_ready \<in> set (evs s)"
    by (rule wt_session_ready)
  have b: "(if q_is_established mini_quic (conn (lend (sv_parser_memory sv) wt_conn))
      then on_established (lend (sv_parser_memory sv) wt_conn) else lend (sv_parser_memory sv) wt_conn) = wt_begin"
    by (simp add: wt_begin_def assms(2) mini_quic_def)
  show ?thesis
    unfolding drive_conn_def assms(1) option.case Let_def b s(1) outcome.case wt_flush_send
    using s(2) by (simp add: give_back_def wt_conn_def)
qed

text \<open>Nothing that was queued is lost when closed connections are reaped.\<close>

lemma reap_keeps_out: "set (sv_out sv) \<subseteq> set (sv_out (reap Q keys sv))"
proof -
  have one: "set (sv_out sv) \<subseteq> set (sv_out (reap_conn Q key sv))" for key and sv :: "'a server"
    by (auto simp: reap_conn_def give_back_def split: option.split)
  have "set (sv_out sv) \<subseteq> set (sv_out (foldl (\<lambda>sv key. reap_conn Q key sv) sv keys))"
  proof (induction keys arbitrary: sv)
    case (Cons key keys)
    from order_trans [OF one [of sv key] Cons] show ?case by simp
  qed simp
  then show ?thesis by (simp add: reap_def retain_open_def Let_def)
qed

lemma emit_out: "m \<in> set (sv_out sv) \<Longrightarrow> m \<in> set (concat (sv_emitted (server_emit sv)))"
  by (auto simp: server_emit_def)

lemma wt_sha256_length: "length (wt_sha256 x) = 32"
  by (simp add: wt_sha256_def)

definition wt_recv_env :: "quic_config \<Rightarrow> recv_env" where
  "wt_recv_env cfg = \<lparr>re_local = mini_addr, re_secret = [1, 2, 3], re_config = cfg\<rparr>"

lemma wt_accepts:
  "server_recv (Suc n) wt_net wt_acceptor wt_setup (wt_recv_env cfg) (sw_recv wt_wake) (server_start b)
     = new_connection wt_setup [7, 8] mini_addr wt_client (server_start b)"
proof -
  let ?token = "mint_token wt_sha256 [1, 2, 3] [9] mini_addr"
  let ?hdr = "\<lparr>ph_initial = True, ph_dcid = [7, 8], ph_scid = [], ph_token = Some ?token, ph_version = 1\<rparr>"
  have hdr: "a_header wt_acceptor wt_packet LOCAL_CONN_ID_LEN = Some ?hdr"
    by (simp add: wt_acceptor_def wt_packet_def)
  have "validate_token wt_sha256 [1, 2, 3] mini_addr ?token = Some [9]"
    by (simp add: validate_token_iff [OF wt_sha256_length])
  moreover have "?token \<noteq> []" by (simp add: mint_token_def TOKEN_MAGIC_def Let_def)
  ultimately have "route_packet wt_net wt_acceptor wt_setup (wt_recv_env cfg) 0 (None, 0) ?hdr mini_addr (server_start b)
      = (Some [7, 8], new_connection wt_setup [7, 8] mini_addr wt_client (server_start b))"
    by (simp add: route_packet_def server_start_def MAX_CONNECTIONS_def SERVER_MAX_INFLIGHT_def wt_recv_env_def wt_acceptor_def Let_def)
  moreover have "deliver_packet wt_net R wt_packet mini_addr [7, 8] (new_connection wt_setup [7, 8] mini_addr wt_client (server_start b))
      = new_connection wt_setup [7, 8] mini_addr wt_client (server_start b)" for R
    by (simp add: deliver_packet_def new_connection_def server_start_def wt_net_def Let_def)
  ultimately show ?thesis
    by (cases n) (simp_all add: wt_wake_def hdr)
qed

lemma wt_wake_announces:
  obtains sv where "serve_wake three_rounds (mini_env wt_headers) mini_quic wt_net wt_acceptor wt_setup (wt_recv_env cfg) wt_wake
      (server_start b) = Continue sv" "SessionMsg 1 wt_ready \<in> set (concat (sv_emitted sv))"
proof -
  let ?sv1 = "new_connection wt_setup [7, 8] mini_addr wt_client (server_start b :: mini server)"
  have ip: "show_ip (sa_ip mini_addr) = ''127.0.0.1''" by code_simp
  have sv1: "sv_clients ?sv1 = [([7, 8], wt_conn)]" "sv_parser_memory ?sv1 = ParserMemory_new MAX_PARSER_MEMORY"
    by (simp_all add: new_connection_def server_start_def Let_def wt_conn_def wt_setup_def ip) (simp_all add: mini_addr_def)
  have recv: "server_recv MAX_RECV_PER_WAKE wt_net wt_acceptor wt_setup (wt_recv_env cfg) (sw_recv wt_wake) (server_start b) = ?sv1"
    using wt_accepts [of 1023 cfg b] by (simp add: MAX_RECV_PER_WAKE_def)
  have fire: "fire_timeouts mini_quic sv = sv" for sv
    by (simp add: fire_timeouts_def mini_quic_def hm_map_def)
  obtain sv2 where d: "drive_conn three_rounds (mini_env wt_headers) mini_quic wt_net False [7, 8] ?sv1 = Done sv2"
    "SessionMsg 1 wt_ready \<in> set (sv_out sv2)"
    using wt_drive [of ?sv1 "[7, 8]"] sv1 by auto
  let ?sv3 = "server_emit (reap mini_quic (table_order wt_acceptor sv2) sv2)"
  have "table_order wt_acceptor ?sv1 = [[7, 8]]" by (simp add: table_order_def sv1 wt_acceptor_def)
  then have "serve_wake three_rounds (mini_env wt_headers) mini_quic wt_net wt_acceptor wt_setup (wt_recv_env cfg) wt_wake
      (server_start b) = Continue ?sv3"
    using d(1) recv fire
    by (simp add: serve_wake_def Let_def) (simp add: wt_wake_def SERVER_MAX_INFLIGHT_def server_start_def)
  moreover have "SessionMsg 1 wt_ready \<in> set (concat (sv_emitted ?sv3))"
    using d(2) reap_keeps_out by (intro emit_out) blast
  ultimately show thesis by (rule that)
qed

lemma wt_run_announces:
  obtains batches where "server_run three_rounds (mini_env wt_headers) mini_quic wt_net wt_acceptor wt_env wt_setup [wt_wake]
      = (Waiting, False, batches)" "SessionMsg 1 wt_ready \<in> set (concat batches)"
proof -
  have ip: "parse_ip (trim_brackets (sv_host wt_setup)) = Some (IpV4 [127, 0, 0, 1])" by code_simp
  obtain cfg where cfg: "build_server_config (ve_quic wt_env) (sv_cert_path wt_setup) (sv_key_path wt_setup) = Inr cfg"
    by (simp add: wt_env_def build_server_config_def try_then_def mini_config_simps)
  obtain sv where sv: "serve_wake three_rounds (mini_env wt_headers) mini_quic wt_net wt_acceptor wt_setup (wt_recv_env cfg) wt_wake
      (server_start [[Listening (sa_port mini_addr)]]) = Continue sv" "SessionMsg 1 wt_ready \<in> set (concat (sv_emitted sv))"
    by (rule wt_wake_announces)
  obtain sock where "bind_udp (ve_udp wt_env) \<lparr>sa_ip = IpV4 [127, 0, 0, 1], sa_port = sv_port wt_setup\<rparr> (sv_reuse_port wt_setup) = Inr sock"
    by (simp add: wt_env_def wt_setup_def bind_udp_def os_call_def try_then_def)
  moreover have "ve_local_addr wt_env = Inr mini_addr" "ve_register wt_env = None"
    "random_secret (ve_random wt_env) = [1, 2, 3]"
    by (simp_all add: wt_env_def random_secret_def)
  ultimately have "server_run_inner three_rounds (mini_env wt_headers) mini_quic wt_net wt_acceptor wt_env wt_setup [wt_wake]
      = Continue sv"
    using ip cfg sv(1) by (simp add: server_run_inner_def wt_recv_env_def)
  with sv(2) that show thesis by (simp add: server_run_def catch_server_panic_def)
qed

end
