(* ===== verification/Server_Admission.thy ===== *)
theory Server_Admission
  imports Server_Example
begin

text \<open>
  What every session of a server has in common, over whole runs of its thread, however it ends. The locale
  \<open>server_lift\<close> carries a fact of single sessions through the tables, the commands, the event loop and
  the batches; it is interpreted on who is admitted.
\<close>

section \<open>Who has proved an address\<close>

text \<open>
  The addresses from which, in these turns of the loop, a packet came with a token that the server takes for
  its own.
\<close>

definition proves :: "'c acceptor \<Rightarrow> bytes \<Rightarrow> bytes \<Rightarrow> sock_addr \<Rightarrow> bool" where
  "proves A secret pkt src \<longleftrightarrow>
     (\<exists>hdr t od. a_header A pkt LOCAL_CONN_ID_LEN = Some hdr \<and> ph_token hdr = Some t
        \<and> validate_token (a_sha256 A) secret src t = Some od)"

definition proven_in :: "'c acceptor \<Rightarrow> bytes \<Rightarrow> rx_item list \<Rightarrow> sock_addr set" where
  "proven_in A secret items = {src. \<exists>pkt n r. Inr (pkt, src, n, r) \<in> set items \<and> proves A secret pkt src}"

definition proven :: "'c acceptor \<Rightarrow> bytes \<Rightarrow> server_wake list \<Rightarrow> sock_addr set" where
  "proven A secret ws = (\<Union>w\<in>set ws. proven_in A secret (sw_recv w))"

section \<open>From sessions to the server\<close>

text \<open>
  \<open>S\<close> holds of a session that the server starts for an address in \<open>F\<close>, survives every operation on the
  session and makes what the operation reports fit \<open>M\<close>.
\<close>

locale server_lift =
  fixes E :: env and Q :: "'c quic" and su :: server_setup and F :: "sock_addr set"
    and S :: "wt_session \<Rightarrow> bool" and M :: "ev \<Rightarrow> bool"
  assumes lent: "S w \<Longrightarrow> S (w\<lparr>s_parser_memory := m\<rparr>)"
    and begun: "src \<in> F \<Longrightarrow> S (new_server (show_ip (sa_ip src), sa_port src) (sv_supported_protocols su)
      (sv_allowed_origins su) (sv_response_headers su) m)"
    and stepped: "steps E Q s s' \<Longrightarrow> S (sess s) \<Longrightarrow> evs s = [] \<Longrightarrow> S (sess s') \<and> list_all M (evs s')"
begin

definition all_sessions :: "'c server \<Rightarrow> bool" where
  "all_sessions sv \<longleftrightarrow> (\<forall>kv\<in>set (sv_clients sv). S (sc_session (snd kv)))"

definition all_messages :: "server_msg list \<Rightarrow> bool" where
  "all_messages msgs \<longleftrightarrow> (\<forall>i e. SessionMsg i e \<in> set msgs \<longrightarrow> M e)"

definition lifted :: "'c server \<Rightarrow> bool" where
  "lifted sv \<longleftrightarrow> all_sessions sv \<and> all_messages (history sv)"

lemma all_messages_append [simp]: "all_messages (a @ b) \<longleftrightarrow> all_messages a \<and> all_messages b"
  by (auto simp: all_messages_def)

lemma all_messages_session [simp]: "all_messages (map (SessionMsg i) es) \<longleftrightarrow> list_all M es"
  by (auto simp: all_messages_def list_all_iff)

lemma all_messages_control:
  "all_messages [ServerClosed]" "all_messages [ServerError m, ServerClosed]" "all_messages []"
  by (simp_all add: all_messages_def)

lemma set_update_subset: "set (AList.update k v m) \<subseteq> insert (k, v) (set m)"
  by (induction m) auto

lemma lifted_operation:
  assumes "lifted sv" and sc: "map_of (sv_clients sv) key = Some sc" and st: "steps E Q (lend root sc) s"
    and "sv_clients sv' = AList.update key sc' (sv_clients sv)" and "sc_session sc' = sess s"
    and "sv_out sv' = sv_out sv @ map (SessionMsg i) (evs s)" and "sv_emitted sv' = sv_emitted sv"
  shows "lifted sv'"
proof -
  have "S (sc_session sc)" using assms(1) map_of_SomeD [OF sc] by (auto simp: lifted_def all_sessions_def)
  then have "S (sess (lend root sc))" by (simp add: lend_def lent)
  from stepped [OF st this] have s: "S (sess s)" "list_all M (evs s)" by (simp_all add: lend_def)
  have "all_sessions sv'"
    using assms(1,5) s(1) set_update_subset [of key sc' "sv_clients sv"]
    by (fastforce simp: lifted_def all_sessions_def assms(4))
  moreover have "all_messages (history sv')" using assms(1,6,7) s(2) by (simp add: lifted_def history_def)
  ultimately show ?thesis by (simp add: lifted_def)
qed

lemma lifted_same:
  "lifted sv \<Longrightarrow> sv_clients sv' = sv_clients sv \<Longrightarrow> history sv' = history sv \<Longrightarrow> lifted sv'"
  by (simp add: lifted_def all_sessions_def)

lemma lifted_clients:
  assumes "lifted sv" and "history sv' = history sv"
    and "\<And>kv. kv \<in> set (sv_clients sv') \<Longrightarrow> \<exists>kv'\<in>set (sv_clients sv). sc_session (snd kv) = sc_session (snd kv')"
  shows "lifted sv'"
proof -
  have "S (sc_session (snd kv))" if "kv \<in> set (sv_clients sv')" for kv
    using assms(1) assms(3) [OF that] unfolding lifted_def all_sessions_def by metis
  with assms(1,2) show ?thesis by (simp add: lifted_def all_sessions_def)
qed

lemma lifted_new_connection:
  assumes "lifted sv" and "src \<in> F"
  shows "lifted (new_connection su key src c sv)"
proof -
  let ?sv' = "new_connection su key src c sv"
  obtain sc where cl: "sv_clients ?sv' = AList.update key sc (sv_clients sv)" and S: "S (sc_session sc)"
    using begun [OF assms(2)] by (simp add: new_connection_def Let_def)
  have "history ?sv' = history sv" by (simp add: new_connection_def Let_def history_def)
  with assms(1) S set_update_subset [of key sc "sv_clients sv"] show ?thesis
    by (fastforce simp: lifted_def all_sessions_def cl)
qed

lemma lifted_deliver: "lifted sv \<Longrightarrow> lifted (deliver_packet N R pkt src scid sv)"
proof (cases "map_of (sv_clients sv) scid")
  case (Some sc)
  assume l: "lifted sv"
  obtain r c where c: "n_recv N (sc_conn sc) pkt src (re_local R) = (r, c)" by fastforce
  have "S (sc_session sc)" using l map_of_SomeD [OF Some] by (auto simp: lifted_def all_sessions_def)
  with l set_update_subset [of scid "sc\<lparr>sc_conn := c\<rparr>" "sv_clients sv"] show ?thesis
    by (fastforce simp: deliver_packet_def Some c lifted_def all_sessions_def history_def)
qed (simp add: deliver_packet_def)

lemma lifted_route:
  assumes "lifted sv" and "route_packet N A su R inflight rnd hdr src sv = (r, sv')"
    and "\<And>t od. ph_token hdr = Some t \<Longrightarrow> validate_token (a_sha256 A) (re_secret R) src t = Some od \<Longrightarrow> src \<in> F"
  shows "lifted sv'"
  using assms(2)
proof (cases rule: route_packet_cases)
  case 2
  have "sv_clients sv' = sv_clients sv" "history sv' = history sv"
    by (simp_all add: 2 send_retry_def Let_def history_def split: option.split)
  with assms(1) show ?thesis by (rule lifted_same)
next
  case (3 c token odcid)
  from lifted_new_connection [OF assms(1) assms(3) [OF 3(3,4)]] show ?thesis by (simp add: 3)
qed (use assms(1) in simp)

lemma lifted_recv:
  "lifted sv \<Longrightarrow> proven_in A (re_secret R) items \<subseteq> F \<Longrightarrow> lifted (server_recv budget N A su R items sv)"
proof (induction items arbitrary: budget sv)
  case Nil
  then show ?case by (cases budget) simp_all
next
  case (Cons item rest)
  have "proven_in A (re_secret R) rest \<subseteq> proven_in A (re_secret R) (item # rest)"
    unfolding proven_in_def by auto
  with Cons.prems(2) have rest: "proven_in A (re_secret R) rest \<subseteq> F" by blast
  note IH = Cons.IH [OF _ rest]
  show ?case
  proof (cases budget)
    case (Suc b)
    show ?thesis
    proof (cases item)
      case (Inr p)
      then obtain pkt src inflight rnd where item: "item = Inr (pkt, src, inflight, rnd)" by (cases p) auto
      show ?thesis
      proof (cases "a_header A pkt LOCAL_CONN_ID_LEN")
        case None
        with IH [OF Cons.prems(1), of b] show ?thesis by (simp add: Suc item)
      next
        case (Some hdr)
        obtain r sv1 where r: "route_packet N A su R inflight rnd hdr src sv = (r, sv1)" by fastforce
        have "src \<in> F" if "ph_token hdr = Some t" "validate_token (a_sha256 A) (re_secret R) src t = Some od" for t od
        proof -
          have "proves A (re_secret R) pkt src" using Some that by (auto simp: proves_def)
          moreover have "Inr (pkt, src, inflight, rnd) \<in> set (item # rest)" by (simp add: item)
          ultimately have "src \<in> proven_in A (re_secret R) (item # rest)" unfolding proven_in_def by blast
          with Cons.prems(2) show ?thesis by blast
        qed
        with lifted_route [OF Cons.prems(1) r] have l: "lifted sv1" by blast
        from IH [OF l, of b] IH [OF lifted_deliver [OF l], of b] show ?thesis
          by (cases r) (simp_all add: Suc item Some r)
      qed
    qed (use Cons.prems(1) Suc in simp)
  qed (use Cons.prems(1) in simp)
qed

lemma lifted_timeouts: "lifted sv \<Longrightarrow> lifted (fire_timeouts Q sv)"
  by (rule lifted_clients) (simp_all add: fire_timeouts_def history_def hm_map_def, force)

lemma lifted_command:
  assumes "lifted sv" and "cmd \<noteq> SShutdown"
  shows "lifted (apply_command Q cmd sv)"
proof (cases "\<exists>i k sc. command_session cmd = Some i \<and> map_of (sv_sessions sv) i = Some k \<and> map_of (sv_clients sv) k = Some sc")
  case True
  then obtain i k sc where c: "command_session cmd = Some i" "map_of (sv_sessions sv) i = Some k"
    "map_of (sv_clients sv) k = Some sc" by blast
  let ?s = "session_command Q cmd (lend (sv_parser_memory sv) sc)"
  have st: "steps E Q (lend (sv_parser_memory sv) sc) ?s" using session_command_step [OF assms(2)] by blast
  show ?thesis
    by (rule lifted_operation [OF assms(1) c(3) st, where i = i and sc' = "sc\<lparr>sc_conn := conn ?s, sc_session := sess ?s\<rparr>"])
      (simp_all add: c apply_command_def give_back_def Let_def del: map_of_eq_Some_iff)
next
  case False
  then have "apply_command Q cmd sv = sv" by (auto simp: apply_command_def split: option.split)
  with assms(1) show ?thesis by simp
qed

lemma lifted_commands: "lifted sv \<Longrightarrow> drain_server_commands Q cmds sv = (sd, sv') \<Longrightarrow> lifted sv'"
  by (induction cmds arbitrary: sv) (auto split: if_splits intro: lifted_command)

lemma lifted_works:
  assumes "lifted sv" and "works E Q sv sv'"
  shows "lifted sv'"
proof (cases "sv' = sv")
  case False
  with assms(2) obtain key sc s where o: "map_of (sv_clients sv) key = Some sc" "steps E Q (lend (sv_parser_memory sv) sc) s"
    "sv_clients sv' = AList.update key (sc\<lparr>sc_conn := conn s, sc_session := sess s, sc_closed_emitted := sc_closed_emitted sc \<or> False\<rparr>)
      (sv_clients sv)"
    "sv_out sv' = sv_out sv @ map (SessionMsg (sc_session_id sc)) (evs s)" "sv_emitted sv' = sv_emitted sv"
    unfolding works_def operates_def by blast
  show ?thesis by (rule lifted_operation [OF assms(1) o(1,2,3) _ o(4,5)]) simp
qed (use assms(1) in simp)

lemma lifted_drive: "lifted sv \<Longrightarrow> drive_conns rounds E Q N bp keys sv = Done sv' \<Longrightarrow> lifted sv'"
  by (induction keys arbitrary: sv) (auto split: outcome.splits dest: lifted_works [OF _ drive_conn_works])

lemma lifted_reap_conn:
  assumes "lifted sv"
  shows "lifted (reap_conn Q key sv)"
proof (cases "\<exists>sc. map_of (sv_clients sv) key = Some sc \<and> q_is_closed Q (sc_conn sc) \<and> \<not> sc_closed_emitted sc")
  case True
  then obtain sc where sc: "map_of (sv_clients sv) key = Some sc" "q_is_closed Q (sc_conn sc)" "\<not> sc_closed_emitted sc"
    by blast
  let ?s = "report_closure Q (lend (sv_parser_memory sv) sc)"
  show ?thesis
    by (rule lifted_operation [OF assms sc(1) report_closure_steps [of E Q], where i = "sc_session_id sc"
          and sc' = "sc\<lparr>sc_closed_emitted := True, sc_conn := conn ?s, sc_session := sess ?s\<rparr>"])
      (use sc in \<open>simp_all add: reap_conn_def give_back_def report_server_closure_eq\<close>)
next
  case False
  then have "reap_conn Q key sv = sv" by (auto simp: reap_conn_def split: option.split)
  with assms show ?thesis by simp
qed

lemma lifted_reap: "lifted sv \<Longrightarrow> lifted (reap Q keys sv)"
proof -
  assume l: "lifted sv"
  have "lifted (foldl (\<lambda>sv key. reap_conn Q key sv) sv keys)"
    using l by (induction keys arbitrary: sv) (simp_all add: lifted_reap_conn)
  then show ?thesis unfolding reap_def
    by (rule lifted_clients) (auto simp: retain_open_fields conns_open_def)
qed

lemma lifted_emit: "lifted sv \<Longrightarrow> lifted (server_emit sv)"
  by (auto simp: lifted_def all_sessions_def all_messages_def history_def server_emit_def)

lemma lifted_clear: "lifted sv \<Longrightarrow> lifted (sv\<lparr>sv_out := []\<rparr>)"
  by (simp add: lifted_def all_sessions_def history_def)

text \<open>Everything that has been emitted when an iteration, or the thread, ends.\<close>

fun emitted_ok :: "'c server loop_next \<Rightarrow> bool" where
  "emitted_ok (Continue sv) \<longleftrightarrow> lifted sv"
| "emitted_ok (Return sv) \<longleftrightarrow> all_messages (concat (sv_emitted sv))"
| "emitted_ok (PanicAt msg sv) \<longleftrightarrow> all_messages (concat (sv_emitted sv))"
| "emitted_ok Stuck \<longleftrightarrow> True"

lemma shutdown_conns_emitted: "shutdown_conns rounds Q N keys sv = Done sv' \<Longrightarrow> sv_emitted sv' = sv_emitted sv"
proof (induction keys arbitrary: sv)
  case (Cons key keys)
  from Cons.prems obtain sv1 where s: "shutdown_conn rounds Q N key sv = Done sv1" "shutdown_conns rounds Q N keys sv1 = Done sv'"
    by (auto split: outcome.splits)
  from s(1) have "sv_emitted sv1 = sv_emitted sv"
    by (auto simp: shutdown_conn_def Let_def split: option.splits)
  with Cons.IH [OF s(2)] show ?case by simp
qed simp

lemma lifted_wake:
  assumes "lifted sv" and "proven_in A (re_secret R) (sw_recv w) \<subseteq> F"
  shows "emitted_ok (serve_wake rounds E Q N A su R w sv)"
proof (cases "sw_poll_ok w")
  case True
  let ?sv1 = "fire_timeouts Q (server_recv MAX_RECV_PER_WAKE N A su R (sw_recv w) (sv\<lparr>sv_out := []\<rparr>))"
  obtain sd sv2 where c: "drain_server_commands Q (sw_cmds w) ?sv1 = (sd, sv2)" by fastforce
  have l2: "lifted sv2"
    using lifted_commands [OF lifted_timeouts [OF lifted_recv [OF lifted_clear [OF assms(1)] assms(2)]] c] .
  have old: "all_messages (concat (sv_emitted sv))" "all_messages (concat (sv_emitted sv2))"
    using assms(1) l2 by (simp_all add: lifted_def history_def)
  show ?thesis
  proof (cases sd)
    case True
    with \<open>sw_poll_ok w\<close> c old show ?thesis
      by (auto simp: serve_wake_def Let_def dest: shutdown_conns_emitted split: outcome.split)
  next
    case False
    have "lifted (server_emit (reap Q (table_order A sv3) sv3))"
      if "drive_conns rounds E Q N (sw_inflight w \<ge> SERVER_MAX_INFLIGHT) (table_order A sv2) sv2 = Done sv3" for sv3
      using lifted_emit [OF lifted_reap [OF lifted_drive [OF l2 that]]] .
    with \<open>sw_poll_ok w\<close> False c old show ?thesis
      by (auto simp: serve_wake_def Let_def split: outcome.split)
  qed
qed (use assms(1) in \<open>simp add: serve_wake_def\<close>)

lemma lifted_wakes:
  "lifted sv \<Longrightarrow> proven A (re_secret R) ws \<subseteq> F \<Longrightarrow> emitted_ok (serve_wakes rounds E Q N A su R ws sv)"
proof (induction ws arbitrary: sv)
  case (Cons w ws)
  have f: "proven_in A (re_secret R) (sw_recv w) \<subseteq> F" "proven A (re_secret R) ws \<subseteq> F"
    using Cons.prems(2) by (auto simp: proven_def)
  from lifted_wake [OF Cons.prems(1) f(1), of rounds N] Cons.IH [OF _ f(2)] show ?case
    by (cases "serve_wake rounds E Q N A su R w sv") simp_all
qed simp

lemma lifted_start: "\<forall>i e. SessionMsg i e \<notin> set (concat b) \<Longrightarrow> lifted (server_start b)"
  by (auto simp: lifted_def all_sessions_def all_messages_def server_start_def history_def)

text \<open>However a run ends, all that it emitted for sessions fits.\<close>

lemma lifted_run:
  assumes "proven A (random_secret (ve_random VE)) ws \<subseteq> F"
    and "server_run rounds E Q N A VE su ws = (status, closed_flag, batches)"
  shows "all_messages (concat batches)"
proof -
  have failed: "emitted_ok (setup_failed m)" for m
    by (simp add: setup_failed_def all_messages_def server_start_def)
  have "emitted_ok (serve_wakes rounds E Q N A su \<lparr>re_local = a, re_secret = random_secret (ve_random VE), re_config = cfg\<rparr> ws
      (server_start [[Listening p]]))" for a cfg p
    by (rule lifted_wakes) (use assms(1) in \<open>simp_all add: lifted_start\<close>)
  with failed have "emitted_ok (server_run_inner rounds E Q N A VE su ws)"
    by (auto simp: server_run_inner_def split: option.split sum.split)
  then show ?thesis using assms(2)
    by (cases "server_run_inner rounds E Q N A VE su ws")
      (auto simp: server_run_def catch_server_panic_def lifted_def history_def all_messages_control)
qed

end

section \<open>Who is admitted by a server\<close>

text \<open>A session with the server's configuration, for a peer whose address is in \<open>F\<close>.\<close>

definition configured :: "server_setup \<Rightarrow> sock_addr set \<Rightarrow> wt_session \<Rightarrow> bool" where
  "configured su F w \<longleftrightarrow>
     s_allowed_origins w = sv_allowed_origins su \<and> s_supported_protocols w = sv_supported_protocols su
     \<and> (\<exists>src\<in>F. s_remote_addr w = Some (show_ip (sa_ip src), sa_port src))"

fun announces :: "server_setup \<Rightarrow> sock_addr set \<Rightarrow> ev \<Rightarrow> bool" where
  "announces su F (EvServerReady au pa orig ex req sel ip port) \<longleftrightarrow>
     origin_permitted (sv_allowed_origins su) orig \<and> sel = select_protocol (sv_supported_protocols su) req
     \<and> (\<exists>src\<in>F. ip = show_ip (sa_ip src) \<and> port = sa_port src)"
| "announces su F _ \<longleftrightarrow> True"

lemma admitted_announces: "configured su F w \<Longrightarrow> admitted w e \<Longrightarrow> announces su F e"
  by (cases e) (auto simp: configured_def peer_ip_def peer_port_def)

interpretation sa: server_lift E Q su F "configured su F" "announces su F"
  for E :: env and Q :: "'c quic" and su F
proof
  show "configured su F (w\<lparr>s_parser_memory := m\<rparr>)" if "configured su F w" for w m
    using that by (simp add: configured_def)
  show "configured su F (new_server (show_ip (sa_ip src), sa_port src) (sv_supported_protocols su)
      (sv_allowed_origins su) (sv_response_headers su) m)" if "src \<in> F" for src m
    using that by (auto simp: configured_def new_server_def)
  show "configured su F (sess s') \<and> list_all (announces su F) (evs s')"
    if "steps E Q s s'" "configured su F (sess s)" "evs s = []" for s s' :: "'c sys"
  proof -
    from ad.session_steps_rel [OF that(1)] that(3) have a: "config (sess s') = config (sess s)" "list_all (admitted (sess s)) (evs s')"
      by (auto simp: admits_def)
    from a(1) that(2) have "configured su F (sess s')" by (auto simp: configured_def config_def)
    with a(2) that(2) show ?thesis by (auto simp: list_all_iff intro: admitted_announces)
  qed
qed

text \<open>
  Claim C6. Whatever packets and commands arrive and however the server's thread ends, a session it announces to
  the application belongs to a peer that proved its address by sending back a token the server had minted for
  it, asked from an origin the server's allowlist permits, and has the first supported subprotocol among
  those it asked for.
\<close>

theorem server_admits:
  assumes "\<And>x. length (a_sha256 A x) = 32"
    and "server_run rounds E Q N A VE su ws = (status, closed_flag, batches)"
    and "SessionMsg i (EvServerReady au pa orig ex req sel ip port) \<in> set (concat batches)"
  shows "origin_permitted (sv_allowed_origins su) orig \<and> sel = select_protocol (sv_supported_protocols su) req
    \<and> (\<exists>w\<in>set ws. \<exists>pkt src n r hdr od. Inr (pkt, src, n, r) \<in> set (sw_recv w) \<and> ip = show_ip (sa_ip src) \<and> port = sa_port src
         \<and> a_header A pkt LOCAL_CONN_ID_LEN = Some hdr
         \<and> ph_token hdr = Some (mint_token (a_sha256 A) (random_secret (ve_random VE)) od src))"
proof -
  let ?F = "proven A (random_secret (ve_random VE)) ws"
  have "sa.all_messages su ?F (concat batches)" by (rule sa.lifted_run [OF order_refl assms(2)])
  with assms(3) have a: "announces su ?F (EvServerReady au pa orig ex req sel ip port)"
    unfolding sa.all_messages_def by blast
  then obtain src where src: "src \<in> ?F" "ip = show_ip (sa_ip src)" "port = sa_port src" by auto
  then obtain w pkt n r hdr t od where w: "w \<in> set ws" "Inr (pkt, src, n, r) \<in> set (sw_recv w)"
    "a_header A pkt LOCAL_CONN_ID_LEN = Some hdr" "ph_token hdr = Some t"
    "validate_token (a_sha256 A) (random_secret (ve_random VE)) src t = Some od"
    by (auto simp: proven_def proven_in_def proves_def)
  have "t = mint_token (a_sha256 A) (random_secret (ve_random VE)) od src"
    using w(5) validate_token_iff [of "a_sha256 A", OF assms(1)] by blast
  with w(1-4) src(2,3) have "\<exists>w\<in>set ws. \<exists>pkt src n r hdr od. Inr (pkt, src, n, r) \<in> set (sw_recv w)
      \<and> ip = show_ip (sa_ip src) \<and> port = sa_port src \<and> a_header A pkt LOCAL_CONN_ID_LEN = Some hdr
      \<and> ph_token hdr = Some (mint_token (a_sha256 A) (random_secret (ve_random VE)) od src)" by blast
  with a show ?thesis by simp
qed

theorem server_admits_witness:
  "\<exists>batches. server_run three_rounds (mini_env wt_headers) mini_quic wt_net wt_acceptor wt_env wt_setup [wt_wake]
       = (Waiting, False, batches)
     \<and> SessionMsg 1 (EvServerReady ''h:1'' ''/a'' (Some ''https://o'') [(''x-a'', ''b'')] [] None ''127.0.0.1'' 443) \<in> set (concat batches)
     \<and> origin_permitted (sv_allowed_origins wt_setup) (Some ''https://o'')
     \<and> None = select_protocol (sv_supported_protocols wt_setup) []"
proof -
  have sha: "length (a_sha256 wt_acceptor x) = 32" for x by (simp add: wt_acceptor_def wt_sha256_length)
  obtain batches where b: "server_run three_rounds (mini_env wt_headers) mini_quic wt_net wt_acceptor wt_env wt_setup [wt_wake]
      = (Waiting, False, batches)" "SessionMsg 1 wt_ready \<in> set (concat batches)"
    by (rule wt_run_announces)
  from server_admits [OF sha b(1) b(2) [unfolded wt_ready_def]] b show ?thesis unfolding wt_ready_def by blast
qed

end
