(* ===== verification/Client_Admission.thy ===== *)
theory Client_Admission
  imports Driver_Props Session_Admission
begin

text \<open>
  What a client's thread tells its application about the session, over whole runs and however they end:
  polls that fail, shutdown and panics included.
\<close>

section \<open>The batches of a run\<close>

text \<open>Events the driver adds itself when it gives up.\<close>

fun gives_up :: "ev \<Rightarrow> bool" where
  "gives_up (EvError m) = True"
| "gives_up (EvClosed c r b) = True"
| "gives_up e = False"

text \<open>
  The batches are the log of a session that the driver operated on, from the state \<open>a\<close>, and then what the
  driver adds.
\<close>

definition batches_log :: "env \<Rightarrow> 'c quic \<Rightarrow> 'c sys \<Rightarrow> ev list list \<Rightarrow> bool" where
  "batches_log E Q a bs \<longleftrightarrow> (\<exists>s tail. steps E Q a s \<and> concat bs = evs s @ tail \<and> list_all gives_up tail)"

lemma batches_logI: "steps E Q a s \<Longrightarrow> concat bs = evs s @ tail \<Longrightarrow> list_all gives_up tail \<Longrightarrow> batches_log E Q a bs"
  unfolding batches_log_def by blast

lemma batches_log_told: "steps E Q a (d_sys d) \<Longrightarrow> told d \<Longrightarrow> batches_log E Q a (d_batches d)"
  by (rule batches_logI [of _ _ _ "d_sys d" _ "[]"]) (simp_all add: told_def)

lemma batches_log_more:
  assumes "steps E Q a b" and "batches_log E Q b bs"
  shows "batches_log E Q a bs"
  using assms steps_trans unfolding batches_log_def by blast

text \<open>How an iteration ends, whatever it was given.\<close>

definition wake_logs :: "env \<Rightarrow> 'c quic \<Rightarrow> 'c driver \<Rightarrow> 'c driver loop_next \<Rightarrow> bool" where
  "wake_logs E Q d r =
     (case r of
        Continue d' \<Rightarrow> steps E Q (d_sys d) (d_sys d') \<and> told d'
      | Return d' \<Rightarrow> batches_log E Q (d_sys d) (d_batches d')
      | PanicAt _ d' \<Rightarrow> batches_log E Q (d_sys d) (d_batches d')
      | Stuck \<Rightarrow> True)"

lemma wake_ok_logs:
  assumes "wake_ok E Q d r" and "told d"
  shows "wake_logs E Q d r"
proof -
  have same: "batches_log E Q (d_sys d) (d_batches d')" if "d_batches d' = d_batches d" for d' :: "'a driver"
    using batches_log_told [of E Q "d_sys d" d] assms(2) that by simp
  show ?thesis using assms(1) same batches_log_told
    by (cases r) (auto simp: wake_ok_def wake_logs_def)
qed

lemma run_wake_logs:
  assumes "told d"
  shows "wake_logs E Q d (run_wake rounds E Q N la tp w d)"
proof (cases "plain_wake w")
  case True
  from wake_ok_logs [OF run_wake_ok [OF assms True] assms] show ?thesis .
next
  case False
  show ?thesis
  proof (cases "w_poll w")
    case (PollErr e)
    have "batches_log E Q (d_sys d) (d_batches (emit [EvError m] d))" for m
      by (rule batches_logI [of _ _ _ "d_sys d" _ "[EvError m]"])
        (use assms in \<open>simp_all add: emit_def told_def\<close>)
    with PollErr assms show ?thesis by (cases e) (simp_all add: run_wake_def wake_logs_def)
  next
    case (PollOk no_events)
    with False have sd: "Shutdown \<in> set (w_cmds w)" by (simp add: plain_wake_def)
    have old: "batches_log E Q (d_sys d) (d_batches d)" using batches_log_told assms by blast
    obtain got s1 where r: "recv_packets N la (w_recv w) (False, d_sys d) = (got, s1)" by fastforce
    let ?s2 = "if \<not> got \<and> no_events then s1\<lparr>conn := q_on_timeout Q (conn s1)\<rparr> else s1"
    obtain b s3 where c: "drain_commands Q (w_cmds w) ?s2 = (b, s3)" by fastforce
    have b using drain_commands_shutdown [OF c] sd by blast
    show ?thesis using old PollOk r c \<open>b\<close>
      by (simp add: run_wake_def wake_logs_def Let_def split: option.split)
  qed
qed

lemma run_wakes_logs:
  "told d \<Longrightarrow> wake_logs E Q d (run_wakes rounds E Q N la tp ws d)"
proof (induction ws arbitrary: d)
  case (Cons w ws)
  note one = run_wake_logs [OF Cons.prems, of E Q rounds N la tp w]
  show ?case
  proof (cases "run_wake rounds E Q N la tp w d")
    case (Continue d1)
    with one have d1: "steps E Q (d_sys d) (d_sys d1)" "told d1" by (simp_all add: wake_logs_def)
    from Cons.IH [OF d1(2)] have "wake_logs E Q d (run_wakes rounds E Q N la tp ws d1)"
      using batches_log_more [OF d1(1)] steps_trans [OF d1(1)]
      by (auto simp: wake_logs_def split: loop_next.splits)
    with Continue show ?thesis by simp
  qed (use one in simp_all)
qed (simp add: wake_logs_def)

lemma catch_panic_logs:
  assumes "wake_logs E Q d r" and "d_sys d = a" and "evs a = []"
  shows "batches_log E Q a (snd (snd (catch_panic r)))"
proof (cases r)
  case (Continue d')
  with assms(1,2) batches_log_told [of E Q a d'] show ?thesis by (simp add: wake_logs_def catch_panic_def)
next
  case (Return d')
  with assms(1,2) show ?thesis by (simp add: wake_logs_def catch_panic_def)
next
  case (PanicAt m d')
  with assms(1,2) obtain s tail where "steps E Q a s" "concat (d_batches d') = evs s @ tail" "list_all gives_up tail"
    by (auto simp: wake_logs_def batches_log_def)
  then show ?thesis
    by (intro batches_logI [of E Q a s _ "tail @ [EvError (''rwebtransport internal driver error: '' @ m),
          EvClosed 0 (as_bytes ''driver panic'') False]"]) (simp_all add: PanicAt catch_panic_def)
next
  case Stuck
  show ?thesis by (rule batches_logI [of _ _ _ a _ "[]"]) (simp_all add: Stuck catch_panic_def assms(3))
qed

lemma run_inner_logs:
  fixes su :: session_setup
  shows "batches_log E Q (d_sys (driver_start su c)) (snd (snd (catch_panic (run_inner rounds E Q N reg la tp ws (driver_start su c)))))"
proof -
  let ?d = "driver_start su c"
  have start: "evs (d_sys ?d) = []" by (simp add: driver_start_def session_start_def)
  show ?thesis
  proof (cases reg)
    case (Some e)
    have "wake_logs E Q ?d (run_inner rounds E Q N reg la tp ws ?d)"
      by (simp add: Some run_inner_def wake_logs_def)
        (rule batches_logI [of _ _ _ "d_sys ?d" _ "[EvError (''failed to register socket: '' @ e)]"],
          simp_all add: emit_def driver_start_def session_start_def)
    then show ?thesis by (rule catch_panic_logs) (simp_all add: start)
  next
    case None
    show ?thesis
    proof (cases "flush_send (rounds (conn (d_sys ?d))) N (conn (d_sys ?d)) (d_sent ?d)")
      case (Some p)
      obtain c1 sent where p: "p = (c1, sent)" by fastforce
      let ?d1 = "?d\<lparr>d_sys := (d_sys ?d)\<lparr>conn := c1\<rparr>, d_sent := sent\<rparr>"
      have "told ?d1" by simp
      from run_wakes_logs [OF this] have "wake_logs E Q ?d1 (run_inner rounds E Q N reg la tp ws ?d)"
        by (simp add: None run_inner_def Some p)
      then have "batches_log E Q (d_sys ?d1) (snd (snd (catch_panic (run_inner rounds E Q N reg la tp ws ?d))))"
        by (rule catch_panic_logs) (simp_all add: start)
      moreover have "steps E Q (d_sys ?d) (d_sys ?d1)" by (simp add: steps_network)
      ultimately show ?thesis by (rule batches_log_more [rotated])
    qed (use catch_panic_logs [of E Q ?d Stuck "d_sys ?d"] start in \<open>simp add: None run_inner_def wake_logs_def\<close>)
  qed
qed

lemma run_logs:
  "list_all gives_up (concat (snd (snd (run rounds E Q N tp SE su ws))))
   \<or> (\<exists>c. batches_log E Q (d_sys (driver_start su c)) (snd (snd (run rounds E Q N tp SE su ws))))"
proof -
  define P where "P = (\<lambda>r :: run_result. list_all gives_up (concat (snd (snd r)))
    \<or> (\<exists>c. batches_log E Q (d_sys (driver_start su c)) (snd (snd r))))"
  have "P (emit_fatal sh m)" for sh m by (simp add: P_def emit_fatal_def)
  moreover have "P (catch_panic (run_inner rounds E Q N reg la tp ws (driver_start su c)))" for reg la c
    unfolding P_def by (rule disjI2, rule exI, rule run_inner_logs)
  ultimately have "P (run rounds E Q N tp SE su ws)" by (simp add: run_def split: option.split sum.split)
  then show ?thesis by (simp add: P_def)
qed

section \<open>What the application is told\<close>

fun announced :: "string list \<Rightarrow> ev \<Rightarrow> bool" where
  "announced ps (EvReady p hs) = offered ps p"
| "announced ps e = True"

lemma gives_up_quiet: "list_all gives_up es \<Longrightarrow> filter is_client_ready es = [] \<and> list_all (announced ps) es"
proof (induction es)
  case (Cons e es)
  then show ?case by (cases e) simp_all
qed simp

text \<open>
  Claim C17. Whatever the network, the server and the application do, and however the thread of a client ends, the
  application is told at most once that its session is ready, and then with a subprotocol that it had
  offered, or with none.
\<close>

theorem client_announces_once:
  "length (filter is_client_ready (concat (snd (snd (run rounds E Q N tp SE su ws))))) \<le> 1
   \<and> list_all (announced (su_protocols su)) (concat (snd (snd (run rounds E Q N tp SE su ws))))"
proof -
  let ?bs = "snd (snd (run rounds E Q N tp SE su ws))"
  have "length (filter is_client_ready (concat ?bs)) \<le> 1 \<and> list_all (announced (su_protocols su)) (concat ?bs)"
    if log: "batches_log E Q (d_sys (driver_start su c)) ?bs" for c
  proof -
    let ?a = "d_sys (driver_start su c)"
    from log obtain s tail where s: "steps E Q ?a s" "concat ?bs = evs s @ tail" "list_all gives_up tail"
      by (auto simp: batches_log_def)
    have a: "evs ?a = []" "\<not> s_ready (sess ?a)" "s_protocols (sess ?a) = su_protocols su"
      by (simp_all add: driver_start_def session_start_def new_client_def)
    from ad.session_steps_rel [OF s(1)] a(1,2) have
      ad: "list_all (admitted (sess ?a)) (evs s)" "length (filter is_client_ready (evs s)) \<le> 1"
      by (auto simp: admits_def split: if_splits)
    have "announced (su_protocols su) e" if "admitted (sess ?a) e" for e
      using that a(3) by (cases e) simp_all
    with ad s(2) gives_up_quiet [OF s(3), of "su_protocols su"] show ?thesis by (auto simp: list_all_iff)
  qed
  moreover have "length (filter is_client_ready (concat ?bs)) \<le> 1 \<and> list_all (announced (su_protocols su)) (concat ?bs)"
    if "list_all gives_up (concat ?bs)" using gives_up_quiet [OF that] by simp
  ultimately show ?thesis using run_logs [of rounds E Q N tp SE su ws] by blast
qed

end
