(* ===== verification/Test_Cert.thy ===== *)
theory Test_Cert
  imports Tls
begin

text \<open>
  \<^verbatim>\<open>crates/echo-server/src/bin/gen-test-cert.rs\<close>: the certificate of the tests. BoringSSL and the file system
  are the parameter \<open>boring\<close>; the certificate under construction is the record of what has been set on
  it. The lemmas compose the generator with the check of the client in \<open>Tls\<close>.
\<close>

section \<open>The generator\<close>

datatype san = SanDns string | SanIp string

datatype message_digest = Sha256

record ('k, 't) cert_builder =
  cb_version :: nat
  cb_serial :: "u32 option"
  cb_subject :: "(string \<times> string) list"
  cb_issuer :: "(string \<times> string) list"
  cb_pubkey :: "'k option"
  cb_not_before :: "'t option"
  cb_not_after :: "'t option"
  cb_extensions :: "san list list"

definition cert_builder_new :: "('k, 't) cert_builder" where
  "cert_builder_new =
     \<lparr>cb_version = 0, cb_serial = None, cb_subject = [], cb_issuer = [], cb_pubkey = None, cb_not_before = None,
      cb_not_after = None, cb_extensions = []\<rparr>"

text \<open>
  What the program calls: keys, times (a number of days after a reading of the clock), the calls that
  only succeed or fail, by the message \<^verbatim>\<open>expect\<close> would print, and files.
\<close>

record ('k, 'x, 't) boring =
  bo_rsa :: "nat \<Rightarrow> 'k option"
  bo_ec :: "nid \<Rightarrow> 'k option"
  bo_days_from_now :: "int \<Rightarrow> u32 \<Rightarrow> 't option"
  bo_ok :: "string \<Rightarrow> bool"
  bo_sign :: "('k, 't) cert_builder \<Rightarrow> 'k \<Rightarrow> message_digest \<Rightarrow> 'x option"
  bo_cert_pem :: "'x \<Rightarrow> string option"
  bo_key_pem :: "'k \<Rightarrow> string option"
  bo_write :: "string \<Rightarrow> string \<Rightarrow> bool"

text \<open>\<^verbatim>\<open>expect\<close>: go on with the change, or panic.\<close>

definition expect :: "('k, 'x, 't) boring \<Rightarrow> string \<Rightarrow> ('b \<Rightarrow> 'b) \<Rightarrow> 'b \<Rightarrow> 'b option" where
  "expect G msg f b = (if bo_ok G msg then Some (f b) else None)"

definition days_arg :: "string list \<Rightarrow> u32" where
  "days_arg rest =
     (case rest of [] \<Rightarrow> 13 | d # _ \<Rightarrow> (case parse_u32 d of Some n \<Rightarrow> n | None \<Rightarrow> 13))"

definition key_type_arg :: "string list \<Rightarrow> string" where
  "key_type_arg rest = (case rest of _ # t # _ \<Rightarrow> t | _ \<Rightarrow> ''ec'')"

definition make_key :: "('k, 'x, 't) boring \<Rightarrow> string \<Rightarrow> 'k option" where
  "make_key G key_type = (if key_type = ''rsa'' then bo_rsa G 2048 else bo_ec G X9_62_PRIME256V1)"

definition build_name :: "('k, 'x, 't) boring \<Rightarrow> (string \<times> string) list option" where
  "build_name G =
     Option.bind (expect G ''name builder'' id []) (expect G ''CN'' (\<lambda>n. n @ [(''CN'', ''localhost'')]))"

text \<open>The two dates are computed one after the other: the clock reads \<open>t0\<close>, then \<open>t1\<close>.\<close>

definition build_cert ::
  "('k, 'x, 't) boring \<Rightarrow> int \<Rightarrow> int \<Rightarrow> 'k \<Rightarrow> u32 \<Rightarrow> (string \<times> string) list \<Rightarrow> 'x option" where
  "build_cert G t0 t1 pkey days name =
     Option.bind (expect G ''x509 builder'' id cert_builder_new) (\<lambda>b.
     Option.bind (expect G ''v3'' (cb_version_update (\<lambda>_. 2)) b) (\<lambda>b.
     Option.bind (expect G ''serial'' (cb_serial_update (\<lambda>_. Some 1)) b) (\<lambda>b.
     Option.bind (expect G ''subject'' (cb_subject_update (\<lambda>_. name)) b) (\<lambda>b.
     Option.bind (expect G ''issuer'' (cb_issuer_update (\<lambda>_. name)) b) (\<lambda>b.
     Option.bind (expect G ''pubkey'' (cb_pubkey_update (\<lambda>_. Some pkey)) b) (\<lambda>b.
     Option.bind (bo_days_from_now G t0 0) (\<lambda>not_before.
     Option.bind (bo_days_from_now G t1 days) (\<lambda>not_after.
     Option.bind (expect G ''set not_before'' (cb_not_before_update (\<lambda>_. Some not_before)) b) (\<lambda>b.
     Option.bind (expect G ''set not_after'' (cb_not_after_update (\<lambda>_. Some not_after)) b) (\<lambda>b.
     Option.bind (expect G ''SAN'' (\<lambda>san. san @ [SanDns ''localhost'', SanIp ''127.0.0.1'', SanIp ''::1'']) []) (\<lambda>san.
     Option.bind (expect G ''append SAN'' (cb_extensions_update (\<lambda>es. es @ [san])) b) (\<lambda>b.
       bo_sign G b pkey Sha256))))))))))))"

text \<open>How the program ends: with a status, or by a panic. The files written by then stay.\<close>

datatype gen_end = GenExit nat | GenPanicked

definition gen_test_cert ::
  "('k, 'x, 't) boring \<Rightarrow> int \<Rightarrow> int \<Rightarrow> string list \<Rightarrow> gen_end \<times> (string \<times> string) list" where
  "gen_test_cert G t0 t1 args =
     (case args of
        cert_path # key_path # rest \<Rightarrow>
         (let days = days_arg rest;
              key_type = key_type_arg rest
          in case make_key G key_type of
               None \<Rightarrow> (GenPanicked, [])
             | Some pkey \<Rightarrow>
                (case Option.bind (build_name G) (build_cert G t0 t1 pkey days) of
                   None \<Rightarrow> (GenPanicked, [])
                 | Some cert \<Rightarrow>
                    (case bo_cert_pem G cert of
                       None \<Rightarrow> (GenPanicked, [])
                     | Some pem \<Rightarrow>
                        if \<not> bo_write G cert_path pem then (GenPanicked, [])
                        else
                          (case bo_key_pem G pkey of
                             None \<Rightarrow> (GenPanicked, [(cert_path, pem)])
                           | Some kpem \<Rightarrow>
                              if \<not> bo_write G key_path kpem then (GenPanicked, [(cert_path, pem)])
                              else (GenExit 0, [(cert_path, pem), (key_path, kpem)])))))
      | _ \<Rightarrow> (GenExit 2, []))"

section \<open>The certificate and the client's check\<close>

text \<open>
  The documented behaviour of BoringSSL, where nothing fails: a time is so many days after the clock's
  reading, and a signed certificate reads back as it was built. \<open>MAX_DAYS\<close> keeps the dates where ASN.1 can
  express them.
\<close>

definition MAX_DAYS :: nat where "MAX_DAYS = 10000"

definition boring_works :: "('k, 'x, 't) boring \<Rightarrow> bool" where
  "boring_works G \<longleftrightarrow>
     (\<forall>msg. bo_ok G msg) \<and> bo_rsa G 2048 \<noteq> None \<and> bo_ec G X9_62_PRIME256V1 \<noteq> None
     \<and> (\<forall>t d. unat d \<le> MAX_DAYS \<longrightarrow> bo_days_from_now G t d \<noteq> None)
     \<and> (\<forall>b k m. bo_sign G b k m \<noteq> None) \<and> (\<forall>x. bo_cert_pem G x \<noteq> None) \<and> (\<forall>k. bo_key_pem G k \<noteq> None)
     \<and> (\<forall>p c. bo_write G p c)"

definition boring_reads :: "('k, 'x, 't) boring \<Rightarrow> ('x, 't) x509 \<Rightarrow> ('t \<Rightarrow> int) \<Rightarrow> bool" where
  "boring_reads G X secs \<longleftrightarrow>
     (\<forall>t d x. bo_days_from_now G t d = Some x \<longrightarrow> secs x = t + int (unat d) * 86400)
     \<and> (\<forall>b k m x nb na. bo_sign G b k m = Some x \<and> cb_not_before b = Some nb \<and> cb_not_after b = Some na \<longrightarrow>
           x_not_before X x = nb \<and> x_not_after X x = na)
     \<and> (\<forall>b k m x pk. bo_sign G b k m = Some x \<and> cb_pubkey b = Some pk \<and> bo_ec G X9_62_PRIME256V1 = Some pk \<longrightarrow>
           x_public_key X x = Some EC \<and> x_ec_curve X x = Some (Some X9_62_PRIME256V1))
     \<and> (\<forall>b k m x pk. bo_sign G b k m = Some x \<and> cb_pubkey b = Some pk \<and> bo_rsa G 2048 = Some pk \<longrightarrow>
           x_public_key X x = Some OtherKey)"

lemma boring_worksD:
  assumes "boring_works G"
  shows "bo_ok G msg" "\<exists>k. bo_rsa G 2048 = Some k" "\<exists>k. bo_ec G X9_62_PRIME256V1 = Some k"
    "unat d \<le> MAX_DAYS \<Longrightarrow> \<exists>t'. bo_days_from_now G t d = Some t'"
    "\<exists>x. bo_sign G b k m = Some x" "\<exists>c. bo_cert_pem G x = Some c" "\<exists>c. bo_key_pem G k = Some c" "bo_write G p c"
  using assms by (simp_all add: boring_works_def)

lemma build_name_works: "boring_works G \<Longrightarrow> build_name G = Some [(''CN'', ''localhost'')]"
  by (simp add: build_name_def expect_def boring_works_def)

text \<open>The builder that is signed: version 3, self-issued, with the two dates and the names of the local host.\<close>

definition signed_builder :: "'k \<Rightarrow> (string \<times> string) list \<Rightarrow> 't \<Rightarrow> 't \<Rightarrow> ('k, 't) cert_builder" where
  "signed_builder k name nb na =
     \<lparr>cb_version = 2, cb_serial = Some 1, cb_subject = name, cb_issuer = name, cb_pubkey = Some k,
      cb_not_before = Some nb, cb_not_after = Some na,
      cb_extensions = [[SanDns ''localhost'', SanIp ''127.0.0.1'', SanIp ''::1'']]\<rparr>"

lemma build_cert_works:
  assumes "boring_works G" and na: "bo_days_from_now G t1 days = Some na"
  obtains nb x where "bo_days_from_now G t0 0 = Some nb"
    "bo_sign G (signed_builder k name nb na) k Sha256 = Some x" "build_cert G t0 t1 k days name = Some x"
proof -
  have "unat (0 :: u32) \<le> MAX_DAYS" by simp
  from boring_worksD(4) [OF assms(1) this, of t0] obtain nb where nb: "bo_days_from_now G t0 0 = Some nb" by blast
  from boring_worksD(5) [OF assms(1)] obtain x where
    x: "bo_sign G (signed_builder k name nb na) k Sha256 = Some x" by blast
  with nb na have "build_cert G t0 t1 k days name = Some x"
    by (simp add: build_cert_def expect_def boring_worksD(1) [OF assms(1)] cert_builder_new_def signed_builder_def)
  with nb x that show thesis by blast
qed

text \<open>What kind of key the signed certificate has.\<close>

lemma signed_key:
  assumes reads: "boring_reads G X secs" and k: "make_key G key_type = Some k"
    and x: "bo_sign G (signed_builder k name nb na) k Sha256 = Some x"
  shows "is_ecdsa_p256 X x \<longleftrightarrow> key_type \<noteq> ''rsa''"
proof (cases "key_type = ''rsa''")
  case True
  with k have "bo_rsa G 2048 = Some k" by (simp add: make_key_def)
  with reads x have "x_public_key X x = Some OtherKey"
    unfolding boring_reads_def by (fastforce simp: signed_builder_def)
  with True show ?thesis by (simp add: is_ecdsa_p256_iff)
next
  case False
  with k have "bo_ec G X9_62_PRIME256V1 = Some k" by (simp add: make_key_def)
  with reads x have "x_public_key X x = Some EC \<and> x_ec_curve X x = Some (Some X9_62_PRIME256V1)"
    unfolding boring_reads_def by (fastforce simp: signed_builder_def)
  with False show ?thesis by (simp add: is_ecdsa_p256_iff)
qed

lemma gen_test_cert_or_fails:
  assumes works: "boring_works G"
  obtains "gen_test_cert G t0 t1 (cert_path # key_path # rest) = (GenPanicked, [])"
      "bo_days_from_now G t1 (days_arg rest) = None"
    | k nb na x pem kpem where "make_key G (key_type_arg rest) = Some k"
      "bo_days_from_now G t0 0 = Some nb" "bo_days_from_now G t1 (days_arg rest) = Some na"
      "bo_sign G (signed_builder k [(''CN'', ''localhost'')] nb na) k Sha256 = Some x"
      "bo_cert_pem G x = Some pem" "bo_key_pem G k = Some kpem"
      "gen_test_cert G t0 t1 (cert_path # key_path # rest) = (GenExit 0, [(cert_path, pem), (key_path, kpem)])"
proof (cases "bo_days_from_now G t1 (days_arg rest)")
  case None
  from boring_worksD(2,3) [OF works] obtain k where k: "make_key G (key_type_arg rest) = Some k"
    by (cases "key_type_arg rest = ''rsa''") (auto simp: make_key_def)
  have "unat (0 :: u32) \<le> MAX_DAYS" by simp
  from boring_worksD(4) [OF works this, of t0] obtain nb where "bo_days_from_now G t0 0 = Some nb" by blast
  with None have "build_cert G t0 t1 k (days_arg rest) name = None" for name
    by (simp add: build_cert_def expect_def boring_worksD(1) [OF works])
  with None k that(1) show thesis by (simp add: gen_test_cert_def build_name_works [OF works] Let_def)
next
  case (Some na)
  from boring_worksD(2,3) [OF works] obtain k where k: "make_key G (key_type_arg rest) = Some k"
    by (cases "key_type_arg rest = ''rsa''") (auto simp: make_key_def)
  from build_cert_works [OF works Some] obtain nb x where
    x: "bo_days_from_now G t0 0 = Some nb"
      "bo_sign G (signed_builder k [(''CN'', ''localhost'')] nb na) k Sha256 = Some x"
      "build_cert G t0 t1 k (days_arg rest) [(''CN'', ''localhost'')] = Some x" by blast
  from boring_worksD(6,7) [OF works] obtain pem kpem where
    pem: "bo_cert_pem G x = Some pem" "bo_key_pem G k = Some kpem" by blast
  from k x(3) pem have
    "gen_test_cert G t0 t1 (cert_path # key_path # rest) = (GenExit 0, [(cert_path, pem), (key_path, kpem)])"
    by (simp add: gen_test_cert_def build_name_works [OF works] boring_worksD(8) [OF works] Let_def)
  with k Some x pem that(2) show thesis by blast
qed

text \<open>
  Claim C20. When the calls of the generator work and the clock moves on by at most a day between its two
  readings, one of two things happens. Either BoringSSL cannot express the end of the validity (which needs
  more than \<open>MAX_DAYS\<close> days) and the program panics before it writes a file; or it writes a certificate and
  its key, and the client that has pinned the certificate's hash takes it exactly if the key is not
  RSA, the time is from the first reading to so many days after the second, and these make up at
  most two weeks. Up to 13 days, the default among them, the last condition always holds; with more
  than 14 days it never does, and the certificate is never taken.
\<close>

theorem fixture_fits_pinning:
  assumes works: "boring_works G" and reads: "boring_reads G X secs" and laws: "clock_laws X secs"
    and now: "x_now X = Some now" and clock: "t0 \<le> t1" "t1 - t0 \<le> 86400"
  shows "gen_test_cert G t0 t1 (cert_path # key_path # rest) = (GenPanicked, []) \<and> MAX_DAYS < unat (days_arg rest)
    \<or> (\<exists>x pem kpem.
        gen_test_cert G t0 t1 (cert_path # key_path # rest) = (GenExit 0, [(cert_path, pem), (key_path, kpem)])
        \<and> bo_cert_pem G x = Some pem
        \<and> (\<forall>h. x_digest X x = Some h \<longrightarrow>
             (pinned_callback X [h] (Some x) = Inr ()
              \<longleftrightarrow> key_type_arg rest \<noteq> ''rsa'' \<and> t0 \<le> secs now \<and> secs now \<le> t1 + int (unat (days_arg rest)) * 86400
                 \<and> int (unat (days_arg rest)) * 86400 + (t1 - t0) \<le> 14 * 86400)
             \<and> (unat (days_arg rest) \<le> 13 \<and> key_type_arg rest \<noteq> ''rsa'' \<longrightarrow>
                  (pinned_callback X [h] (Some x) = Inr ()
                   \<longleftrightarrow> t0 \<le> secs now \<and> secs now \<le> t1 + int (unat (days_arg rest)) * 86400))
             \<and> (rest = [] \<longrightarrow> (pinned_callback X [h] (Some x) = Inr () \<longleftrightarrow> t0 \<le> secs now \<and> secs now \<le> t1 + 13 * 86400))
             \<and> (14 < unat (days_arg rest) \<longrightarrow> pinned_callback X [h] (Some x) \<noteq> Inr ())))"
proof (cases rule: gen_test_cert_or_fails [OF works, of t0 t1 cert_path key_path rest])
  case 1
  then have "\<not> unat (days_arg rest) \<le> MAX_DAYS" using boring_worksD(4) [OF works, of "days_arg rest" t1] by auto
  with 1 show ?thesis by simp
next
  case (2 k nb na x pem kpem)
  have secs: "secs nb = t0" "secs na = t1 + int (unat (days_arg rest)) * 86400"
    using reads 2(2,3) unfolding boring_reads_def by fastforce+
  have read: "x_not_before X x = nb \<and> x_not_after X x = na"
    using reads 2(4) unfolding boring_reads_def by (fastforce simp: signed_builder_def)
  have key: "is_ecdsa_p256 X x \<longleftrightarrow> key_type_arg rest \<noteq> ''rsa''"
    by (rule signed_key [OF reads 2(1,4)])
  have iff: "pinned_callback X [h] (Some x) = Inr () \<longleftrightarrow>
      key_type_arg rest \<noteq> ''rsa'' \<and> t0 \<le> secs now \<and> secs now \<le> t1 + int (unat (days_arg rest)) * 86400
      \<and> int (unat (days_arg rest)) * 86400 + (t1 - t0) \<le> 14 * 86400"
    if "x_digest X x = Some h" for h
    using that clock
    by (auto simp: pinned_callback_iff verify_pinned_cert_validity_iff [OF laws now] key pinned_valid_def read secs)
  have few: "int (unat (days_arg rest)) * 86400 + (t1 - t0) \<le> 14 * 86400" if "unat (days_arg rest) \<le> 13"
  proof -
    from that have "int (unat (days_arg rest)) \<le> 13" by linarith
    with clock show ?thesis by linarith
  qed
  have many: "\<not> int (unat (days_arg rest)) * 86400 + (t1 - t0) \<le> 14 * 86400" if "14 < unat (days_arg rest)"
  proof -
    from that have "15 \<le> int (unat (days_arg rest))" by linarith
    with clock show ?thesis by linarith
  qed
  have default: "rest = [] \<Longrightarrow> days_arg rest = 13 \<and> key_type_arg rest = ''ec''" by (simp add: days_arg_def key_type_arg_def)
  show ?thesis
    using 2(5,7) iff few many default by (intro disjI2 exI [of _ x] exI [of _ pem] exI [of _ kpem]) auto
qed

text \<open>A model: a certificate is the kind of its key and its two dates, in seconds; dates beyond \<open>MAX_DAYS\<close> fail.\<close>

definition mini_boring :: "(bool, bool \<times> int \<times> int, int) boring" where
  "mini_boring =
     \<lparr>bo_rsa = (\<lambda>_. Some False), bo_ec = (\<lambda>_. Some True),
      bo_days_from_now = (\<lambda>t d. if unat d \<le> MAX_DAYS then Some (t + int (unat d) * 86400) else None), bo_ok = (\<lambda>_. True),
      bo_sign = (\<lambda>b k m. Some (cb_pubkey b = Some True,
        (case cb_not_before b of Some t \<Rightarrow> t | None \<Rightarrow> 0), (case cb_not_after b of Some t \<Rightarrow> t | None \<Rightarrow> 0))),
      bo_cert_pem = (\<lambda>_. Some ''cert''), bo_key_pem = (\<lambda>_. Some ''key''), bo_write = (\<lambda>_ _. True)\<rparr>"

definition fixture_x509 :: "(bool \<times> int \<times> int, int) x509" where
  "fixture_x509 =
     \<lparr>x_digest = (\<lambda>_. Some [7]), x_now = Some 1000, x_not_before = (\<lambda>(_, nb, _). nb), x_not_after = (\<lambda>(_, _, na). na),
      x_compare = x_compare mini_x509, x_diff = x_diff mini_x509,
      x_public_key = (\<lambda>(ec, _). Some (if ec then EC else OtherKey)),
      x_ec_curve = (\<lambda>(ec, _). Some (if ec then Some X9_62_PRIME256V1 else None))\<rparr>"

lemma fixture_laws:
  "boring_works mini_boring" "boring_reads mini_boring fixture_x509 (\<lambda>t. t)" "clock_laws fixture_x509 (\<lambda>t. t)"
  "x_now fixture_x509 = Some 1000"
  using mini_clock_laws by (auto simp: boring_works_def boring_reads_def mini_boring_def fixture_x509_def clock_laws_def)

theorem fixture_fits_pinning_witness:
  "(\<exists>x pem kpem. gen_test_cert mini_boring 1000 1000 [''c'', ''k''] = (GenExit 0, [(''c'', pem), (''k'', kpem)])
      \<and> pinned_callback fixture_x509 [[7]] (Some x) = Inr ())
   \<and> (\<exists>x pem kpem. gen_test_cert mini_boring 1000 1000 [''c'', ''k'', ''15''] = (GenExit 0, [(''c'', pem), (''k'', kpem)])
      \<and> pinned_callback fixture_x509 [[7]] (Some x) \<noteq> Inr ())
   \<and> (\<exists>x pem kpem. gen_test_cert mini_boring 1000 1000 [''c'', ''k'', ''13'', ''rsa''] = (GenExit 0, [(''c'', pem), (''k'', kpem)])
      \<and> pinned_callback fixture_x509 [[7]] (Some x) \<noteq> Inr ())
   \<and> gen_test_cert mini_boring 1000 1000 [''c'', ''k'', ''20000''] = (GenPanicked, [])"
proof -
  have args: "days_arg [] = 13" "days_arg [''15''] = 15" "days_arg [''13'', ''rsa''] = 13" "days_arg [''20000''] = 20000"
    "key_type_arg [] = ''ec''" "key_type_arg [''15''] = ''ec''" "key_type_arg [''13'', ''rsa''] = ''rsa''"
    "key_type_arg [''20000''] = ''ec''"
    by (simp_all add: days_arg_def key_type_arg_def parse_u32_def parse_uint_def is_digit_def digit_val_def)
  have d: "x_digest fixture_x509 x = Some [7]" for x by (simp add: fixture_x509_def)
  have gen: "gen_test_cert mini_boring 1000 1000 (''c'' # ''k'' # rest) = (GenPanicked, []) \<and> MAX_DAYS < unat (days_arg rest)
    \<or> (\<exists>x pem kpem. gen_test_cert mini_boring 1000 1000 (''c'' # ''k'' # rest) = (GenExit 0, [(''c'', pem), (''k'', kpem)])
        \<and> (pinned_callback fixture_x509 [[7]] (Some x) = Inr ()
            \<longleftrightarrow> key_type_arg rest \<noteq> ''rsa'' \<and> int (unat (days_arg rest)) * 86400 \<le> 14 * 86400))" for rest
    using fixture_fits_pinning [OF fixture_laws, of 1000 1000 "''c''" "''k''" rest] d by fastforce
  have "gen_test_cert mini_boring 1000 1000 [''c'', ''k'', ''20000''] = (GenPanicked, [])"
    by (simp add: gen_test_cert_def args Let_def make_key_def build_cert_def expect_def mini_boring_def build_name_def
        MAX_DAYS_def)
  with gen [of "[]"] gen [of "[''15'']"] gen [of "[''13'', ''rsa'']"] show ?thesis
    by (simp add: args MAX_DAYS_def)
qed

end
