(* ===== verification/Spec2Isabelle.thy ===== *)
theory Spec2Isabelle
  imports Bindings_Props Backpressure Echo_Props Session_Streams Session_Credit Server_Commands Server_Admission
    Client_Admission Test_Cert
begin

text \<open>
  A verification development of rwebtransport: WebTransport over HTTP/3 for Node.js. The program is a native addon in
  Rust (\<^verbatim>\<open>crates/native\<close>) that runs QUIC by the vendored \<^verbatim>\<open>quiche\<close> and adds what makes a QUIC
  connection a WebTransport session; \<^verbatim>\<open>crates/wtcore\<close> holds the HTTP/3 primitives it shares with the
  echo server of the tests (\<^verbatim>\<open>crates/echo-server\<close>); a layer of TypeScript puts the W3C interface on
  top.

  \<^bold>\<open>The program and the theories.\<close> From the bytes up, with the file each theory follows:

  \<^item> \<open>Prelude\<close>, \<open>Rust_Std\<close>, \<open>Net_Addr\<close>: machine words, hash maps as association lists, and the parts of
    the Rust standard library the sources call (saturating arithmetic, UTF-8, trimming, number
    parsing, the textual form of IP addresses).
  \<^item> \<open>Varint\<close>, \<open>H3\<close> (\<^verbatim>\<open>wtcore/src/h3.rs\<close>): variable-length integers, the mapping between
    WebTransport and HTTP/3 error codes, close reasons; frames, SETTINGS, the header lists of CONNECT and the
    structured fields in them.
  \<^item> \<open>Parser_Memory\<close> (\<^verbatim>\<open>native/src/parser_memory.rs\<close>): the chain of byte budgets (connection below
    server) and the buffers charged to it.
  \<^item> \<open>Session_Types\<close>, \<open>Session_Core\<close>, \<open>Session_Recv\<close>, \<open>Session_Frames\<close>, \<open>Session_Readable\<close>,
    \<open>Session_Flush\<close> (\<^verbatim>\<open>native/src/session.rs\<close>): one WebTransport session, client or server.
    The Rust struct \<^verbatim>\<open>WtSession\<close> is the record \<open>wt_session\<close> with a field per field; a method
    \<^verbatim>\<open>f(&mut self, conn, ev)\<close> is a function \<open>f\<close> on \<open>sys\<close>, which holds the session, the
    connection and the events pushed so far. \<open>Session_Recv\<close> is the capsule parser,
    \<open>Session_Frames\<close> the CONNECT exchange and the control stream, \<open>Session_Readable\<close> the classification of
    streams and \<^verbatim>\<open>on_readable\<close>, \<open>Session_Flush\<close> the sending side.
  \<^item> \<open>Tls\<close>, \<open>Config\<close> (\<^verbatim>\<open>tls.rs\<close>, \<^verbatim>\<open>config.rs\<close>): the client's TLS profile, the check of a pinned
    certificate, the QUIC configurations. As in BoringSSL, \<open>verify_peer\<close> of the configuration replaces the
    verification callback of the context it is given.
  \<^item> \<open>Driver\<close> (\<^verbatim>\<open>driver.rs\<close>): the thread of a client session. Each turn of its loop is a \<open>wake\<close>, the data
    the operating system and the other threads hand it; \<open>run\<close> takes the list of them.
  \<^item> \<open>Retry_Token\<close>, \<open>Server\<close> (\<^verbatim>\<open>server.rs\<close>): address validation tokens; the server thread with its
    tables (\<open>sv_clients\<close>, \<open>sv_routing\<close>, \<open>sv_sessions\<close> for \<^verbatim>\<open>clients\<close>, \<^verbatim>\<open>routing\<close>,
    \<^verbatim>\<open>sessions\<close>), in turns of \<open>serve_wake\<close>.
  \<^item> \<open>Bindings\<close>, \<open>Backpressure\<close> (\<^verbatim>\<open>lib.rs\<close>): the exported functions, from JavaScript values to commands
    and from events to objects; the counter of batches in flight between the driver and the
    JavaScript thread, as two interleaving threads.
  \<^item> \<open>Echo\<close> (\<^verbatim>\<open>echo-server/src/main.rs\<close>): one connection of the echo server, and its \<^verbatim>\<open>main\<close>: the arguments,
    the set-up with its exits and panics, the turns of the loop.
  \<^item> \<open>Test_Cert\<close> (\<^verbatim>\<open>echo-server/src/bin/gen-test-cert.rs\<close>): the program that makes the certificate of the
    tests.

  They fit together as in the code: a call of \<open>Bindings\<close> becomes a command; a turn of \<open>Driver\<close> or
  \<open>Server\<close> takes commands and packets to operations of the session (the step relation
  \<open>session_step\<close> of \<open>Session_Rel\<close>) and emits the events as one batch; \<open>Backpressure\<close> governs
  when a turn may read stream data.

  \<^bold>\<open>Parameters.\<close> Code that is not the repository's own is an argument of the definitions: the record \<open>quic\<close> for
  a \<^verbatim>\<open>quiche\<close> connection, \<open>net\<close> for packets and sockets, \<open>acceptor\<close> and \<open>packet_header\<close> for
  accepting connections, \<open>quic_api\<close>, \<open>ssl_api\<close> and \<open>x509\<close> for configurations, BoringSSL and
  certificates, \<open>udp_os\<close> and \<open>echo_os\<close> for the system calls on sockets, \<open>boring\<close> for making keys and
  certificates, \<open>env\<close> for the allocator, QPACK, the structured-field parser and the iteration order of
  hash maps, \<open>host_env\<close> for the \<^verbatim>\<open>url\<close> crate and the operating system. What a property needs of
  them is a named hypothesis: \<open>recv_laws\<close>, \<open>stream_laws\<close> and \<open>dgram_laws\<close> (reading takes bytes off
  what has arrived), \<open>dgram_send_laws\<close> (a datagram is queued whole or not at all), \<open>send_laws\<close> (a send
    accepts a prefix), \<open>close_keeps\<close> (closing the connection takes no stream data), \<open>visits_once\<close> (an iteration
    of a hash map visits a key once), \<open>loop_laws\<close> (draining ends), \<open>alloc_ok\<close>
  (an allocation is at least as large as asked for), \<open>sf_list_laws\<close>, \<open>clock_laws\<close>, \<open>boring_works\<close> and
  \<open>boring_reads\<close> (a certificate reads back as it was built). \<open>Quic_Model\<close> is a small
  connection on which they hold and the witnesses evaluate.

  \<^bold>\<open>Loops.\<close> The parser loops terminate on every input and are total functions; each takes bytes off a buffer
  (the locale \<open>frame_loop\<close>). The loops that drain the connection end only if the
  connection does: \<open>on_readable\<close>, \<open>on_datagrams\<close>, \<open>flush_send\<close> take a number of rounds, and the
  outcome says when it did not suffice. \<open>on_readable_total\<close> and \<open>loop_laws\<close> show that one more than the
  bytes, datagrams or packets the connection holds is enough; the driver and the server use \<open>rounds c\<close>, any
  bound of that kind.

  \<^bold>\<open>What the lemmas show.\<close>
  \<^item> \<open>Parser_Memory\<close> and \<open>Session_Memory\<close>: a reservation is all or nothing; in every reachable state the
    budget counter is the capacity of the live buffers. The relation \<open>keeps\<close> and the collection
    \<open>keeps_rules\<close> carry this through every operation.
  \<^item> \<open>Session_Rel\<close>: the locale \<open>recv_relation\<close> and its extension \<open>session_relation\<close> reduce a relation
    between states to the primitive effects of the operations. They are interpreted on
    \<open>evolves\<close> (a session closes and drains once, \<open>Session_Life\<close>), \<open>reads\<close> (reading ends) and \<open>admits\<close>
    (who becomes ready, \<open>Session_Admission\<close>).
  \<^item> \<open>Session_Flow\<close>: order, acknowledgement and flow control on the send side; \<open>Session_Wire\<close>: reassembly
    of frames and the close capsule, by the locale \<open>tlv_codec\<close> of \<open>Varint\<close>; \<open>Session_Streams\<close>: a stream
    from the application that writes it to the one that reads it; \<open>Session_Credit\<close>: the limits the two ends hold
    agree; \<open>Session_Admission\<close>: the CONNECT request from
    the client's headers to the server's event.
  \<^item> \<open>Driver_Props\<close>, \<open>Server_Props\<close>, \<open>Server_Claims\<close>: the event loops refine the step relation of the
    session, keep the tables consistent and report each end once, whatever the network does, panics included
    (a client run stopped by the application, or by a failure to register or to poll its socket, reports no end).
  \<^item> \<open>Server_Commands\<close>: the dispatch of commands in \<^verbatim>\<open>server.rs\<close> measured by that of \<^verbatim>\<open>driver.rs\<close>: for every
    session, draining the queue does what a client would do with the commands for that session alone.
  \<^item> \<open>Server_Admission\<close>, \<open>Client_Admission\<close>: whom a whole run announces. The locale \<open>server_lift\<close> carries a fact of
    single sessions through the server's tables, commands and batches. \<open>Server_Example\<close> evaluates a run
    that admits a peer after a Retry.
  \<^item> \<open>Test_Cert\<close>: the generated certificate against the client's check of pinned certificates.
  \<^item> \<open>Bindings_Props\<close>: no call of JavaScript can send an ill-formed command (the locale \<open>command_table\<close>,
    interpreted on both tables of exports, those that only read included), and a client that connects checks its server.
  \<^item> \<open>Backpressure\<close>: an invariant of the two threads, by rule induction: the counter is exact and no wake is lost.

  \<^bold>\<open>Simplifications.\<close> A \<^verbatim>\<open>usize\<close> is a natural number, with the bound of 64 bits where the code depends on
  it. Floating-point numbers of JavaScript are rational numbers with the special values, rounded to 53 bits where the code
  converts; durations are not converted to milliseconds. Atomics with relaxed ordering are modelled as
  atomic steps on one counter, which is what coherence of a single location gives; the order of the counter and the
  waker is the one of the system calls. The hash maps are association lists; where the code iterates over one, the
  order is a parameter.

  \<^bold>\<open>Not modelled.\<close> \<^verbatim>\<open>quiche\<close> under \<^verbatim>\<open>vendor\<close> (third-party; its QPACK included), the TypeScript
  layer \<^verbatim>\<open>src/*.ts\<close> (its obligations towards the addon are not assumed: the properties of the bindings hold for
  any arguments), the glue of \<^verbatim>\<open>neon\<close> (rooting of callbacks, module registration, thread spawning and
  joining), debug output, and the test code of the crates.
\<close>

end
